(* ===== verification/Base.thy ===== *)
theory Base
  imports Main "HOL-Library.Word"
begin

text \<open>
  Prelude of the development: the machine integer types of the C++ sources, the outcome of
  a call (it returns, it blocks for ever, or it crashes), the two container accesses whose
  bounds the sources rely on (\<open>std::copy\<close> out of and into a buffer), and the lemmas on
  lists, words and outcomes that the component theories share.
\<close>

unbundle bit_operations_syntax

section \<open>Machine integers\<close>

type_synonym u8 = "8 word"
type_synonym u16 = "16 word"
type_synonym u32 = "32 word"
type_synonym u64 = "64 word"

type_synonym bytes = "u8 list"

named_theorems outcome_simps \<open>evaluation of outcomes and of the bind that sequences them\<close>
named_theorems buffer_simps \<open>bounds-checked reads and writes of buffers\<close>

section \<open>Outcomes of a call\<close>

text \<open>
  \<open>Ret\<close> is a normal return. \<open>Block\<close> is a call that waits for something that never
  arrives. \<open>Crash\<close> is what the C++ standard leaves undefined (an access past the end of
  a buffer), an exception that nobody catches, or a failed \<open>CHECK\<close>.
\<close>

datatype 'a outcome = Ret 'a | Block | Crash

primrec obind :: "'a outcome \<Rightarrow> ('a \<Rightarrow> 'b outcome) \<Rightarrow> 'b outcome" where
  "obind (Ret x) f = f x"
| "obind Block f = Block"
| "obind Crash f = Crash"

lemma obind_cong [fundef_cong]:
  "\<lbrakk>m = m'; \<And>x. m' = Ret x \<Longrightarrow> f x = f' x\<rbrakk> \<Longrightarrow> obind m f = obind m' f'"
  by (cases m') auto

lemma obind_eq_Ret [outcome_simps]:
  "obind m f = Ret y \<longleftrightarrow> (\<exists>x. m = Ret x \<and> f x = Ret y)"
  by (cases m) auto

lemma obind_assoc [simp]: "obind (obind m f) g = obind m (\<lambda>x. obind (f x) g)"
  by (cases m) auto

lemma obind_Ret_right [simp]: "obind m Ret = m"
  by (cases m) auto

lemma obind_if [outcome_simps]:
  "obind (if b then m else m') f = (if b then obind m f else obind m' f)"
  by simp

section \<open>Buffers\<close>

text \<open>
  \<open>slice xs a b\<close> is the range \<open>[xs.begin() + a, xs.begin() + b)\<close>; \<open>blit xs i ys\<close> is
  \<open>std::copy\<close> of \<open>ys\<close> to \<open>xs.begin() + i\<close>. Both crash when the range leaves the
  container. \<open>resize n xs\<close> is \<open>std::vector::resize\<close>: cut, or pad with zeros.
\<close>

definition slice :: "'a list \<Rightarrow> nat \<Rightarrow> nat \<Rightarrow> 'a list outcome" where
  "slice xs a b = (if a \<le> b \<and> b \<le> length xs then Ret (take (b - a) (drop a xs)) else Crash)"

definition blit :: "'a list \<Rightarrow> nat \<Rightarrow> 'a list \<Rightarrow> 'a list outcome" where
  "blit xs i ys =
     (if i + length ys \<le> length xs then Ret (take i xs @ ys @ drop (i + length ys) xs)
      else Crash)"

definition resize :: "nat \<Rightarrow> u8 list \<Rightarrow> u8 list" where
  "resize n xs = take n xs @ replicate (n - length xs) 0"

lemma length_resize [simp]: "length (resize n xs) = n"
  by (simp add: resize_def)

lemma slice_Ret [buffer_simps]:
  "a \<le> b \<Longrightarrow> b \<le> length xs \<Longrightarrow> slice xs a b = Ret (take (b - a) (drop a xs))"
  by (simp add: slice_def)

lemma blit_Ret [buffer_simps]:
  "i + length ys \<le> length xs \<Longrightarrow>
   blit xs i ys = Ret (take i xs @ ys @ drop (i + length ys) xs)"
  by (simp add: blit_def)

text \<open>Growing a buffer by \<open>length ys\<close> and copying \<open>ys\<close> to the old end appends \<open>ys\<close>.\<close>

lemma blit_resize [buffer_simps]:
  "blit (resize (length xs + length ys) xs) (length xs) ys = Ret (xs @ ys)"
  by (simp add: blit_def resize_def)

lemma blit_length: "blit xs i ys = Ret zs \<Longrightarrow> length zs = length xs"
  by (auto simp: blit_def split: if_splits)

section \<open>Words\<close>

lemma unat_of_nat_u32 [simp]: "n < 2 ^ 32 \<Longrightarrow> unat (of_nat n :: u32) = n"
  by (simp add: unat_of_nat take_bit_nat_eq_self)

lemma unat_of_nat_u64 [simp]: "n < 2 ^ 64 \<Longrightarrow> unat (of_nat n :: u64) = n"
  by (simp add: unat_of_nat take_bit_nat_eq_self)

lemma unat_numeral_u32_4: "unat (4 :: u32) = 4"
  by simp

lemma unat_eq_of_nat_u32: "unat (x :: u32) = n \<Longrightarrow> x = of_nat n"
  by auto

lemma unat_lt_u32: "unat (x :: u32) < 2 ^ 32"
  using unsigned_less [of x] by simp

lemma sint_of_nat_u32: "n < 2 ^ 31 \<Longrightarrow> sint (of_nat n :: u32) = int n"
  by (simp add: signed_of_nat signed_take_bit_int_eq_self)

lemma unat_min: "unat (min a b) = min (unat a) (unat b)" for a b :: "'a::len word"
  by (simp add: min_def word_le_nat_alt)

lemma unat_sub_le: "b \<le> a \<Longrightarrow> unat (a - b) = unat a - unat b" for a b :: "'a::len word"
  by (rule unat_sub)

lemma unat_add_lt:
  "unat a + unat b < 2 ^ LENGTH('a) \<Longrightarrow> unat (a + b) = unat a + unat b"
  for a b :: "'a::len word"
  by (simp add: unat_word_ariths)

lemmas u32_arith = unat_min unat_sub_le unat_add_lt word_le_nat_alt word_less_nat_alt

end
