(* ===== verification/Blocking_Queue.thy ===== *)
theory Blocking_Queue
  imports Base "HOL-Library.Multiset"
begin

text \<open>
  Model of \<open>common/queue/queue.h\<close>, the blocking queue that every other component passes
  its work through. Two views:
  \<^item> the operations as one thread sees them when nobody else touches the queue
    (\<open>Push\<close>, \<open>PopTimed\<close>, \<open>Pop\<close>, \<open>Empty\<close>), which the clients call;
  \<^item> the monitor: threads that enter, sleep on one of the two condition variables, are
    notified, wake up (also spuriously), time out. Each rule of \<open>queue_step\<close> is one critical
    section or one notification, with the guards of the C++.
  The lemmas show the first-in first-out order over every interleaving, that a bounded
  queue never exceeds its bound, and that no notification is lost.
\<close>

section \<open>The queue and its operations\<close>

record 'a bqueue =
  max_length :: u32
  queue :: "'a list"

definition new_queue :: "u32 \<Rightarrow> 'a bqueue" where
  "new_queue n = \<lparr>max_length = n, queue = []\<rparr>"

definition is_full :: "'a bqueue \<Rightarrow> bool" where
  "is_full q \<longleftrightarrow> max_length q \<noteq> 0 \<and> unat (max_length q) \<le> length (queue q)"

definition Push :: "'a \<Rightarrow> 'a bqueue \<Rightarrow> 'a bqueue outcome" where
  "Push element q =
     (if is_full q then Block else Ret (q\<lparr>queue := queue q @ [element]\<rparr>))"

text \<open>
  \<open>PopTimed\<close> with nobody pushing meanwhile: the front element, or \<open>None\<close> when the
  timeout expires.
\<close>

definition PopTimed :: "'a bqueue \<Rightarrow> 'a option \<times> 'a bqueue" where
  "PopTimed q =
     (case queue q of
        [] \<Rightarrow> (None, q)
      | x # xs \<Rightarrow> (Some x, q\<lparr>queue := xs\<rparr>))"

text \<open>\<open>Pop\<close> repeats \<open>PopTimed\<close> until it succeeds; on an empty queue it never does.\<close>

definition Pop :: "'a bqueue \<Rightarrow> ('a \<times> 'a bqueue) outcome" where
  "Pop q = (case PopTimed q of (Some x, q') \<Rightarrow> Ret (x, q') | (None, _) \<Rightarrow> Block)"

definition Empty :: "'a bqueue \<Rightarrow> bool" where
  "Empty q \<longleftrightarrow> queue q = []"

section \<open>The contract of a first-in first-out queue\<close>

locale fifo =
  fixes push :: "'a \<Rightarrow> 'q \<Rightarrow> 'q outcome"
    and pop :: "'q \<Rightarrow> ('a \<times> 'q) outcome"
    and contents :: "'q \<Rightarrow> 'a list"
    and full :: "'q \<Rightarrow> bool"
  assumes push_contents: "\<not> full q \<Longrightarrow> \<exists>q'. push x q = Ret q' \<and> contents q' = contents q @ [x]"
    and push_full: "full q \<Longrightarrow> push x q = Block"
    and pop_contents: "contents q = x # xs \<Longrightarrow> \<exists>q'. pop q = Ret (x, q') \<and> contents q' = xs"
    and pop_empty: "contents q = [] \<Longrightarrow> pop q = Block"
begin

lemma push_pop_empty:
  assumes "contents q = []" and "\<not> full q"
  shows "\<exists>q'. obind (push x q) pop = Ret (x, q') \<and> contents q' = []"
  using push_contents [OF assms(2), of x] assms(1) pop_contents by fastforce

lemma push_pop_nonempty:
  assumes "contents q = y # ys" and "\<not> full q"
  shows "\<exists>q'. obind (push x q) pop = Ret (y, q') \<and> contents q' = ys @ [x]"
  using push_contents [OF assms(2), of x] assms(1) pop_contents by fastforce

lemma pop_Ret_iff: "(\<exists>x q'. pop q = Ret (x, q')) \<longleftrightarrow> contents q \<noteq> []"
proof (cases "contents q")
  case Nil
  then show ?thesis using pop_empty by auto
next
  case (Cons x xs)
  then show ?thesis using pop_contents [OF Cons] by auto
qed

end

interpretation bq: fifo Push Pop queue is_full
proof (unfold_locales, goal_cases)
  case (1 q x)
  then show ?case by (simp add: Push_def)
next
  case (2 q x)
  then show ?case by (simp add: Push_def)
next
  case (3 q x xs)
  then show ?case by (simp add: Pop_def PopTimed_def)
next
  case (4 q)
  then show ?case by (simp add: Pop_def PopTimed_def)
qed

lemma PopTimed_simps [simp]:
  "queue q = [] \<Longrightarrow> PopTimed q = (None, q)"
  "queue q = x # xs \<Longrightarrow> PopTimed q = (Some x, q\<lparr>queue := xs\<rparr>)"
  by (simp_all add: PopTimed_def)

lemma Push_unbounded [simp]:
  "max_length q = 0 \<Longrightarrow> Push x q = Ret (q\<lparr>queue := queue q @ [x]\<rparr>)"
  by (simp add: Push_def is_full_def)

section \<open>The monitor\<close>

text \<open>
  \<open>pop_wait\<close> threads sleep on \<open>queue_not_empty_\<close>, \<open>pop_woken\<close> threads have been notified (or
  woke up spuriously) and have yet to take the lock again; likewise \<open>push_wait\<close> and
  \<open>push_woken\<close>, which remember the elements the pushing threads carry. \<open>to_notify\<close> counts
  the threads that have pushed and left the lock but not yet called \<open>notify_one\<close>.
\<close>

record 'a monitor =
  bq :: "'a bqueue"
  pop_wait :: nat
  pop_woken :: nat
  push_wait :: "'a multiset"
  push_woken :: "'a multiset"
  to_notify :: nat

definition new_monitor :: "u32 \<Rightarrow> 'a monitor" where
  "new_monitor n =
     \<lparr>bq = new_queue n, pop_wait = 0, pop_woken = 0, push_wait = {#}, push_woken = {#},
      to_notify = 0\<rparr>"

datatype 'a queue_event = Pushed 'a | Popped 'a | TimedOut | Silent

definition do_push :: "'a \<Rightarrow> 'a monitor \<Rightarrow> 'a monitor" where
  "do_push x m = m\<lparr>bq := (bq m)\<lparr>queue := queue (bq m) @ [x]\<rparr>, to_notify := Suc (to_notify m)\<rparr>"

text \<open>
  Taking the front element and notifying one of the threads that wait for room (any one).
\<close>

inductive do_pop :: "'a monitor \<Rightarrow> 'a \<Rightarrow> 'a monitor \<Rightarrow> bool" where
  pop_none: "queue (bq m) = x # xs \<Longrightarrow> push_wait m = {#} \<Longrightarrow>
    do_pop m x (m\<lparr>bq := (bq m)\<lparr>queue := xs\<rparr>\<rparr>)"
| pop_one: "queue (bq m) = x # xs \<Longrightarrow> y \<in># push_wait m \<Longrightarrow>
    do_pop m x (m\<lparr>bq := (bq m)\<lparr>queue := xs\<rparr>, push_wait := push_wait m - {#y#},
      push_woken := add_mset y (push_woken m)\<rparr>)"

inductive queue_step :: "'a monitor \<Rightarrow> 'a queue_event \<Rightarrow> 'a monitor \<Rightarrow> bool" where
  push_enter: "\<not> is_full (bq m) \<Longrightarrow> queue_step m (Pushed x) (do_push x m)"
| push_sleep: "is_full (bq m) \<Longrightarrow>
    queue_step m Silent (m\<lparr>push_wait := add_mset x (push_wait m)\<rparr>)"
| push_resume: "x \<in># push_woken m \<Longrightarrow> \<not> is_full (bq m) \<Longrightarrow>
    queue_step m (Pushed x) (do_push x (m\<lparr>push_woken := push_woken m - {#x#}\<rparr>))"
| push_again: "x \<in># push_woken m \<Longrightarrow> is_full (bq m) \<Longrightarrow>
    queue_step m Silent
      (m\<lparr>push_woken := push_woken m - {#x#}, push_wait := add_mset x (push_wait m)\<rparr>)"
| push_spurious: "x \<in># push_wait m \<Longrightarrow>
    queue_step m Silent
      (m\<lparr>push_wait := push_wait m - {#x#}, push_woken := add_mset x (push_woken m)\<rparr>)"
| notify_sleeper: "to_notify m = Suc k \<Longrightarrow> pop_wait m = Suc w \<Longrightarrow>
    queue_step m Silent
      (m\<lparr>to_notify := k, pop_wait := w, pop_woken := Suc (pop_woken m)\<rparr>)"
| notify_nobody: "to_notify m = Suc k \<Longrightarrow> pop_wait m = 0 \<Longrightarrow>
    queue_step m Silent (m\<lparr>to_notify := k\<rparr>)"
| pop_enter: "do_pop m x m' \<Longrightarrow> queue_step m (Popped x) m'"
| pop_sleep: "queue (bq m) = [] \<Longrightarrow>
    queue_step m Silent (m\<lparr>pop_wait := Suc (pop_wait m)\<rparr>)"
| pop_resume: "pop_woken m = Suc w \<Longrightarrow> do_pop (m\<lparr>pop_woken := w\<rparr>) x m' \<Longrightarrow>
    queue_step m (Popped x) m'"
| pop_again: "pop_woken m = Suc w \<Longrightarrow> queue (bq m) = [] \<Longrightarrow>
    queue_step m Silent (m\<lparr>pop_woken := w, pop_wait := Suc (pop_wait m)\<rparr>)"
| pop_spurious: "pop_wait m = Suc w \<Longrightarrow>
    queue_step m Silent (m\<lparr>pop_wait := w, pop_woken := Suc (pop_woken m)\<rparr>)"
| pop_timeout_woken: "pop_woken m = Suc w \<Longrightarrow> queue (bq m) = [] \<Longrightarrow>
    queue_step m TimedOut (m\<lparr>pop_woken := w\<rparr>)"

text \<open>
  A sleeping thread whose time is up leaves the wait like one that woke up spuriously and
  checks the predicate once more, so its timeout is \<open>pop_spurious\<close> followed by
  \<open>pop_timeout_woken\<close> or, if an element has arrived meanwhile, by \<open>pop_resume\<close>.
\<close>

inductive queue_run :: "'a monitor \<Rightarrow> 'a queue_event list \<Rightarrow> 'a monitor \<Rightarrow> bool" where
  run_nil: "queue_run m [] m"
| run_snoc: "queue_run m es m' \<Longrightarrow> queue_step m' e m'' \<Longrightarrow> queue_run m (es @ [e]) m''"

fun pushed :: "'a queue_event list \<Rightarrow> 'a list" where
  "pushed [] = []"
| "pushed (Pushed x # es) = x # pushed es"
| "pushed (_ # es) = pushed es"

fun popped :: "'a queue_event list \<Rightarrow> 'a list" where
  "popped [] = []"
| "popped (Popped x # es) = x # popped es"
| "popped (_ # es) = popped es"

lemma pushed_append [simp]: "pushed (es @ fs) = pushed es @ pushed fs"
  by (induction es rule: pushed.induct) auto

lemma popped_append [simp]: "popped (es @ fs) = popped es @ popped fs"
  by (induction es rule: popped.induct) auto

inductive_cases do_pop_cases [elim!]: "do_pop m x m'"

section \<open>Invariants\<close>

definition within_bound :: "'a monitor \<Rightarrow> bool" where
  "within_bound m \<longleftrightarrow>
     (max_length (bq m) \<noteq> 0 \<longrightarrow> length (queue (bq m)) \<le> unat (max_length (bq m)))"

definition no_lost_wakeup :: "'a monitor \<Rightarrow> bool" where
  "no_lost_wakeup m \<longleftrightarrow>
     (0 < pop_wait m \<longrightarrow> length (queue (bq m)) \<le> pop_woken m + to_notify m) \<and>
     (push_wait m \<noteq> {#} \<longrightarrow>
        max_length (bq m) \<noteq> 0 \<and>
        unat (max_length (bq m)) \<le> length (queue (bq m)) + size (push_woken m))"

lemma step_max_length: "queue_step m e m' \<Longrightarrow> max_length (bq m') = max_length (bq m)"
  by (induction rule: queue_step.induct) (auto simp: do_push_def)

lemma step_within_bound: "queue_step m e m' \<Longrightarrow> within_bound m \<Longrightarrow> within_bound m'"
  by (induction rule: queue_step.induct)
    (auto simp: do_push_def within_bound_def is_full_def)

lemma do_pop_no_lost_wakeup:
  assumes "do_pop m x m'" and "no_lost_wakeup (m\<lparr>pop_woken := k\<rparr>)" and "k \<le> Suc (pop_woken m)"
  shows "no_lost_wakeup m'"
  using assms by cases (auto simp: no_lost_wakeup_def)

lemma step_no_lost_wakeup: "queue_step m e m' \<Longrightarrow> no_lost_wakeup m \<Longrightarrow> no_lost_wakeup m'"
proof (induction rule: queue_step.induct)
  case (pop_enter m x m')
  then show ?case by (intro do_pop_no_lost_wakeup [of m x m' "pop_woken m"]) auto
next
  case (pop_resume m w x m')
  then show ?case
    by (intro do_pop_no_lost_wakeup [of "m\<lparr>pop_woken := w\<rparr>" x m' "pop_woken m"])
      (auto simp: no_lost_wakeup_def)
qed (auto simp: no_lost_wakeup_def do_push_def is_full_def size_Diff_singleton
       dest: multi_member_split)

lemma step_fifo:
  "queue_step m e m' \<Longrightarrow>
   queue (bq m) @ pushed [e] = popped [e] @ queue (bq m')"
  by (induction rule: queue_step.induct) (auto simp: do_push_def)

lemmas monitor_init_defs = new_monitor_def new_queue_def within_bound_def no_lost_wakeup_def

lemma run_invariants:
  assumes "queue_run (new_monitor n) es m"
  shows "within_bound m \<and> no_lost_wakeup m \<and> max_length (bq m) = n \<and>
    pushed es = popped es @ queue (bq m)"
  using assms
proof (induction "new_monitor n :: 'a monitor" es m rule: queue_run.induct)
  case run_nil
  then show ?case by (simp add: monitor_init_defs)
next
  case (run_snoc es m' e m'')
  then show ?case
    using step_within_bound step_no_lost_wakeup step_max_length step_fifo [of m' e m'']
    by (metis append.assoc pushed_append popped_append)
qed

section \<open>Properties\<close>

text \<open>
  C29. First in, first out, over every interleaving of threads that push, pop, sleep, wake up
  and time out: the elements popped so far, followed by those still in the queue, are the
  elements pushed so far in the order in which they were pushed. Nothing is lost or doubled.
\<close>

theorem queue_fifo:
  assumes "queue_run (new_monitor n) es m"
  shows "pushed es = popped es @ queue (bq m)"
  using run_invariants [OF assms] by simp

lemma example_run:
  "queue_run (new_monitor 1) [Pushed (7::nat), Silent, Popped 7]
     (new_monitor 1\<lparr>to_notify := 1, push_woken := {#8#}\<rparr>)"
proof -
  let ?m0 = "new_monitor 1 :: nat monitor"
  let ?m1 = "do_push 7 ?m0"
  let ?m2 = "?m1\<lparr>push_wait := {#8#}\<rparr>"
  let ?m3 = "?m0\<lparr>to_notify := 1, push_woken := {#8#}\<rparr>"
  have s1: "queue_step ?m0 (Pushed 7) ?m1"
    by (rule queue_step.push_enter) (simp add: monitor_init_defs is_full_def)
  have s2: "queue_step ?m1 Silent ?m2"
    using queue_step.push_sleep [of ?m1 8]
    by (simp add: monitor_init_defs is_full_def do_push_def)
  have "do_pop ?m2 7 (?m2\<lparr>bq := (bq ?m2)\<lparr>queue := []\<rparr>, push_wait := push_wait ?m2 - {#8#},
      push_woken := add_mset 8 (push_woken ?m2)\<rparr>)"
    by (rule do_pop.pop_one) (simp_all add: do_push_def monitor_init_defs)
  then have "do_pop ?m2 7 ?m3"
    by (simp add: do_push_def monitor_init_defs)
  then have s3: "queue_step ?m2 (Popped 7) ?m3" by (rule queue_step.pop_enter)
  show ?thesis
    using queue_run.run_snoc [OF queue_run.run_snoc [OF queue_run.run_snoc [OF
          queue_run.run_nil s1] s2] s3] by simp
qed

theorem queue_fifo_witness:
  "pushed [Pushed (7::nat), Silent, Popped 7] =
   popped [Pushed 7, Silent, Popped 7] @
     queue (bq (new_monitor 1\<lparr>to_notify := 1, push_woken := {#8#}\<rparr>))"
  by (rule queue_fifo [OF example_run])

text \<open>
  A queue with a maximum length never holds more elements than that, in any
  interleaving; a maximum of zero means no limit.
\<close>

theorem queue_bounded:
  assumes "queue_run (new_monitor n) es m" and "n \<noteq> 0"
  shows "length (queue (bq m)) \<le> unat n"
  using run_invariants [OF assms(1)] assms(2) by (auto simp: within_bound_def)

theorem queue_bounded_witness:
  "length (queue (bq (new_monitor 1\<lparr>to_notify := 1, push_woken := {#8::nat#}\<rparr>))) \<le> unat (1::u32)"
  by (rule queue_bounded [OF example_run]) simp



end
