(* ===== verification/Pool_Task.thy ===== *)
theory Pool_Task
  imports Base
begin

text \<open>
  Model of \<open>common/thread_pool/task\<close>: the status and the handle of a task of the thread pool.
\<close>

type_synonym handle = u32

datatype status = RUNNING | DONE | FAILED | CANCELLED

text \<open>
  Construction of a task takes the next value of the static counter; the default
  \<open>SetUp()\<close> reports a running task.
\<close>

definition new_task :: "u32 \<Rightarrow> handle \<times> u32" where
  "new_task current_id = (current_id, current_id + 1)"

definition default_SetUp :: status where
  "default_SetUp = RUNNING"

end
