(* ===== verification/Thread_Pool.thy ===== *)
theory Thread_Pool
  imports Blocking_Queue Pool_Task
begin

text \<open>
  Model of \<open>common/thread_pool/thread_pool\<close>: \<open>ThreadPool\<close> with its dispatcher thread, its
  joiner thread and one thread per running task. A task is known by its handle; what \<open>SetUp()\<close> and \<open>RunAtomic()\<close> return is up to the environment. The pool
  is a state machine: every action of \<open>exec\<close> is one critical section (or one access to one
  of the two internal queues) of one thread, enabled exactly when the C++ thread can pass
  it, so that a list of actions is an interleaving of the threads.

  The lemmas: the number of task threads never exceeds the limit; no task is lost between
  \<open>AddTask\<close> and its thread; a final status is never overwritten; a cancelled task does not
  run again; the joiner never waits for a thread that still needs the lock it holds; and an
  idle pool keeps \<open>WaitForCompletion()\<close> waiting although nothing runs.
\<close>

section \<open>State of the pool\<close>

text \<open>Where a task thread is inside \<open>RunTask\<close>.\<close>

datatype run_pc =
    Setting_Up
  | Updating status
  | Running
  | Cleaning_Up
  | Counting
  | Notifying
  | Exited

datatype dispatcher_pc = D_Wait | D_Pop | D_Start handle | D_Exited

datatype joiner_pc = J_Pop | J_Finalize handle | J_Exited

record pool =
  handle_to_task :: "handle set"
  handle_to_status :: "handle \<rightharpoonup> status"
  handle_to_thread :: "handle \<rightharpoonup> run_pc"
  cancelled_tasks :: "handle set"
  dispatch_queue :: "handle bqueue"
  joinable_queue :: "handle bqueue"
  should_close :: bool
  max_pool_size :: u32
  pool_size :: u32
  num_completed_tasks :: u32
  dispatcher :: dispatcher_pc
  joiner :: joiner_pc
  adding :: "handle set"

definition new_pool :: "u32 \<Rightarrow> pool" where
  "new_pool num_threads =
     \<lparr>handle_to_task = {}, handle_to_status = Map.empty, handle_to_thread = Map.empty,
      cancelled_tasks = {}, dispatch_queue = new_queue 0, joinable_queue = new_queue 0,
      should_close = False, max_pool_size = num_threads, pool_size = 0,
      num_completed_tasks = 0, dispatcher = D_Wait, joiner = J_Pop, adding = {}\<rparr>"

section \<open>Operations\<close>

text \<open>
  \<open>AddTask\<close> has two parts: the bookkeeping under the lock, then the push onto the dispatch
  queue. In between the handle is in \<open>adding\<close>. Each task is added once.
\<close>

definition AddTask_record :: "handle \<Rightarrow> pool \<Rightarrow> pool option" where
  "AddTask_record h p =
     (if handle_to_status p h \<noteq> None \<or> h = 0 then None
      else Some (p\<lparr>handle_to_task := insert h (handle_to_task p),
                   handle_to_status := (handle_to_status p)(h \<mapsto> RUNNING),
                   adding := insert h (adding p)\<rparr>))"

definition AddTask_enqueue :: "handle \<Rightarrow> pool \<Rightarrow> pool option" where
  "AddTask_enqueue h p =
     (if h \<notin> adding p then None
      else case Push h (dispatch_queue p) of
             Ret q \<Rightarrow> Some (p\<lparr>dispatch_queue := q, adding := adding p - {h}\<rparr>)
           | _ \<Rightarrow> None)"

definition CancelTask :: "handle \<Rightarrow> pool \<Rightarrow> pool" where
  "CancelTask h p = p\<lparr>cancelled_tasks := insert h (cancelled_tasks p)\<rparr>"

definition GetTaskStatus :: "handle \<Rightarrow> pool \<Rightarrow> status outcome" where
  "GetTaskStatus h p =
     (case handle_to_status p h of Some st \<Rightarrow> Ret st | None \<Rightarrow> Crash)"

definition NumThreads :: "pool \<Rightarrow> u32" where
  "NumThreads p = pool_size p"

text \<open>
  \<open>WaitForCompletion()\<close> returns when this holds; \<open>initial\<close> is the number of completed tasks
  it saw on entry (on entry itself only the second disjunct can hold).
\<close>

definition completion_ready :: "u32 \<Rightarrow> pool \<Rightarrow> bool" where
  "completion_ready initial p \<longleftrightarrow>
     num_completed_tasks p \<noteq> initial \<or> (Empty (dispatch_queue p) \<and> pool_size p = 0)"

text \<open>
  The overload for one task reads the status with \<open>operator[]\<close>, which adds a running entry
  for a handle the pool does not know.
\<close>

definition WaitForCompletion_task :: "handle \<Rightarrow> pool \<Rightarrow> pool outcome" where
  "WaitForCompletion_task h p =
     (let st = (case handle_to_status p h of Some st \<Rightarrow> st | None \<Rightarrow> RUNNING);
          p' = p\<lparr>handle_to_status := (handle_to_status p)(h \<mapsto> st)\<rparr>
      in if st = RUNNING then Block else Ret p')"

text \<open>
  The dispatcher: wait for a free thread and reserve it; take a handle from the queue;
  start the thread, unless the pool is closing.
\<close>

definition Dispatcher_reserve :: "pool \<Rightarrow> pool option" where
  "Dispatcher_reserve p =
     (if dispatcher p \<noteq> D_Wait then None
      else if max_pool_size p \<noteq> 0 \<and> pool_size p \<ge> max_pool_size p \<and> \<not> should_close p then None
      else Some (p\<lparr>pool_size := pool_size p + 1, dispatcher := D_Pop\<rparr>))"

definition Dispatcher_pop :: "pool \<Rightarrow> pool option" where
  "Dispatcher_pop p =
     (if dispatcher p \<noteq> D_Pop then None
      else case Pop (dispatch_queue p) of
             Ret (h, q) \<Rightarrow> Some (p\<lparr>dispatch_queue := q, dispatcher := D_Start h\<rparr>)
           | _ \<Rightarrow> None)"

definition Dispatcher_start :: "pool \<Rightarrow> pool option" where
  "Dispatcher_start p =
     (case dispatcher p of
        D_Start h \<Rightarrow>
          if should_close p then Some (p\<lparr>dispatcher := D_Exited\<rparr>)
          else Some (p\<lparr>handle_to_thread := (handle_to_thread p)(h \<mapsto> Setting_Up),
                       dispatcher := D_Wait\<rparr>)
      | _ \<Rightarrow> None)"

text \<open>
  The joiner: take a finished task from the queue; join its thread (the thread function
  must have returned) and forget the task, keeping its status.
\<close>

definition Joiner_pop :: "pool \<Rightarrow> pool option" where
  "Joiner_pop p =
     (if joiner p \<noteq> J_Pop then None
      else case Pop (joinable_queue p) of
             Ret (h, q) \<Rightarrow> Some (p\<lparr>joinable_queue := q, joiner := J_Finalize h\<rparr>)
           | _ \<Rightarrow> None)"

definition Joiner_finalize :: "pool \<Rightarrow> pool option" where
  "Joiner_finalize p =
     (case joiner p of
        J_Finalize h \<Rightarrow>
          if should_close p then Some (p\<lparr>joiner := J_Exited\<rparr>)
          else if handle_to_thread p h = Some Exited
          then Some (p\<lparr>handle_to_task := handle_to_task p - {h},
                       handle_to_thread := (handle_to_thread p)(h := None),
                       cancelled_tasks := cancelled_tasks p - {h},
                       pool_size := pool_size p - 1, joiner := J_Pop\<rparr>)
          else None
      | _ \<Rightarrow> None)"

text \<open>\<open>UpdateTaskStatus\<close>: the new state of the pool and whether to keep running.\<close>

definition UpdateTaskStatus :: "handle \<Rightarrow> status \<Rightarrow> pool \<Rightarrow> bool \<times> pool" where
  "UpdateTaskStatus h st p =
     (let st' = (if h \<in> cancelled_tasks p then CANCELLED else st)
      in (st' = RUNNING, p\<lparr>handle_to_status := (handle_to_status p)(h \<mapsto> st')\<rparr>))"

text \<open>
  The steps of \<open>RunTask\<close>. \<open>st\<close> is what the task's own \<open>SetUp()\<close> or \<open>RunAtomic()\<close> returned.
\<close>

definition set_pc :: "handle \<Rightarrow> run_pc \<Rightarrow> pool \<Rightarrow> pool" where
  "set_pc h pc p = p\<lparr>handle_to_thread := (handle_to_thread p)(h \<mapsto> pc)\<rparr>"

definition RunTask_setup :: "handle \<Rightarrow> status \<Rightarrow> pool \<Rightarrow> pool option" where
  "RunTask_setup h st p =
     (if handle_to_thread p h = Some Setting_Up then Some (set_pc h (Updating st) p) else None)"

definition RunTask_update :: "handle \<Rightarrow> pool \<Rightarrow> pool option" where
  "RunTask_update h p =
     (case handle_to_thread p h of
        Some (Updating st) \<Rightarrow>
          let (keep_running, p') = UpdateTaskStatus h st p
          in Some (set_pc h (if keep_running then Running else Cleaning_Up) p')
      | _ \<Rightarrow> None)"

definition RunTask_iterate :: "handle \<Rightarrow> status \<Rightarrow> pool \<Rightarrow> pool option" where
  "RunTask_iterate h st p =
     (if handle_to_thread p h = Some Running then Some (set_pc h (Updating st) p) else None)"

definition RunTask_cleanup :: "handle \<Rightarrow> pool \<Rightarrow> pool option" where
  "RunTask_cleanup h p =
     (if handle_to_thread p h = Some Cleaning_Up then Some (set_pc h Counting p) else None)"

definition RunTask_count :: "handle \<Rightarrow> pool \<Rightarrow> pool option" where
  "RunTask_count h p =
     (if handle_to_thread p h = Some Counting
      then Some (set_pc h Notifying (p\<lparr>num_completed_tasks := num_completed_tasks p + 1\<rparr>))
      else None)"

definition RunTask_notify :: "handle \<Rightarrow> pool \<Rightarrow> pool option" where
  "RunTask_notify h p =
     (if handle_to_thread p h = Some Notifying
      then case Push h (joinable_queue p) of
             Ret q \<Rightarrow> Some (set_pc h Exited (p\<lparr>joinable_queue := q\<rparr>))
           | _ \<Rightarrow> None
      else None)"

text \<open>
  The destructor: cancel everything and set the flag under the lock, then wake the internal
  threads with dummy entries.
\<close>

definition Close_flag :: "pool \<Rightarrow> pool option" where
  "Close_flag p =
     (if should_close p then None
      else Some (p\<lparr>cancelled_tasks := cancelled_tasks p \<union> handle_to_task p,
                   should_close := True\<rparr>))"

definition Close_wake :: "pool \<Rightarrow> pool option" where
  "Close_wake p =
     (if \<not> should_close p then None
      else case (Push 0 (dispatch_queue p), Push 0 (joinable_queue p)) of
             (Ret d, Ret j) \<Rightarrow> Some (p\<lparr>dispatch_queue := d, joinable_queue := j\<rparr>)
           | _ \<Rightarrow> None)"

section \<open>Interleavings\<close>

datatype pool_action =
    Add handle | Enqueue handle | Cancel handle | CloseFlag | CloseWake
  | Reserve | TakeTask | StartThread
  | SetUp handle status | Update handle | Iterate handle status | CleanUp handle
  | Count handle | Notify handle
  | TakeFinished | Finalize

fun exec :: "pool_action \<Rightarrow> pool \<Rightarrow> pool option" where
  "exec (Add h) p = AddTask_record h p"
| "exec (Enqueue h) p = AddTask_enqueue h p"
| "exec (Cancel h) p = Some (CancelTask h p)"
| "exec CloseFlag p = Close_flag p"
| "exec CloseWake p = Close_wake p"
| "exec Reserve p = Dispatcher_reserve p"
| "exec TakeTask p = Dispatcher_pop p"
| "exec StartThread p = Dispatcher_start p"
| "exec (SetUp h st) p = RunTask_setup h st p"
| "exec (Update h) p = RunTask_update h p"
| "exec (Iterate h st) p = RunTask_iterate h st p"
| "exec (CleanUp h) p = RunTask_cleanup h p"
| "exec (Count h) p = RunTask_count h p"
| "exec (Notify h) p = RunTask_notify h p"
| "exec TakeFinished p = Joiner_pop p"
| "exec Finalize p = Joiner_finalize p"

fun run :: "pool_action list \<Rightarrow> pool \<Rightarrow> pool option" where
  "run [] p = Some p"
| "run (a # as) p = (case exec a p of None \<Rightarrow> None | Some p' \<Rightarrow> run as p')"

lemma run_append:
  "run (as @ bs) p = (case run as p of None \<Rightarrow> None | Some p' \<Rightarrow> run bs p')"
  by (induction as arbitrary: p) (auto split: option.splits)

lemmas pool_ops [simp] =
  AddTask_record_def AddTask_enqueue_def CancelTask_def Close_flag_def Close_wake_def
  Dispatcher_reserve_def Dispatcher_pop_def Dispatcher_start_def Joiner_pop_def
  Joiner_finalize_def RunTask_setup_def RunTask_update_def RunTask_iterate_def
  RunTask_cleanup_def RunTask_count_def RunTask_notify_def UpdateTaskStatus_def set_pc_def

lemma run_invariant:
  assumes step: "\<And>a p p'. P p \<Longrightarrow> exec a p = Some p' \<Longrightarrow> P p'"
  shows "run as p = Some p' \<Longrightarrow> P p \<Longrightarrow> P p'"
proof (induction as arbitrary: p)
  case Nil
  then show ?case by simp
next
  case (Cons a as)
  then show ?case using step by (auto split: option.splits)
qed

section \<open>Invariants\<close>

text \<open>Both internal queues are unbounded, so pushing onto them never blocks.\<close>

definition unbounded :: "pool \<Rightarrow> bool" where
  "unbounded p \<longleftrightarrow> max_length (dispatch_queue p) = 0 \<and> max_length (joinable_queue p) = 0"

lemma Pop_simps [simp]:
  "Pop q = Ret (h, q') \<longleftrightarrow> (\<exists>hs. queue q = h # hs \<and> q' = q\<lparr>queue := hs\<rparr>)"
  "Pop q = Crash \<longleftrightarrow> False"
  by (cases "queue q"; auto simp: Pop_def)+

text \<open>
  The tasks on their way to a thread: in the dispatch queue or in the dispatcher's hand.
  (The handle 0 is the dummy of the destructor.)
\<close>

definition in_hand :: "pool \<Rightarrow> handle list" where
  "in_hand p = (case dispatcher p of D_Start h \<Rightarrow> [h] | _ \<Rightarrow> [])"

definition waiting :: "pool \<Rightarrow> handle list" where
  "waiting p = filter (\<lambda>h. h \<noteq> 0) (in_hand p @ queue (dispatch_queue p))"

definition finished :: "pool \<Rightarrow> handle list" where
  "finished p =
     filter (\<lambda>h. h \<noteq> 0)
       ((case joiner p of J_Finalize h \<Rightarrow> [h] | _ \<Rightarrow> []) @ queue (joinable_queue p))"

fun final_pc :: "run_pc \<Rightarrow> bool" where
  "final_pc Setting_Up = False"
| "final_pc (Updating st) = False"
| "final_pc Running = False"
| "final_pc _ = True"

text \<open>
  The life of the tasks, seen abstractly: \<open>A\<close> the tasks being added, \<open>W\<close> those waiting for
  a thread, \<open>T\<close> the task threads, \<open>F\<close> the finished threads waiting to be joined, \<open>S\<close> the
  statuses, \<open>closing\<close> whether the destructor has begun.
\<close>

definition life ::
  "handle set \<Rightarrow> handle list \<Rightarrow> handle list \<Rightarrow> (handle \<rightharpoonup> run_pc) \<Rightarrow> (handle \<rightharpoonup> status) \<Rightarrow> bool \<Rightarrow> bool"
where
  "life A W F T S closing \<longleftrightarrow>
     distinct W \<and> distinct F \<and> 0 \<notin> A \<and> 0 \<notin> set W \<and> T 0 = None \<and> finite (dom T) \<and>
     A \<inter> set W = {} \<and>
     (\<forall>h\<in>A \<union> set W. T h = None \<and> S h = Some RUNNING) \<and>
     (\<forall>h pc. T h = Some pc \<longrightarrow> (\<exists>st. S h = Some st \<and> (final_pc pc \<longleftrightarrow> st \<noteq> RUNNING))) \<and>
     (\<forall>h\<in>set F. T h = Some Exited) \<and>
     (\<not> closing \<longrightarrow> (\<forall>h. S h = Some RUNNING \<longrightarrow> h \<in> A \<or> h \<in> set W \<or> T h \<noteq> None))"

lemma life_init: "life {} [] [] Map.empty Map.empty c"
  by (simp add: life_def)

lemma life_status:
  "life A W F T S c \<Longrightarrow> T h = Some pc \<Longrightarrow> \<exists>st. S h = Some st \<and> (final_pc pc \<longleftrightarrow> st \<noteq> RUNNING)"
  by (simp add: life_def)

lemma life_add:
  assumes "life A W F T S c" and "S h = None" and "h \<noteq> 0"
  shows "life (insert h A) W F T (S(h \<mapsto> RUNNING)) c"
proof -
  have "T h = None" using life_status [OF assms(1), of h] assms(2) by (cases "T h") auto
  then show ?thesis using assms by (auto simp: life_def)
qed

lemma life_enqueue: "life A W F T S c \<Longrightarrow> h \<in> A \<Longrightarrow> life (A - {h}) (W @ [h]) F T S c"
  by (auto simp: life_def)

lemma life_start: "life A (h # W) F T S c \<Longrightarrow> life A W F (T(h \<mapsto> Setting_Up)) S c"
  by (auto simp: life_def)

lemma life_drop: "life A (h # W) F T S c \<Longrightarrow> life A W F T S True"
  by (auto simp: life_def)

lemma life_close: "life A W F T S c \<Longrightarrow> life A W F T S True"
  by (auto simp: life_def)

lemma life_pc:
  "life A W F T S c \<Longrightarrow> T h = Some pc \<Longrightarrow> pc \<noteq> Exited \<Longrightarrow> final_pc pc' = final_pc pc \<Longrightarrow>
   life A W F (T(h \<mapsto> pc')) S c"
  by (auto simp: life_def)

lemma life_update:
  "life A W F T S c \<Longrightarrow> T h = Some pc \<Longrightarrow> \<not> final_pc pc \<Longrightarrow>
   life A W F (T(h \<mapsto> if st = RUNNING then Running else Cleaning_Up)) (S(h \<mapsto> st)) c"
  by (auto simp: life_def)

lemma life_notify:
  assumes "life A W F T S c" and "T h = Some Notifying"
  shows "life A W (F @ [h]) (T(h \<mapsto> Exited)) S c"
  using assms life_status [OF assms] by (auto simp: life_def)

lemma life_finalize:
  assumes "life A W (h # F) T S c"
  shows "life A W F (T(h := None)) S c"
proof -
  have "T h = Some Exited" using assms by (simp add: life_def)
  then show ?thesis using assms life_status [OF assms, of h Exited] by (auto simp: life_def)
qed

lemma life_drop_finished: "life A W (h # F) T S c \<Longrightarrow> life A W F T S c"
  by (auto simp: life_def)

definition pool_inv :: "pool \<Rightarrow> bool" where
  "pool_inv p \<longleftrightarrow>
     unbounded p \<and>
     life (adding p) (waiting p) (finished p) (handle_to_thread p) (handle_to_status p)
       (should_close p) \<and>
     (\<not> should_close p \<longrightarrow>
        0 \<notin> set (in_hand p @ queue (dispatch_queue p) @ queue (joinable_queue p)) \<and>
        joiner p \<noteq> J_Finalize 0)"

lemma pool_inv_init: "pool_inv (new_pool n)"
  by (simp add: pool_inv_def new_pool_def waiting_def finished_def in_hand_def unbounded_def
      new_queue_def life_init)

lemmas view_defs = waiting_def finished_def in_hand_def unbounded_def

lemma pool_inv_clients:
  assumes "pool_inv p"
  shows "exec (Add h) p = Some p' \<Longrightarrow> pool_inv p'"
    and "exec (Enqueue h) p = Some p' \<Longrightarrow> pool_inv p'"
    and "exec (Cancel h) p = Some p' \<Longrightarrow> pool_inv p'"
    and "exec CloseFlag p = Some p' \<Longrightarrow> pool_inv p'"
    and "exec CloseWake p = Some p' \<Longrightarrow> pool_inv p'"
proof -
  show "exec (Add h) p = Some p' \<Longrightarrow> pool_inv p'"
    using assms by (auto simp: pool_inv_def view_defs intro: life_add split: if_splits)
  show "exec (Cancel h) p = Some p' \<Longrightarrow> pool_inv p'"
    using assms by (auto simp: pool_inv_def view_defs)
  show "exec CloseFlag p = Some p' \<Longrightarrow> pool_inv p'"
    using assms by (auto simp: pool_inv_def view_defs intro: life_close split: if_splits)
  show "exec CloseWake p = Some p' \<Longrightarrow> pool_inv p'"
    using assms by (auto simp: pool_inv_def view_defs split: if_splits)
  assume e: "exec (Enqueue h) p = Some p'"
  then have h: "h \<in> adding p" by (auto split: if_splits)
  then have "h \<noteq> 0" using assms by (auto simp: pool_inv_def life_def)
  then show "pool_inv p'"
    using assms h e life_enqueue [of "adding p" "waiting p" _ _ _ _ h]
    by (auto simp: pool_inv_def view_defs)
qed

lemma pool_inv_dispatcher:
  assumes "pool_inv p"
  shows "exec Reserve p = Some p' \<Longrightarrow> pool_inv p'"
    and "exec TakeTask p = Some p' \<Longrightarrow> pool_inv p'"
    and "exec StartThread p = Some p' \<Longrightarrow> pool_inv p'"
proof -
  show "exec Reserve p = Some p' \<Longrightarrow> pool_inv p'"
    using assms by (auto simp: pool_inv_def view_defs split: if_splits)
  show "exec TakeTask p = Some p' \<Longrightarrow> pool_inv p'"
    using assms by (auto simp: pool_inv_def view_defs split: if_splits outcome.splits)
  show "exec StartThread p = Some p' \<Longrightarrow> pool_inv p'"
    using assms
    by (auto simp: pool_inv_def view_defs dest: life_start life_drop
        split: if_splits dispatcher_pc.splits)
qed

lemma pool_inv_runner:
  assumes "pool_inv p"
  shows "exec (SetUp h st) p = Some p' \<Longrightarrow> pool_inv p'"
    and "exec (Update h) p = Some p' \<Longrightarrow> pool_inv p'"
    and "exec (Iterate h st) p = Some p' \<Longrightarrow> pool_inv p'"
    and "exec (CleanUp h) p = Some p' \<Longrightarrow> pool_inv p'"
    and "exec (Count h) p = Some p' \<Longrightarrow> pool_inv p'"
    and "exec (Notify h) p = Some p' \<Longrightarrow> pool_inv p'"
proof -
  show "exec (SetUp h st) p = Some p' \<Longrightarrow> pool_inv p'"
    and "exec (Iterate h st) p = Some p' \<Longrightarrow> pool_inv p'"
    and "exec (CleanUp h) p = Some p' \<Longrightarrow> pool_inv p'"
    and "exec (Count h) p = Some p' \<Longrightarrow> pool_inv p'"
    using assms life_pc [of _ _ _ "handle_to_thread p" _ _ h]
    by (auto simp: pool_inv_def view_defs split: if_splits)
  show "exec (Update h) p = Some p' \<Longrightarrow> pool_inv p'"
    using assms life_update [of _ _ _ "handle_to_thread p" _ _ h]
    by (auto simp: pool_inv_def view_defs Let_def split: option.splits run_pc.splits)
  assume e: "exec (Notify h) p = Some p'"
  then have h: "handle_to_thread p h = Some Notifying" by (auto split: if_splits)
  then have "h \<noteq> 0" using assms by (auto simp: pool_inv_def life_def)
  then show "pool_inv p'"
    using assms h e life_notify [of _ _ "finished p" "handle_to_thread p" _ _ h]
    by (auto simp: pool_inv_def view_defs)
qed

lemma pool_inv_joiner:
  assumes "pool_inv p"
  shows "exec TakeFinished p = Some p' \<Longrightarrow> pool_inv p'"
    and "exec Finalize p = Some p' \<Longrightarrow> pool_inv p'"
proof -
  show "exec TakeFinished p = Some p' \<Longrightarrow> pool_inv p'"
    using assms by (auto simp: pool_inv_def view_defs split: if_splits outcome.splits)
  show "exec Finalize p = Some p' \<Longrightarrow> pool_inv p'"
    using assms
    by (auto simp: pool_inv_def view_defs dest: life_finalize life_drop_finished
        split: if_splits joiner_pc.splits)
qed

lemmas pool_inv_cases = pool_inv_clients pool_inv_dispatcher pool_inv_runner pool_inv_joiner

lemma pool_inv_step:
  assumes "pool_inv p" and "exec a p = Some p'"
  shows "pool_inv p'"
  using assms(2) by (cases a; hypsubst) (erule pool_inv_cases [OF assms(1)])+

lemma run_pool_inv: "run as (new_pool n) = Some p \<Longrightarrow> pool_inv p"
  using run_invariant [where P = pool_inv, of as "new_pool n" p] pool_inv_step pool_inv_init
  by blast

lemma pool_invD:
  assumes "pool_inv p"
  shows "finite (dom (handle_to_thread p))"
    and "h \<in> set (waiting p) \<Longrightarrow> handle_to_thread p h = None"
    and "handle_to_thread p h = Some pc \<Longrightarrow>
      \<exists>st. handle_to_status p h = Some st \<and> (final_pc pc \<longleftrightarrow> st \<noteq> RUNNING)"
    and "h \<in> set (finished p) \<Longrightarrow> handle_to_thread p h = Some Exited"
  using assms by (auto simp: pool_inv_def life_def)

text \<open>Only starting and joining a thread change the set of task threads.\<close>

lemma exec_threads:
  assumes "exec a p = Some p'" and "a \<noteq> StartThread" and "a \<noteq> Finalize"
  shows "dom (handle_to_thread p') = dom (handle_to_thread p)"
  using assms
  by (cases a) (auto simp: Let_def split: if_splits option.splits outcome.splits run_pc.splits)

lemma exec_StartThread:
  assumes "pool_inv p" and "exec StartThread p = Some p'" and "\<not> should_close p"
  obtains h where "dispatcher p = D_Start h" and "handle_to_thread p h = None"
    and "p' = p\<lparr>handle_to_thread := (handle_to_thread p)(h \<mapsto> Setting_Up), dispatcher := D_Wait\<rparr>"
proof -
  obtain h where h: "dispatcher p = D_Start h"
      "p' = p\<lparr>handle_to_thread := (handle_to_thread p)(h \<mapsto> Setting_Up), dispatcher := D_Wait\<rparr>"
    using assms(2,3) by (auto split: dispatcher_pc.splits)
  moreover have "h \<noteq> 0" using assms(1,3) h(1) by (auto simp: pool_inv_def in_hand_def)
  ultimately show ?thesis
    using that pool_invD(2) [OF assms(1), of h] by (simp add: waiting_def in_hand_def)
qed

definition slots :: "pool \<Rightarrow> nat" where
  "slots p = card (dom (handle_to_thread p)) + (if dispatcher p = D_Wait then 0 else 1)"

definition size_inv :: "pool \<Rightarrow> bool" where
  "size_inv p \<longleftrightarrow>
     pool_size p = of_nat (slots p) \<and>
     (dispatcher p = D_Exited \<longrightarrow> should_close p) \<and>
     (max_pool_size p \<noteq> 0 \<longrightarrow>
        card (dom (handle_to_thread p)) \<le> unat (max_pool_size p) \<and>
        (\<not> should_close p \<longrightarrow> slots p \<le> unat (max_pool_size p)))"

lemma size_inv_init: "size_inv (new_pool n)"
  by (simp add: size_inv_def slots_def new_pool_def)

lemma exec_control:
  assumes "exec a p = Some p'" and "a \<notin> {Reserve, TakeTask, StartThread, Finalize, CloseFlag}"
  shows "dispatcher p' = dispatcher p \<and> pool_size p' = pool_size p \<and>
    max_pool_size p' = max_pool_size p \<and> should_close p' = should_close p"
  using assms
  by (cases a) (auto simp: Let_def split: if_splits option.splits outcome.splits run_pc.splits)

lemma size_inv_Reserve:
  assumes "size_inv p" and "exec Reserve p = Some p'"
  shows "size_inv p'"
proof -
  let ?c = "card (dom (handle_to_thread p))"
  have d: "dispatcher p = D_Wait"
    and p': "p' = p\<lparr>pool_size := pool_size p + 1, dispatcher := D_Pop\<rparr>"
    and guard: "max_pool_size p \<noteq> 0 \<Longrightarrow> \<not> should_close p \<Longrightarrow> pool_size p < max_pool_size p"
    using assms(2) by (auto split: if_splits)
  have size: "pool_size p = of_nat ?c" using assms(1) d by (simp add: size_inv_def slots_def)
  have "max_pool_size p \<noteq> 0 \<Longrightarrow> \<not> should_close p \<Longrightarrow> ?c < unat (max_pool_size p)"
  proof -
    assume m: "max_pool_size p \<noteq> 0" "\<not> should_close p"
    then have "?c \<le> unat (max_pool_size p)" using assms(1) by (simp add: size_inv_def)
    then have "unat (of_nat ?c :: u32) = ?c"
      using unat_lt_u32 [of "max_pool_size p"] by simp
    then show "?c < unat (max_pool_size p)"
      using guard [OF m] size by (simp add: word_less_nat_alt)
  qed
  then show ?thesis
    using assms(1) d size by (auto simp: size_inv_def slots_def p')
qed

lemma size_inv_StartThread:
  assumes "pool_inv p" and "size_inv p" and "exec StartThread p = Some p'"
  shows "size_inv p'"
proof (cases "should_close p")
  case True
  then show ?thesis
    using assms(2,3) by (auto simp: size_inv_def slots_def split: dispatcher_pc.splits)
next
  case False
  from exec_StartThread [OF assms(1,3) False] obtain h where h: "dispatcher p = D_Start h"
      "handle_to_thread p h = None"
      "p' = p\<lparr>handle_to_thread := (handle_to_thread p)(h \<mapsto> Setting_Up), dispatcher := D_Wait\<rparr>"
    by blast
  then have "h \<notin> dom (handle_to_thread p)" by auto
  then show ?thesis
    using assms(2) False h pool_invD(1) [OF assms(1)] by (auto simp: size_inv_def slots_def)
qed

lemma size_inv_Finalize:
  assumes "pool_inv p" and "size_inv p" and "exec Finalize p = Some p'"
  shows "size_inv p'"
proof (cases "should_close p")
  case True
  then show ?thesis
    using assms(2,3) by (auto simp: size_inv_def slots_def split: joiner_pc.splits)
next
  case False
  then obtain h where h: "joiner p = J_Finalize h" "handle_to_thread p h = Some Exited"
      "p' = p\<lparr>handle_to_task := handle_to_task p - {h},
          handle_to_thread := (handle_to_thread p)(h := None),
          cancelled_tasks := cancelled_tasks p - {h},
          pool_size := pool_size p - 1, joiner := J_Pop\<rparr>"
    using assms(3) by (auto split: joiner_pc.splits if_splits)
  have "card (dom (handle_to_thread p)) = Suc (card (dom (handle_to_thread p) - {h}))"
    using h(2) pool_invD(1) [OF assms(1)] by (metis card.remove domI)
  then show ?thesis
    using assms(2) h by (auto simp: size_inv_def slots_def)
qed

lemma size_inv_step:
  assumes "pool_inv p" and "size_inv p" and "exec a p = Some p'"
  shows "size_inv p'"
proof -
  consider "a = Reserve" | "a = StartThread" | "a = Finalize" | "a = TakeTask" | "a = CloseFlag"
    | "a \<notin> {Reserve, TakeTask, StartThread, Finalize, CloseFlag}"
    by auto
  then show ?thesis
  proof cases
    case 1
    then show ?thesis using assms size_inv_Reserve by blast
  next
    case 2
    then show ?thesis using assms size_inv_StartThread by blast
  next
    case 3
    then show ?thesis using assms size_inv_Finalize by blast
  next
    case 4
    then show ?thesis
      using assms(2,3) by (auto simp: size_inv_def slots_def split: if_splits outcome.splits)
  next
    case 5
    then show ?thesis using assms(2,3) by (auto simp: size_inv_def slots_def split: if_splits)
  next
    case 6
    then have "dom (handle_to_thread p') = dom (handle_to_thread p)"
      using exec_threads [OF assms(3)] by auto
    then show ?thesis
      using exec_control [OF assms(3) 6] assms(2) by (auto simp: size_inv_def slots_def)
  qed
qed

lemma run_size_inv:
  assumes "run as (new_pool n) = Some p"
  shows "pool_inv p \<and> size_inv p"
  using run_invariant [where P = "\<lambda>p. pool_inv p \<and> size_inv p", OF _ assms]
    pool_inv_step size_inv_step pool_inv_init size_inv_init by blast

lemma exec_max_pool_size: "exec a p = Some p' \<Longrightarrow> max_pool_size p' = max_pool_size p"
  by (cases a)
    (auto simp: Let_def split: if_splits option.splits outcome.splits run_pc.splits
      dispatcher_pc.splits joiner_pc.splits)

lemma run_max_pool_size: "run as p = Some p' \<Longrightarrow> max_pool_size p' = max_pool_size p"
  by (induction as arbitrary: p) (auto split: option.splits dest: exec_max_pool_size)

section \<open>Final statuses and cancellation\<close>

lemma exec_final_status:
  assumes "pool_inv p" and "exec a p = Some p'"
    and "handle_to_status p h = Some st" and "st \<noteq> RUNNING"
  shows "handle_to_status p' h = Some st"
proof (cases "\<exists>h'. a = Update h'")
  case True
  then obtain h' where a: "a = Update h'" by blast
  then obtain st' where "handle_to_thread p h' = Some (Updating st')"
    using assms(2) by (auto split: option.splits run_pc.splits)
  then have "h' \<noteq> h" using pool_invD(3) [OF assms(1)] assms(3,4) by fastforce
  then show ?thesis
    using assms(2,3) a by (auto simp: Let_def split: option.splits run_pc.splits)
next
  case False
  then show ?thesis
    using assms(2,3)
    by (cases a) (auto split: if_splits option.splits outcome.splits dispatcher_pc.splits
        joiner_pc.splits)
qed

text \<open>
  A task that is cancelled or has a final status and is not in the middle of an iteration:
  it stays so, and no iteration of it can begin.
\<close>

definition retired :: "handle \<Rightarrow> pool \<Rightarrow> bool" where
  "retired h p \<longleftrightarrow>
     handle_to_thread p h \<noteq> Some Running \<and>
     (h \<in> cancelled_tasks p \<or> (\<exists>st. handle_to_status p h = Some st \<and> st \<noteq> RUNNING))"

lemma final_status_not_running:
  "pool_inv p \<Longrightarrow> handle_to_status p h = Some st \<Longrightarrow> st \<noteq> RUNNING \<Longrightarrow>
   handle_to_thread p h \<noteq> Some Running"
  using pool_invD(3) by fastforce

lemma exec_retired:
  assumes "pool_inv p" and "retired h p" and "exec a p = Some p'"
  shows "retired h p'"
proof (cases "\<exists>st. handle_to_status p h = Some st \<and> st \<noteq> RUNNING")
  case True
  then obtain st where "handle_to_status p' h = Some st" "st \<noteq> RUNNING"
    using exec_final_status [OF assms(1,3)] by blast
  then show ?thesis
    using final_status_not_running [OF pool_inv_step [OF assms(1,3)]] by (auto simp: retired_def)
next
  case False
  then have c: "h \<in> cancelled_tasks p" "handle_to_thread p h \<noteq> Some Running"
    using assms(2) by (auto simp: retired_def)
  have "\<not> (joiner p = J_Finalize h \<and> handle_to_thread p h = Some Exited)"
    using pool_invD(3) [OF assms(1), of h Exited] False by auto
  then show ?thesis
    using assms(3) c
    by (cases a) (auto simp: retired_def Let_def split: if_splits option.splits outcome.splits
        dispatcher_pc.splits joiner_pc.splits run_pc.splits)
qed

lemma run_retired:
  "run bs p = Some p' \<Longrightarrow> pool_inv p \<Longrightarrow> retired h p \<Longrightarrow> Iterate h st \<notin> set bs"
proof (induction bs arbitrary: p)
  case Nil
  then show ?case by simp
next
  case (Cons b bs)
  then obtain p1 where p1: "exec b p = Some p1" "run bs p1 = Some p'" by (auto split: option.splits)
  then have "b \<noteq> Iterate h st" using Cons.prems(3) by (auto simp: retired_def)
  then show ?case
    using Cons p1 pool_inv_step [OF Cons.prems(2) p1(1)] exec_retired [OF Cons.prems(2,3) p1(1)]
    by auto
qed

section \<open>Properties\<close>

text \<open>A run in which one task is added, started, finishes and is joined, for the witnesses.\<close>

definition started_run :: "pool_action list" where
  "started_run = [Add 1, Enqueue 1, Reserve, TakeTask, StartThread]"

definition finished_run :: "pool_action list" where
  "finished_run = started_run @ [SetUp 1 RUNNING, Update 1, Iterate 1 DONE, Update 1]"

lemma run_started:
  "run started_run (new_pool 1) = Some (the (run started_run (new_pool 1)))"
  "handle_to_status (the (run started_run (new_pool 1))) 1 = Some RUNNING"
  "\<not> should_close (the (run started_run (new_pool 1)))"
  by (simp_all add: started_run_def new_pool_def new_queue_def Pop_def PopTimed_def)

lemma run_finished:
  "run finished_run (new_pool 1) = Some (the (run finished_run (new_pool 1)))"
  "handle_to_status (the (run finished_run (new_pool 1))) 1 = Some DONE"
  by (simp_all add: finished_run_def started_run_def new_pool_def new_queue_def Pop_def
      PopTimed_def)

text \<open>
  C6. A pool with a limit never has more task threads than that, in any interleaving of the
  clients, the dispatcher, the joiner and the tasks, closing the pool included.
\<close>

theorem pool_thread_limit:
  assumes "run as (new_pool n) = Some p" and "n \<noteq> 0"
  shows "card (dom (handle_to_thread p)) \<le> unat n"
  using run_size_inv [OF assms(1)] run_max_pool_size [OF assms(1)] assms(2)
  by (simp add: size_inv_def new_pool_def)

theorem pool_thread_limit_witness:
  "card (dom (handle_to_thread (the (run started_run (new_pool 1))))) \<le> unat (1::u32)"
  by (rule pool_thread_limit [OF run_started(1)]) simp

text \<open>
  C5. No task is lost: as long as the pool is not being closed, a task whose status is
  \<open>RUNNING\<close> is being added, waits for a thread, or has a thread that has not finished it.
\<close>

theorem pool_no_task_lost:
  assumes "run as (new_pool n) = Some p" and "\<not> should_close p"
    and "handle_to_status p h = Some RUNNING"
  shows "h \<in> adding p \<or> h \<in> set (waiting p) \<or>
    (\<exists>pc. handle_to_thread p h = Some pc \<and> \<not> final_pc pc)"
proof -
  have inv: "pool_inv p" by (rule run_pool_inv [OF assms(1)])
  then have "h \<in> adding p \<or> h \<in> set (waiting p) \<or> handle_to_thread p h \<noteq> None"
    using assms(2,3) by (auto simp: pool_inv_def life_def)
  then show ?thesis using pool_invD(3) [OF inv] assms(3) by fastforce
qed

theorem pool_no_task_lost_witness:
  "let p = the (run started_run (new_pool 1))
   in 1 \<in> adding p \<or> 1 \<in> set (waiting p) \<or>
      (\<exists>pc. handle_to_thread p 1 = Some pc \<and> \<not> final_pc pc)"
  unfolding Let_def
  by (rule pool_no_task_lost [OF run_started(1) run_started(3) run_started(2)])

text \<open>
  Progress: as long as the pool is not being closed, a task that waits while a thread
  is free can be moved on by the dispatcher.
\<close>

theorem pool_dispatch_progress:
  assumes "run as (new_pool n) = Some p" and "\<not> should_close p" and "waiting p \<noteq> []"
    and "n = 0 \<or> card (dom (handle_to_thread p)) < unat n"
  shows "\<exists>a\<in>{Reserve, TakeTask, StartThread}. exec a p \<noteq> None"
proof (cases "dispatcher p")
  case D_Wait
  have inv: "size_inv p" and m: "max_pool_size p = n"
    using run_size_inv [OF assms(1)] run_max_pool_size [OF assms(1)] by (auto simp: new_pool_def)
  have "n \<noteq> 0 \<Longrightarrow> pool_size p < n"
    using inv D_Wait assms(4) unat_lt_u32 [of n]
    by (simp add: size_inv_def slots_def word_less_nat_alt)
  then show ?thesis using D_Wait m assms(2) by (auto simp: not_le)
next
  case D_Pop
  then obtain h hs where "queue (dispatch_queue p) = h # hs"
    using assms(3) by (cases "queue (dispatch_queue p)") (auto simp: waiting_def in_hand_def)
  then show ?thesis using D_Pop by (simp add: Pop_def PopTimed_def)
next
  case (D_Start h)
  then show ?thesis by simp
next
  case D_Exited
  then show ?thesis using run_size_inv [OF assms(1)] assms(2) by (simp add: size_inv_def)
qed

theorem pool_dispatch_progress_witness:
  "\<exists>a\<in>{Reserve, TakeTask, StartThread}.
     exec a (the (run [Add 1, Enqueue 1] (new_pool 1))) \<noteq> None"
  by (rule pool_dispatch_progress [of "[Add 1, Enqueue 1]" 1])
    (simp_all add: new_pool_def new_queue_def waiting_def in_hand_def)

text \<open>
  A status other than \<open>RUNNING\<close> is final: no later step of any thread changes it, the
  bookkeeping of the joiner and the destructor included.
\<close>

theorem pool_status_final:
  assumes "run as (new_pool n) = Some p" and "handle_to_status p h = Some st"
    and "st \<noteq> RUNNING" and "run bs p = Some p'"
  shows "handle_to_status p' h = Some st"
proof -
  let ?P = "\<lambda>p. pool_inv p \<and> handle_to_status p h = Some st"
  have "?P p'"
    by (rule run_invariant [where P = ?P, OF _ assms(4)])
      (use pool_inv_step exec_final_status assms(3) run_pool_inv [OF assms(1)] assms(2) in blast)+
  then show ?thesis by simp
qed

theorem pool_status_final_witness:
  "handle_to_status (the (run [Cancel 1, CleanUp 1] (the (run finished_run (new_pool 1))))) 1
   = Some DONE"
  by (rule pool_status_final [OF run_finished, where bs = "[Cancel 1, CleanUp 1]"])
    (simp_all add: finished_run_def started_run_def new_pool_def new_queue_def Pop_def PopTimed_def)

text \<open>
  C31. Cancellation takes effect at the next check: once a task is cancelled and not in the
  middle of \<open>RunAtomic()\<close>, \<open>RunAtomic()\<close> is never called on it again, whatever happens.
\<close>

theorem pool_cancel_stops:
  assumes "run as (new_pool n) = Some p" and "h \<in> cancelled_tasks p"
    and "handle_to_thread p h \<noteq> Some Running" and "run bs p = Some p'"
  shows "Iterate h st \<notin> set bs"
  using run_retired [OF assms(4) run_pool_inv [OF assms(1)]] assms(2,3)
  by (simp add: retired_def)

theorem pool_cancel_stops_witness:
  "Iterate 1 DONE \<notin> set [SetUp 1 RUNNING, Update 1, CleanUp 1]"
  by (rule pool_cancel_stops [of "started_run @ [Cancel 1]" 1
        "the (run (started_run @ [Cancel 1]) (new_pool 1))" 1 _
        "the (run (started_run @ [Cancel 1] @ [SetUp 1 RUNNING, Update 1, CleanUp 1]) (new_pool 1))"])
    (simp_all add: started_run_def new_pool_def new_queue_def Pop_def PopTimed_def)

text \<open>
  The joiner joins threads while it holds the pool's lock, and this cannot deadlock: the
  thread it waits for has already left its last critical section.
\<close>

theorem pool_join_never_blocks:
  assumes "run as (new_pool n) = Some p" and "joiner p = J_Finalize h"
  shows "exec Finalize p \<noteq> None"
proof (cases "should_close p")
  case False
  have inv: "pool_inv p" by (rule run_pool_inv [OF assms(1)])
  then have "h \<noteq> 0" using False assms(2) by (auto simp: pool_inv_def)
  then have "h \<in> set (finished p)" using assms(2) by (simp add: finished_def)
  then show ?thesis using pool_invD(4) [OF inv] assms(2) False by simp
qed (simp add: assms(2))

definition joinable_run :: "pool_action list" where
  "joinable_run = finished_run @ [CleanUp 1, Count 1, Notify 1, TakeFinished]"

theorem pool_join_never_blocks_witness:
  "exec Finalize (the (run joinable_run (new_pool 1))) \<noteq> None"
  by (rule pool_join_never_blocks [of joinable_run 1 _ 1])
    (simp_all add: joinable_run_def finished_run_def started_run_def new_pool_def new_queue_def
      Pop_def PopTimed_def)

text \<open>A pool whose dispatcher has reserved a thread and to which no task was ever added.\<close>

definition idle :: "pool \<Rightarrow> bool" where
  "idle p \<longleftrightarrow>
     dispatcher p = D_Pop \<and> queue (dispatch_queue p) = [] \<and> queue (joinable_queue p) = [] \<and>
     handle_to_thread p = Map.empty \<and> adding p = {} \<and> joiner p = J_Pop \<and> \<not> should_close p \<and>
     pool_size p = 1 \<and> num_completed_tasks p = 0"

lemma idle_step:
  assumes "idle p" and "exec a p = Some p'" and "\<forall>h. a \<noteq> Add h" and "a \<noteq> CloseFlag"
  shows "idle p'"
  using assms by (cases a) (auto simp: idle_def Pop_def)

lemma idle_run:
  assumes "idle p" and "run as p = Some p'" and "\<forall>h. Add h \<notin> set as" and "CloseFlag \<notin> set as"
  shows "idle p'"
  using assms
proof (induction as arbitrary: p)
  case (Cons a as)
  from Cons.prems(2) obtain p1 where p1: "exec a p = Some p1" "run as p1 = Some p'"
    by (auto split: option.splits)
  have "\<forall>h. a \<noteq> Add h" "a \<noteq> CloseFlag" using Cons.prems(3,4) by auto
  from Cons.IH [OF idle_step [OF Cons.prems(1) p1(1) this] p1(2)] Cons.prems(3,4)
  show ?case by simp
qed simp

text \<open>
  The dispatcher reserves a thread before there is a task for it, and \<open>pool_size_\<close>
  counts the reservation. So once the dispatcher has taken its first step, a pool to which
  no task was ever added reports one thread, and \<open>WaitForCompletion()\<close>, documented to
  return at once when no tasks are running, waits for ever.
\<close>

theorem pool_idle_wait_blocks:
  assumes "run (Reserve # as) (new_pool n) = Some p"
    and "\<forall>h. Add h \<notin> set as" and "CloseFlag \<notin> set as"
  shows "NumThreads p = 1 \<and> \<not> completion_ready 0 p"
proof -
  let ?p0 = "(new_pool n)\<lparr>pool_size := 1, dispatcher := D_Pop\<rparr>"
  have "run as ?p0 = Some p"
    using assms(1) by (auto simp: new_pool_def split: if_splits)
  from idle_run [OF _ this assms(2,3)] have "idle p"
    by (simp add: idle_def new_pool_def new_queue_def)
  then show ?thesis by (simp add: idle_def NumThreads_def completion_ready_def)
qed

theorem pool_idle_wait_blocks_witness:
  "NumThreads (the (run [Reserve, Cancel 5] (new_pool 2))) = 1 \<and>
   \<not> completion_ready 0 (the (run [Reserve, Cancel 5] (new_pool 2)))"
  by (rule pool_idle_wait_blocks [of "[Cancel 5]" 2]) (simp_all add: new_pool_def)

end
