(* ===== verification/Pool_Shutdown.thy ===== *)
theory Pool_Shutdown
  imports Thread_Pool
begin

text \<open>
  The end of the destructor of \<open>ThreadPool\<close>: after it has set the flag and woken the internal
  threads (\<open>Close_flag\<close>, \<open>Close_wake\<close>) it joins the dispatcher, the joiner and every task
  thread. The theorem says that these joins return: the threads of a closing pool can take only
  finitely many more steps, whatever the tasks return, and as long as one of them has not exited
  some thread can take a step.
\<close>

section \<open>The joins\<close>

text \<open>The two internal threads first; then every thread that is left in the map.\<close>

definition Close_join_internal :: "pool \<Rightarrow> pool option" where
  "Close_join_internal p = (if dispatcher p = D_Exited \<and> joiner p = J_Exited then Some p else None)"

definition Close_join_tasks :: "pool \<Rightarrow> pool option" where
  "Close_join_tasks p = (if ran (handle_to_thread p) \<subseteq> {Exited} then Some p else None)"

definition Close_join :: "pool \<Rightarrow> pool option" where
  "Close_join p = (case Close_join_internal p of None \<Rightarrow> None | Some p' \<Rightarrow> Close_join_tasks p')"

text \<open>The steps of the threads of the pool, as opposed to those of its clients.\<close>

fun internal :: "pool_action \<Rightarrow> bool" where
  "internal (Add h) = False"
| "internal (Enqueue h) = False"
| "internal (Cancel h) = False"
| "internal CloseFlag = False"
| "internal CloseWake = False"
| "internal a = True"

section \<open>Every thread belongs to a task that can be cancelled\<close>

definition known_inv :: "pool \<Rightarrow> bool" where
  "known_inv p \<longleftrightarrow> dom (handle_to_thread p) \<union> adding p \<union> set (waiting p) \<subseteq> handle_to_task p"

lemma known_inv_step:
  assumes "pool_inv p" and "known_inv p" and "exec a p = Some p'" and "\<not> should_close p"
  shows "known_inv p'"
proof (cases "a = StartThread \<or> a = Finalize")
  case True
  then show ?thesis
  proof
    assume "a = StartThread"
    with exec_StartThread [OF assms(1) _ assms(4)] assms(3) obtain h where h: "dispatcher p = D_Start h"
        "p' = p\<lparr>handle_to_thread := (handle_to_thread p)(h \<mapsto> Setting_Up), dispatcher := D_Wait\<rparr>"
      by blast
    moreover have "h \<noteq> 0" using assms(1,4) h(1) by (auto simp: pool_inv_def in_hand_def)
    ultimately show ?thesis using assms(2) by (auto simp: known_inv_def waiting_def in_hand_def)
  next
    assume "a = Finalize"
    then obtain h where h: "handle_to_thread p h = Some Exited" "handle_to_task p' = handle_to_task p - {h}"
        "handle_to_thread p' = (handle_to_thread p)(h := None)" "adding p' = adding p" "waiting p' = waiting p"
      using assms(3,4) by (auto simp: waiting_def in_hand_def split: joiner_pc.splits if_splits)
    moreover have "h \<notin> adding p \<union> set (waiting p)"
      using assms(1) h(1) by (auto simp: pool_inv_def life_def)
    ultimately show ?thesis using assms(2) by (auto simp: known_inv_def)
  qed
next
  case False
  then have "dom (handle_to_thread p') = dom (handle_to_thread p)" using exec_threads assms(3) by blast
  moreover have "max_length (dispatch_queue p) = 0" using assms(1) by (simp add: pool_inv_def unbounded_def)
  ultimately show ?thesis
    using False assms(2,3)
    by (cases a) (auto simp: known_inv_def waiting_def in_hand_def Let_def subset_iff
        split: if_splits option.splits outcome.splits run_pc.splits dispatcher_pc.splits)
qed

section \<open>A closing pool\<close>

text \<open>No task thread will run again, and no new one is started.\<close>

definition closing :: "pool \<Rightarrow> bool" where
  "closing p \<longleftrightarrow> should_close p \<and> dom (handle_to_thread p) \<subseteq> cancelled_tasks p"

lemma closing_step:
  assumes "closing p" and "exec a p = Some p'"
  shows "closing p'"
proof (cases "a = StartThread \<or> a = Finalize")
  case True
  then have "handle_to_thread p' = handle_to_thread p" "cancelled_tasks p' = cancelled_tasks p" "should_close p'"
    using assms by (auto simp: closing_def split: dispatcher_pc.splits joiner_pc.splits)
  then show ?thesis using assms(1) by (simp add: closing_def)
next
  case False
  then have "dom (handle_to_thread p') = dom (handle_to_thread p)" using exec_threads assms(2) by blast
  moreover have "cancelled_tasks p \<subseteq> cancelled_tasks p'" "should_close p'"
    using assms False
    by (cases a; auto simp: closing_def Let_def
        split: if_splits option.splits outcome.splits run_pc.splits dispatcher_pc.splits)+
  ultimately show ?thesis using assms(1) by (auto simp: closing_def)
qed

text \<open>From the flag on the pool is closing; before it, every thread belongs to a known task.\<close>

lemma run_closing:
  assumes "run as (new_pool n) = Some p"
  shows "if should_close p then closing p else known_inv p"
proof -
  let ?P = "\<lambda>p. pool_inv p \<and> (if should_close p then closing p else known_inv p)"
  have step: "?P p'" if P: "?P p" and e: "exec a p = Some p'" for a p p'
  proof (cases "should_close p")
    case True
    then have c: "closing p'" using P closing_step [OF _ e] by auto
    then have "should_close p'" by (simp add: closing_def)
    then show ?thesis using c pool_inv_step [OF _ e] P by simp
  next
    case False
    then have k: "known_inv p'" using known_inv_step [OF _ _ e] P by simp
    have "closing p'" if "should_close p'"
    proof -
      have "a = CloseFlag"
        using exec_control [OF e] False that e
        by (cases "a \<in> {Reserve, TakeTask, StartThread, Finalize, CloseFlag}")
          (auto split: if_splits outcome.splits dispatcher_pc.splits joiner_pc.splits)
      then have "p' = p\<lparr>cancelled_tasks := cancelled_tasks p \<union> handle_to_task p, should_close := True\<rparr>"
        using e False by simp
      then show ?thesis using P False by (auto simp: closing_def known_inv_def)
    qed
    then show ?thesis using k pool_inv_step [OF _ e] P by auto
  qed
  have "?P (new_pool n)" using pool_inv_init by (simp add: known_inv_def new_pool_def waiting_def in_hand_def new_queue_def)
  then have "?P p" by (intro run_invariant [where P = ?P, OF _ assms]) (rule step)
  then show ?thesis ..
qed

text \<open>After the wake-up neither internal thread can be left waiting for its queue.\<close>

definition awake :: "pool \<Rightarrow> bool" where
  "awake p \<longleftrightarrow>
     (dispatcher p \<in> {D_Wait, D_Pop} \<longrightarrow> queue (dispatch_queue p) \<noteq> []) \<and>
     (joiner p = J_Pop \<longrightarrow> queue (joinable_queue p) \<noteq> [])"

lemma awake_step:
  assumes "awake p" and "should_close p" and "pool_inv p" and "exec a p = Some p'"
  shows "awake p'"
  using assms
  by (cases a) (auto simp: awake_def pool_inv_def unbounded_def Let_def
      split: if_splits option.splits outcome.splits run_pc.splits dispatcher_pc.splits joiner_pc.splits)

section \<open>The number of steps left\<close>

fun steps_left :: "run_pc option \<Rightarrow> nat" where
  "steps_left None = 0"
| "steps_left (Some Exited) = 0"
| "steps_left (Some Notifying) = 1"
| "steps_left (Some Counting) = 2"
| "steps_left (Some Cleaning_Up) = 3"
| "steps_left (Some (Updating st)) = 4"
| "steps_left (Some Running) = 5"
| "steps_left (Some Setting_Up) = 5"

definition work :: "pool \<Rightarrow> nat" where
  "work p =
     (case dispatcher p of D_Wait \<Rightarrow> 3 | D_Pop \<Rightarrow> 2 | D_Start h \<Rightarrow> 1 | D_Exited \<Rightarrow> 0) +
     (case joiner p of J_Pop \<Rightarrow> 2 | J_Finalize h \<Rightarrow> 1 | J_Exited \<Rightarrow> 0) +
     (\<Sum>h\<in>UNIV. steps_left (handle_to_thread p h))"

lemma work_thread:
  assumes "handle_to_thread p h = Some pc" and "steps_left (Some pc') < steps_left (Some pc)"
  shows "(\<Sum>g\<in>UNIV. steps_left (((handle_to_thread p)(h \<mapsto> pc')) g)) < (\<Sum>g\<in>UNIV. steps_left (handle_to_thread p g))"
  using assms by (intro sum_strict_mono_ex1) auto

lemma thread_step:
  assumes "closing p" and "exec a p = Some p'" and "internal a"
    and "a \<notin> {Reserve, TakeTask, StartThread, TakeFinished, Finalize}"
  obtains h pc pc' where "handle_to_thread p h = Some pc" "handle_to_thread p' = (handle_to_thread p)(h \<mapsto> pc')"
    "steps_left (Some pc') < steps_left (Some pc)" "dispatcher p' = dispatcher p" "joiner p' = joiner p"
proof -
  have c: "handle_to_thread p h = Some pc \<Longrightarrow> h \<in> cancelled_tasks p" for h pc
    using assms(1) by (auto simp: closing_def)
  show ?thesis
  proof (cases a)
    case (Update h)
    then show ?thesis
      using assms(2) c [of h] that [of h] by (auto simp: Let_def split: option.splits run_pc.splits)
  next
    case (Notify h)
    then show ?thesis
      using assms(2) that [of h] by (auto split: if_splits outcome.splits)
  qed (use assms that in \<open>auto split: if_splits\<close>)
qed

lemma work_decreases:
  assumes "closing p" and "exec a p = Some p'" and "internal a"
  shows "work p' < work p"
proof (cases "a \<in> {Reserve, TakeTask, StartThread, TakeFinished, Finalize}")
  case True
  have "should_close p" using assms(1) by (simp add: closing_def)
  then show ?thesis
    using True assms(2)
    by (auto simp: work_def split: if_splits outcome.splits dispatcher_pc.splits joiner_pc.splits)
next
  case False
  from thread_step [OF assms False] obtain h pc pc' where h: "handle_to_thread p h = Some pc"
      "handle_to_thread p' = (handle_to_thread p)(h \<mapsto> pc')" "steps_left (Some pc') < steps_left (Some pc)"
      "dispatcher p' = dispatcher p" "joiner p' = joiner p"
    by blast
  then show ?thesis using work_thread [OF h(1,3)] by (simp add: work_def)
qed

lemma run_work:
  assumes "run cs p = Some q" and "\<forall>a\<in>set cs. internal a" and "closing p"
  shows "closing q \<and> length cs + work q \<le> work p"
  using assms
proof (induction cs arbitrary: p)
  case (Cons a cs)
  obtain p1 where p1: "exec a p = Some p1" "run cs p1 = Some q" using Cons.prems(1) by (auto split: option.splits)
  then have "closing q \<and> length cs + work q \<le> work p1"
    using Cons.IH Cons.prems(2,3) closing_step by simp
  moreover have "work p1 < work p" using work_decreases [OF Cons.prems(3) p1(1)] Cons.prems(2) by simp
  ultimately show ?case by simp
qed simp

lemma run_awake:
  "run cs p = Some q \<Longrightarrow> awake p \<Longrightarrow> closing p \<Longrightarrow> pool_inv p \<Longrightarrow> awake q"
proof (induction cs arbitrary: p)
  case (Cons a cs)
  then obtain p1 where p1: "exec a p = Some p1" "run cs p1 = Some q" by (auto split: option.splits)
  then show ?case
    using Cons.IH [OF p1(2)] awake_step [OF Cons.prems(2) _ Cons.prems(4) p1(1)]
      closing_step [OF Cons.prems(3) p1(1)] pool_inv_step [OF Cons.prems(4) p1(1)] Cons.prems(3)
    by (simp add: closing_def)
qed simp

text \<open>A thread that has not exited can go on.\<close>

lemma thread_enabled:
  assumes "pool_inv p" and "handle_to_thread p h = Some pc" and "pc \<noteq> Exited"
  shows "\<exists>a. internal a \<and> exec a p \<noteq> None"
proof -
  have "\<exists>a\<in>{SetUp h RUNNING, Update h, Iterate h RUNNING, CleanUp h, Count h, Notify h}. exec a p \<noteq> None"
    using assms by (cases pc) (auto simp: pool_inv_def unbounded_def Let_def)
  then obtain a where a: "a \<in> {SetUp h RUNNING, Update h, Iterate h RUNNING, CleanUp h, Count h, Notify h}" "exec a p \<noteq> None" ..
  then have "internal a" by auto
  then show ?thesis using a(2) by blast
qed

lemma closing_progress:
  assumes "pool_inv p" and "closing p" and "awake p" and "Close_join p = None"
  shows "\<exists>a. internal a \<and> exec a p \<noteq> None"
proof -
  have close: "should_close p" using assms(2) by (simp add: closing_def)
  consider "dispatcher p \<noteq> D_Exited" | "joiner p \<noteq> J_Exited"
    | h pc where "handle_to_thread p h = Some pc" "pc \<noteq> Exited"
    using assms(4) by (auto simp: Close_join_def Close_join_internal_def Close_join_tasks_def ran_def split: if_splits)
  then show ?thesis
  proof cases
    case 1
    then have "\<exists>a\<in>{Reserve, TakeTask, StartThread}. exec a p \<noteq> None"
      using close assms(3) by (cases "dispatcher p"; cases "queue (dispatch_queue p)") (auto simp: awake_def Pop_def)
    then obtain a where a: "a \<in> {Reserve, TakeTask, StartThread}" "exec a p \<noteq> None" ..
    then have "internal a" by auto
    then show ?thesis using a(2) by blast
  next
    case 2
    then have "\<exists>a\<in>{TakeFinished, Finalize}. exec a p \<noteq> None"
      using close assms(3) by (cases "joiner p"; cases "queue (joinable_queue p)") (auto simp: awake_def Pop_def)
    then obtain a where a: "a \<in> {TakeFinished, Finalize}" "exec a p \<noteq> None" ..
    then have "internal a" by auto
    then show ?thesis using a(2) by blast
  next
    case 3
    then show ?thesis using thread_enabled [OF assms(1)] by blast
  qed
qed

text \<open>
  C20. The destructor of the thread pool returns. Take any state that the pool can reach, in any
  interleaving, in which the destructor sets its flag; let the threads go on for any number of
  steps before it wakes the dispatcher and the joiner. From then on the threads of the pool can
  take only a bounded number of steps, whatever the tasks return, and as long as the joins of
  the destructor still wait for a thread, some thread can take a step.
\<close>

theorem pool_destructor_returns:
  assumes "run as (new_pool n) = Some p" and "exec CloseFlag p = Some p1" and "run bs p1 = Some p2"
    and "exec CloseWake p2 = Some p3" and "run cs p3 = Some q" and "\<forall>a\<in>set cs. internal a"
  shows "length cs \<le> work p3 \<and> (Close_join q = None \<longrightarrow> (\<exists>a. internal a \<and> exec a q \<noteq> None))"
proof -
  have r: "run (as @ CloseFlag # bs @ CloseWake # ds) (new_pool n) = run ds p3" for ds
    using assms(1-4) by (simp add: run_append)
  have p3: "run (as @ CloseFlag # bs @ CloseWake # []) (new_pool n) = Some p3"
    and q: "run (as @ CloseFlag # bs @ CloseWake # cs) (new_pool n) = Some q"
    using assms(5) by (simp_all add: r)
  have close: "should_close p3" using assms(4) by (auto split: if_splits outcome.splits)
  then have c: "closing p3" using run_closing [OF p3] by simp
  have inv: "pool_inv p3" "pool_inv q" using run_pool_inv p3 q by blast+
  have "run (as @ CloseFlag # bs) (new_pool n) = Some p2" using assms(1-3) by (simp add: run_append)
  then have "unbounded p2" using run_pool_inv by (simp add: pool_inv_def)
  then have "awake p3" using assms(4) by (auto simp: awake_def unbounded_def split: if_splits)
  then have "awake q" using run_awake [OF assms(5) _ c inv(1)] by simp
  then show ?thesis
    using run_work [OF assms(5,6) c] closing_progress [OF inv(2)] by auto
qed

theorem pool_destructor_returns_witness:
  "\<exists>p p1 p2 p3 q. run started_run (new_pool 1) = Some p \<and> exec CloseFlag p = Some p1 \<and>
     run [SetUp 1 RUNNING] p1 = Some p2 \<and> exec CloseWake p2 = Some p3 \<and> run [Update 1] p3 = Some q \<and>
     1 \<le> work p3 \<and> (Close_join q = None \<longrightarrow> (\<exists>a. internal a \<and> exec a q \<noteq> None))"
proof -
  have "\<exists>p p1 p2 p3 q. run started_run (new_pool 1) = Some p \<and> exec CloseFlag p = Some p1 \<and>
     run [SetUp 1 RUNNING] p1 = Some p2 \<and> exec CloseWake p2 = Some p3 \<and> run [Update 1] p3 = Some q"
    by (simp add: started_run_def new_pool_def new_queue_def Pop_def PopTimed_def)
  then obtain p p1 p2 p3 q where e: "run started_run (new_pool 1) = Some p" "exec CloseFlag p = Some p1"
      "run [SetUp 1 RUNNING] p1 = Some p2" "exec CloseWake p2 = Some p3" "run [Update 1] p3 = Some q"
    by blast
  show ?thesis using pool_destructor_returns [OF e] e by (simp del: exec.simps run.simps)
qed

end
