(* ===== verification/Pool_Contract.thy ===== *)
theory Pool_Contract
  imports Thread_Pool
begin

text \<open>
  What the thread pool promises to the authors of tasks. A task is an object of a subclass of \<open>Task\<close>
  (\<open>task.h\<close>) with the methods \<open>SetUp\<close>, \<open>RunAtomic\<close> and \<open>CleanUp\<close>; the pool calls them from the thread
  of the task. The specification is an automaton over these calls and their results, \<open>call_step\<close>, for
  one task. The lemmas show that the pool with all its threads simulates it for every task: \<open>agrees\<close>
  is the simulation relation.
\<close>

section \<open>The protocol of a task\<close>

datatype task_call = Call_SetUp status | Call_RunAtomic status | Call_CleanUp

datatype phase = Unstarted | After status | Over status

fun call_step :: "task_call \<Rightarrow> phase \<Rightarrow> phase option" where
  "call_step (Call_SetUp st) Unstarted = Some (After st)"
| "call_step (Call_RunAtomic st) (After RUNNING) = Some (After st)"
| "call_step Call_CleanUp (After st) = Some (Over st)"
| "call_step _ _ = None"

fun call_steps :: "task_call list \<Rightarrow> phase \<Rightarrow> phase option" where
  "call_steps [] ph = Some ph"
| "call_steps (c # cs) ph = (case call_step c ph of None \<Rightarrow> None | Some ph' \<Rightarrow> call_steps cs ph')"

text \<open>The calls that a run of the pool makes on the task with handle \<open>h\<close>.\<close>

fun call_of :: "handle \<Rightarrow> pool_action \<Rightarrow> task_call list" where
  "call_of h (SetUp h' st) = (if h' = h then [Call_SetUp st] else [])"
| "call_of h (Iterate h' st) = (if h' = h then [Call_RunAtomic st] else [])"
| "call_of h (CleanUp h') = (if h' = h then [Call_CleanUp] else [])"
| "call_of h _ = []"

definition calls :: "handle \<Rightarrow> pool_action list \<Rightarrow> task_call list" where
  "calls h as = concat (map (call_of h) as)"

lemma calls_simps [simp]: "calls h [] = []" "calls h (a # as) = call_of h a @ calls h as"
  by (simp_all add: calls_def)

lemma call_steps_append:
  "call_steps (cs @ ds) ph = (case call_steps cs ph of None \<Rightarrow> None | Some ph' \<Rightarrow> call_steps ds ph')"
  by (induction cs arbitrary: ph) (auto split: option.splits)

section \<open>Simulation\<close>

text \<open>
  The phase of a task against its thread and its published status. The status is final as soon as
  the pool has seen the task's last result, or the cancellation.
\<close>

fun agrees :: "phase \<Rightarrow> run_pc option \<Rightarrow> status option \<Rightarrow> bool" where
  "agrees Unstarted pc s \<longleftrightarrow> pc = None \<and> s = None \<or> (pc = None \<or> pc = Some Setting_Up) \<and> s = Some RUNNING"
| "agrees (After st) pc s \<longleftrightarrow>
     pc = Some (Updating st) \<and> s = Some RUNNING \<or>
     pc = Some Running \<and> st = RUNNING \<and> s = Some RUNNING \<or>
     pc = Some Cleaning_Up \<and> s \<noteq> Some RUNNING \<and> (s = Some st \<or> s = Some CANCELLED)"
| "agrees (Over st) pc s \<longleftrightarrow>
     (pc = None \<or> pc = Some Counting \<or> pc = Some Notifying \<or> pc = Some Exited) \<and>
     s \<noteq> Some RUNNING \<and> (s = Some st \<or> s = Some CANCELLED)"

lemma waiting_agrees:
  assumes "pool_inv p" and "agrees ph (handle_to_thread p h) (handle_to_status p h)" and "h \<in> set (waiting p)"
  shows "ph = Unstarted" and "handle_to_status p h = Some RUNNING"
  using assms by (cases ph; auto simp: pool_inv_def life_def)+

lemma StartThread_agrees:
  assumes "pool_inv p" and "agrees ph (handle_to_thread p h) (handle_to_status p h)" and "exec StartThread p = Some p'"
  shows "agrees ph (handle_to_thread p' h) (handle_to_status p' h)"
proof (cases "should_close p")
  case True
  then show ?thesis using assms(2,3) by (auto split: dispatcher_pc.splits)
next
  case False
  from exec_StartThread [OF assms(1,3) False] obtain g where g: "dispatcher p = D_Start g"
      "p' = p\<lparr>handle_to_thread := (handle_to_thread p)(g \<mapsto> Setting_Up), dispatcher := D_Wait\<rparr>"
    by blast
  have "g \<noteq> 0" using assms(1) False g(1) by (auto simp: pool_inv_def in_hand_def)
  then have "g \<in> set (waiting p)" using g(1) by (simp add: waiting_def in_hand_def)
  then show ?thesis
    using assms(1,2) g(2) waiting_agrees [OF assms(1), of ph g] by (cases "h = g") auto
qed

text \<open>The actions that touch neither a task's thread nor its status.\<close>

fun touches :: "pool_action \<Rightarrow> bool" where
  "touches (Add h) \<longleftrightarrow> True"
| "touches StartThread \<longleftrightarrow> True"
| "touches (SetUp h st) \<longleftrightarrow> True"
| "touches (Update h) \<longleftrightarrow> True"
| "touches (Iterate h st) \<longleftrightarrow> True"
| "touches (CleanUp h) \<longleftrightarrow> True"
| "touches (Count h) \<longleftrightarrow> True"
| "touches (Notify h) \<longleftrightarrow> True"
| "touches Finalize \<longleftrightarrow> True"
| "touches _ \<longleftrightarrow> False"

lemma exec_untouched:
  assumes "exec a p = Some p'" and "\<not> touches a"
  shows "handle_to_thread p' = handle_to_thread p" "handle_to_status p' = handle_to_status p" "call_of h a = []"
  using assms by (cases a; auto split: if_splits outcome.splits)+

lemma Update_agrees:
  assumes "agrees ph (handle_to_thread p h) (handle_to_status p h)" and "exec (Update g) p = Some p'"
  shows "agrees ph (handle_to_thread p' h) (handle_to_status p' h)"
proof (cases "g = h")
  case True
  then obtain st where "handle_to_thread p h = Some (Updating st)"
    using assms(2) by (auto split: option.splits run_pc.splits)
  then show ?thesis using True assms by (cases ph) (auto simp: Let_def split: if_splits)
next
  case False
  then show ?thesis using assms by (auto simp: Let_def split: option.splits run_pc.splits)
qed

lemma thread_agrees:
  assumes "agrees ph (handle_to_thread p h) (handle_to_status p h)" and "exec a p = Some p'"
    and "a = SetUp g st \<or> a = Iterate g st \<or> a = CleanUp g \<or> a = Count g \<or> a = Notify g"
  shows "\<exists>ph'. call_steps (call_of h a) ph = Some ph' \<and> agrees ph' (handle_to_thread p' h) (handle_to_status p' h)"
proof (cases "g = h")
  case True
  then show ?thesis
    using assms by (cases ph; elim disjE) (auto split: if_splits outcome.splits)
next
  case False
  then have "handle_to_thread p' h = handle_to_thread p h" "handle_to_status p' h = handle_to_status p h" "call_of h a = []"
    using assms(2,3) by (elim disjE; auto split: if_splits outcome.splits)+
  then show ?thesis using assms(1) by simp
qed

lemma Add_agrees:
  assumes "agrees ph (handle_to_thread p h) (handle_to_status p h)" and "exec (Add g) p = Some p'"
  shows "agrees ph (handle_to_thread p' h) (handle_to_status p' h)"
  using assms by (cases ph; cases "g = h") (auto split: if_splits)

lemma Finalize_agrees:
  assumes "agrees ph (handle_to_thread p h) (handle_to_status p h)" and "exec Finalize p = Some p'"
  shows "agrees ph (handle_to_thread p' h) (handle_to_status p' h)"
  using assms by (cases ph) (auto split: if_splits joiner_pc.splits)

lemmas quiet_agrees = Add_agrees StartThread_agrees Update_agrees Finalize_agrees

lemma exec_agrees:
  assumes "pool_inv p" and "agrees ph (handle_to_thread p h) (handle_to_status p h)" and "exec a p = Some p'"
  shows "\<exists>ph'. call_steps (call_of h a) ph = Some ph' \<and> agrees ph' (handle_to_thread p' h) (handle_to_status p' h)"
proof -
  consider (untouched) "\<not> touches a" | (quiet) g where "a \<in> {Add g, StartThread, Update g, Finalize}"
    | (moving) g st where "a = SetUp g st \<or> a = Iterate g st \<or> a = CleanUp g \<or> a = Count g \<or> a = Notify g"
    by (cases a) auto
  then show ?thesis
  proof cases
    case untouched
    then show ?thesis using exec_untouched [OF assms(3)] assms(2) by simp
  next
    case quiet
    then have "call_of h a = []" by auto
    moreover have "agrees ph (handle_to_thread p' h) (handle_to_status p' h)"
      using quiet assms quiet_agrees by blast
    ultimately show ?thesis by simp
  next
    case moving
    then show ?thesis using thread_agrees [OF assms(2,3)] by blast
  qed
qed

lemma run_agrees:
  "run as p = Some p' \<Longrightarrow> pool_inv p \<Longrightarrow> agrees ph (handle_to_thread p h) (handle_to_status p h) \<Longrightarrow>
   \<exists>ph'. call_steps (calls h as) ph = Some ph' \<and> agrees ph' (handle_to_thread p' h) (handle_to_status p' h)"
proof (induction as arbitrary: p ph)
  case (Cons a as)
  then obtain p1 where p1: "exec a p = Some p1" "run as p1 = Some p'" by (auto split: option.splits)
  from exec_agrees [OF Cons.prems(2,3) p1(1)] Cons.IH [OF p1(2) pool_inv_step [OF Cons.prems(2) p1(1)]]
  show ?case by (auto simp: call_steps_append)
qed simp

section \<open>Properties\<close>

text \<open>
  C7. The pool calls the methods of a task in the right order. In every interleaving, the calls made
  on a task are \<open>SetUp\<close> once, then \<open>RunAtomic\<close> as long as the call before returned \<open>RUNNING\<close>, then
  \<open>CleanUp\<close> once, and nothing after that. The status that the pool publishes is \<open>RUNNING\<close> until the last of
  the first two kinds of calls has returned, and then what that call returned or \<open>CANCELLED\<close>; a task
  whose thread has been joined has been cleaned up.
\<close>

theorem pool_task_protocol:
  assumes "run as (new_pool n) = Some p"
  shows "\<exists>ph. call_steps (calls h as) Unstarted = Some ph \<and>
    (case ph of
       Unstarted \<Rightarrow> handle_to_status p h \<in> {None, Some RUNNING}
     | After st \<Rightarrow> handle_to_thread p h \<noteq> None \<and> handle_to_status p h \<in> {Some RUNNING, Some st, Some CANCELLED}
     | Over st \<Rightarrow> handle_to_status p h \<in> {Some st, Some CANCELLED} \<and> handle_to_status p h \<noteq> Some RUNNING)"
proof -
  have "agrees Unstarted (handle_to_thread (new_pool n) h) (handle_to_status (new_pool n) h)"
    by (simp add: new_pool_def)
  from run_agrees [OF assms pool_inv_init this] obtain ph
    where "call_steps (calls h as) Unstarted = Some ph" "agrees ph (handle_to_thread p h) (handle_to_status p h)"
    by blast
  then show ?thesis by (cases ph) auto
qed

theorem pool_task_protocol_witness:
  "calls 1 (finished_run @ [CleanUp 1]) = [Call_SetUp RUNNING, Call_RunAtomic DONE, Call_CleanUp] \<and>
   call_steps [Call_SetUp RUNNING, Call_RunAtomic DONE, Call_CleanUp] Unstarted = Some (Over DONE) \<and>
   handle_to_status (the (run (finished_run @ [CleanUp 1]) (new_pool 1))) 1 \<in> {Some DONE, Some CANCELLED}"
proof -
  have "run (finished_run @ [CleanUp 1]) (new_pool 1) = Some (the (run (finished_run @ [CleanUp 1]) (new_pool 1)))"
    by (simp add: finished_run_def started_run_def new_pool_def new_queue_def Pop_def PopTimed_def)
  moreover have "calls 1 (finished_run @ [CleanUp 1]) = [Call_SetUp RUNNING, Call_RunAtomic DONE, Call_CleanUp]"
    by (simp add: calls_def finished_run_def started_run_def)
  ultimately show ?thesis using pool_task_protocol [of _ 1 _ 1] by fastforce
qed

text \<open>
  Cancellation reaches \<open>CleanUp\<close> as well: a task that is cancelled before its first iteration is set
  up and cleaned up and never iterated. (\<open>task.h\<close> promises \<open>CleanUp\<close> for tasks that are done or failed.)
\<close>

theorem cancelled_task_cleaned_up:
  "\<exists>as p. run as (new_pool 1) = Some p \<and> calls 1 as = [Call_SetUp RUNNING, Call_CleanUp] \<and>
    handle_to_status p 1 = Some CANCELLED"
  by (rule exI [of _ "started_run @ [Cancel 1, SetUp 1 RUNNING, Update 1, CleanUp 1]"])
    (simp add: calls_def started_run_def new_pool_def new_queue_def Pop_def PopTimed_def)

end
