(* ===== verification/File_Handler.thy ===== *)
theory File_Handler
  imports Base
begin

text \<open>
  Model of \<open>project1_2/server/file_handler/file_handler\<close>: the operations of an FTP session
  on the server's file system, relative to the session's current directory. Paths are the
  strings that \<open>std::filesystem::path\<close> stores on a POSIX system, with its operations
  \<open>operator/\<close>, \<open>parent_path\<close> and \<open>lexically_normal\<close>. The file system of the host is not
  part of the repository: its calls are the fields of the record \<open>fs_ops\<close>, over a state of
  any type. \<open>None\<close> is a call that throws \<open>filesystem_error\<close>; nothing in the server catches
  exceptions, so it crashes the process.
\<close>

section \<open>Paths\<close>

definition is_absolute :: "string \<Rightarrow> bool" where
  "is_absolute p \<longleftrightarrow> p \<noteq> [] \<and> hd p = CHR ''/''"

definition has_filename :: "string \<Rightarrow> bool" where
  "has_filename p \<longleftrightarrow> p \<noteq> [] \<and> last p \<noteq> CHR ''/''"

definition path_append :: "string \<Rightarrow> string \<Rightarrow> string" where
  "path_append p q =
     (if is_absolute q then q else if has_filename p then p @ ''/'' @ q else p @ q)"

definition parent_path :: "string \<Rightarrow> string" where
  "parent_path p =
     (let dir = rev (dropWhile (\<lambda>c. c \<noteq> CHR ''/'') (rev p));
          stem = rev (dropWhile (\<lambda>c. c = CHR ''/'') (rev dir))
      in if list_all (\<lambda>c. c = CHR ''/'') p then p
         else if stem = [] \<and> dir \<noteq> [] then ''/'' else stem)"

fun split_on :: "char \<Rightarrow> string \<Rightarrow> string list" where
  "split_on c [] = [[]]"
| "split_on c (x # xs) =
     (if x = c then [] # split_on c xs
      else case split_on c xs of [] \<Rightarrow> [[x]] | y # ys \<Rightarrow> (x # y) # ys)"

fun join_path :: "string list \<Rightarrow> string" where
  "join_path [] = []"
| "join_path [c] = c"
| "join_path (c # cs) = c @ ''/'' @ join_path cs"

text \<open>
  One component of a path against the stack of the components before it, the latest first:
  empty components and dots disappear, two dots remove a component, except at the start of
  a relative path.
\<close>

definition normal_step :: "bool \<Rightarrow> string list \<Rightarrow> string \<Rightarrow> string list" where
  "normal_step ab acc piece =
     (if piece = [] \<or> piece = ''.'' then acc
      else if piece = ''..'' then
        (case acc of
           [] \<Rightarrow> if ab then [] else [''..'']
         | c # cs \<Rightarrow> if c = ''..'' then ''..'' # acc else cs)
      else piece # acc)"

definition lexically_normal :: "string \<Rightarrow> string" where
  "lexically_normal p =
     (let ab = is_absolute p;
          pieces = split_on (CHR ''/'') p;
          comps = rev (foldl (normal_step ab) [] pieces);
          trailing = (comps \<noteq> [] \<and> last comps \<noteq> ''..'' \<and> last pieces \<in> {[], ''.'', ''..''});
          out = (if ab then ''/'' else []) @ join_path comps @ (if trailing then ''/'' else [])
      in if p = [] then [] else if out = [] then ''.'' else out)"

section \<open>The file handler\<close>

record 'f fs_ops =
  fs_remove :: "string \<Rightarrow> 'f \<Rightarrow> (bool \<times> 'f) option"
  fs_create_directory :: "string \<Rightarrow> 'f \<Rightarrow> (bool \<times> 'f) option"
  fs_write :: "string \<Rightarrow> bytes \<Rightarrow> 'f \<Rightarrow> 'f"
  fs_read :: "string \<Rightarrow> 'f \<Rightarrow> bytes"
  fs_entries :: "string \<Rightarrow> 'f \<Rightarrow> string list option"

record file_handler =
  current_dir :: string

definition new_FileHandler :: "string \<Rightarrow> file_handler" where
  "new_FileHandler current_path = \<lparr>current_dir = current_path\<rparr>"

definition FileHandler_Delete ::
  "'f fs_ops \<Rightarrow> string \<Rightarrow> file_handler \<Rightarrow> 'f \<Rightarrow> (bool \<times> 'f) outcome" where
  "FileHandler_Delete ops filename h fs =
     (case fs_remove ops (path_append (current_dir h) filename) fs of
        None \<Rightarrow> Crash | Some r \<Rightarrow> Ret r)"

definition FileHandler_Put ::
  "'f fs_ops \<Rightarrow> string \<Rightarrow> bytes \<Rightarrow> file_handler \<Rightarrow> 'f \<Rightarrow> bool \<times> 'f" where
  "FileHandler_Put ops filename cs h fs =
     (True, fs_write ops (path_append (current_dir h) filename) cs fs)"

definition FileHandler_MakeDir ::
  "'f fs_ops \<Rightarrow> string \<Rightarrow> file_handler \<Rightarrow> 'f \<Rightarrow> (bool \<times> 'f) outcome" where
  "FileHandler_MakeDir ops name h fs =
     (case fs_create_directory ops (path_append (current_dir h) name) fs of
        None \<Rightarrow> Crash | Some r \<Rightarrow> Ret r)"

definition FileHandler_ChangeDir :: "string \<Rightarrow> file_handler \<Rightarrow> bool \<times> file_handler" where
  "FileHandler_ChangeDir sub_folder h =
     (True, h\<lparr>current_dir := path_append (current_dir h) sub_folder\<rparr>)"

definition FileHandler_Get :: "'f fs_ops \<Rightarrow> string \<Rightarrow> file_handler \<Rightarrow> 'f \<Rightarrow> bytes" where
  "FileHandler_Get ops filename h fs = fs_read ops (path_append (current_dir h) filename) fs"

definition FileHandler_UpDir :: "file_handler \<Rightarrow> bool \<times> file_handler" where
  "FileHandler_UpDir h = (True, h\<lparr>current_dir := parent_path (current_dir h)\<rparr>)"

definition FileHandler_List :: "'f fs_ops \<Rightarrow> file_handler \<Rightarrow> 'f \<Rightarrow> string list outcome" where
  "FileHandler_List ops h fs =
     (case fs_entries ops (current_dir h) fs of
        None \<Rightarrow> Crash
      | Some names \<Rightarrow>
          Ret (map (\<lambda>name. drop (length (current_dir h) + 1) (path_append (current_dir h) name)) names))"

definition FileHandler_GetCurrentDir :: "file_handler \<Rightarrow> string" where
  "FileHandler_GetCurrentDir h = current_dir h"

text \<open>What the operations rely on: a file reads back as it was last written.\<close>

definition read_after_write :: "'f fs_ops \<Rightarrow> string \<Rightarrow> bool" where
  "read_after_write ops p \<longleftrightarrow> (\<forall>cs fs. fs_read ops p (fs_write ops p cs fs) = cs)"

text \<open>The name of a directory entry: not empty and without a separator.\<close>

definition entry_name :: "string \<Rightarrow> bool" where
  "entry_name n \<longleftrightarrow> n \<noteq> [] \<and> CHR ''/'' \<notin> set n"

text \<open>A file system with one directory, for the witnesses.\<close>

definition flat_fs :: "string \<Rightarrow> (string \<rightharpoonup> bytes) fs_ops" where
  "flat_fs dir =
     \<lparr>fs_remove = (\<lambda>p fs. Some (fs p \<noteq> None, fs(p := None))),
      fs_create_directory = (\<lambda>p fs. None),
      fs_write = (\<lambda>p cs fs. fs(p \<mapsto> cs)),
      fs_read = (\<lambda>p fs. case fs p of None \<Rightarrow> [] | Some cs \<Rightarrow> cs),
      fs_entries = (\<lambda>p fs. if p = dir then Some [''a.txt''] else None)\<rparr>"

section \<open>Lemmas on paths\<close>

lemma split_on_nonempty [simp]: "split_on c xs \<noteq> []"
  by (induction c xs rule: split_on.induct) (auto split: list.splits)

lemma split_on_clean: "x \<in> set (split_on c xs) \<Longrightarrow> c \<notin> set x"
  by (induction c xs arbitrary: x rule: split_on.induct) (auto split: list.splits if_splits)

lemma split_on_append:
  "c \<notin> set xs \<Longrightarrow> split_on c (xs @ c # ys) = xs # split_on c ys"
  by (induction xs) auto

lemma split_on_none: "c \<notin> set xs \<Longrightarrow> split_on c xs = [xs]"
  by (induction xs) auto

lemma split_join:
  "cs \<noteq> [] \<Longrightarrow> \<forall>x\<in>set cs. CHR ''/'' \<notin> set x \<Longrightarrow> split_on (CHR ''/'') (join_path cs) = cs"
  by (induction cs rule: join_path.induct) (auto simp: split_on_append split_on_none)

lemma split_join_slash:
  "cs \<noteq> [] \<Longrightarrow> \<forall>x\<in>set cs. CHR ''/'' \<notin> set x \<Longrightarrow>
   split_on (CHR ''/'') (join_path cs @ ''/'') = cs @ [[]]"
  by (induction cs rule: join_path.induct) (auto simp: split_on_append)

definition plain_comp :: "string \<Rightarrow> bool" where
  "plain_comp c \<longleftrightarrow> entry_name c \<and> c \<noteq> ''.'' \<and> c \<noteq> ''..''"

lemma normal_step_plain:
  assumes "\<forall>x\<in>set acc. plain_comp x" and "CHR ''/'' \<notin> set c"
  shows "\<forall>x\<in>set (normal_step True acc c). plain_comp x"
  using assms by (cases acc) (auto simp: normal_step_def plain_comp_def entry_name_def)

lemma foldl_normal_plain:
  "\<forall>x\<in>set acc. plain_comp x \<Longrightarrow> \<forall>c\<in>set cs. CHR ''/'' \<notin> set c \<Longrightarrow>
   \<forall>x\<in>set (foldl (normal_step True) acc cs). plain_comp x"
proof (induction cs arbitrary: acc)
  case (Cons c cs)
  then show ?case using normal_step_plain [of acc c] by simp
qed simp

lemma foldl_normal_id:
  "\<forall>x\<in>set cs. plain_comp x \<Longrightarrow> foldl (normal_step True) acc cs = rev cs @ acc"
  by (induction cs arbitrary: acc) (auto simp: normal_step_def plain_comp_def entry_name_def)

text \<open>
  The canonical form of an absolute path: a separator, the components, perhaps a separator.
\<close>

lemma normal_form:
  assumes "is_absolute p"
  shows "\<exists>cs t. lexically_normal p = ''/'' @ join_path cs @ (if t \<and> cs \<noteq> [] then ''/'' else []) \<and>
    (\<forall>c\<in>set cs. plain_comp c)"
proof -
  let ?cs = "rev (foldl (normal_step True) [] (split_on (CHR ''/'') p))"
  have plain: "\<forall>c\<in>set ?cs. plain_comp c"
    using foldl_normal_plain [of "[]" "split_on (CHR ''/'') p"] split_on_clean by auto
  show ?thesis
    by (rule exI [of _ ?cs], rule exI [of _ "?cs \<noteq> [] \<and> last ?cs \<noteq> ''..'' \<and>
          last (split_on (CHR ''/'') p) \<in> {[], ''.'', ''..''}"])
      (use plain assms in \<open>auto simp: lexically_normal_def Let_def is_absolute_def\<close>)
qed

lemma normal_of_form:
  assumes "\<forall>c\<in>set cs. plain_comp c"
    and q: "q = ''/'' @ join_path cs @ (if t \<and> cs \<noteq> [] then ''/'' else [])"
  shows "lexically_normal q = q" and "is_absolute q"
    and "\<forall>c\<in>set (split_on (CHR ''/'') q). c \<noteq> ''.'' \<and> c \<noteq> ''..''"
proof -
  have clean: "\<forall>c\<in>set cs. CHR ''/'' \<notin> set c" "[] \<notin> set cs" "''.'' \<notin> set cs" "''..'' \<notin> set cs"
    using assms(1) by (auto simp: plain_comp_def entry_name_def)
  show ab: "is_absolute q" using q by (simp add: is_absolute_def)
  have sp: "split_on (CHR ''/'') q = [] # (if cs = [] then [[]] else if t then cs @ [[]] else cs)"
    using q clean(1) by (auto simp: split_join split_join_slash)
  have step: "normal_step True acc [] = acc" for acc by (simp add: normal_step_def)
  have fold: "foldl (normal_step True) [] (split_on (CHR ''/'') q) = rev cs"
    using foldl_normal_id [OF assms(1), of "[]"] by (simp add: sp step)
  have last: "last cs \<noteq> []" "last cs \<noteq> ''.''" "last cs \<noteq> ''..''" if "cs \<noteq> []"
    using that clean last_in_set by metis+
  have "lexically_normal q = ''/'' @ join_path cs @ (if t \<and> cs \<noteq> [] then ''/'' else [])"
  proof (cases "cs = []")
    case True
    then show ?thesis using ab fold
      by (simp add: lexically_normal_def Let_def is_absolute_def)
  next
    case False
    then have "last (split_on (CHR ''/'') q) = (if t then [] else last cs)" by (simp add: sp)
    then show ?thesis using ab fold last [OF False] False
      by (simp add: lexically_normal_def Let_def) (simp add: is_absolute_def)
  qed
  then show "lexically_normal q = q" using q by simp
  show "\<forall>c\<in>set (split_on (CHR ''/'') q). c \<noteq> ''.'' \<and> c \<noteq> ''..''"
    using clean by (auto simp: sp)
qed

lemma not_absolute: "entry_name n \<Longrightarrow> \<not> is_absolute n"
  by (cases n) (auto simp: entry_name_def is_absolute_def)

lemma parent_of_append:
  assumes "entry_name n" and "has_filename d \<or> d = ''/''"
  shows "parent_path (path_append d n) = d"
proof -
  have n: "n \<noteq> []" "\<forall>c\<in>set (rev n). c \<noteq> CHR ''/''" "\<not> is_absolute n"
    using assms(1) by (auto simp: not_absolute) (simp_all add: entry_name_def)
  have drop: "dropWhile (\<lambda>c. c \<noteq> CHR ''/'') (rev n @ ys) = dropWhile (\<lambda>c. c \<noteq> CHR ''/'') ys" for ys
    using n(2) by (intro dropWhile_append2) blast
  have notall: "\<not> list_all (\<lambda>c. c = CHR ''/'') (d' @ n)" for d'
    using n(1,2) by (cases n) auto
  show ?thesis
  proof (cases "d = ''/''")
    case True
    then show ?thesis
      using n drop [of "''/''"] notall [of "''/''"]
      by (simp add: path_append_def has_filename_def parent_path_def Let_def)
  next
    case False
    then have d: "has_filename d" using assms(2) by simp
    then obtain x xs where x: "rev d = x # xs" "x \<noteq> CHR ''/''"
      by (cases "rev d") (auto simp: has_filename_def last_rev [symmetric] rev_eq_Cons_iff)
    then have "dropWhile (\<lambda>c. c = CHR ''/'') (rev d) = rev d" by simp
    then show ?thesis
      using n(3) d drop [of "''/'' @ rev d"] notall [of "d @ ''/''"]
      by (auto simp: path_append_def parent_path_def Let_def has_filename_def)
  qed
qed

lemma entry_drop:
  assumes "entry_name n"
  shows "drop (Suc (length d)) (path_append d n) = (if has_filename d then n else drop 1 n)"
  using not_absolute [OF assms] by (simp add: path_append_def)

section \<open>Properties\<close>

text \<open>
  Entering a sub-directory and going up again leads back to the directory the session
  was in, when that is the root or a path without a trailing separator.
\<close>

theorem ChangeDir_UpDir:
  assumes "entry_name sub" and "has_filename (current_dir h) \<or> current_dir h = ''/''"
  shows "FileHandler_UpDir (snd (FileHandler_ChangeDir sub h)) = (True, h)"
  using parent_of_append [OF assms]
  by (simp add: FileHandler_UpDir_def FileHandler_ChangeDir_def)

theorem ChangeDir_UpDir_witness:
  "FileHandler_UpDir (snd (FileHandler_ChangeDir ''docs'' (new_FileHandler ''/srv/ftp''))) =
     (True, new_FileHandler ''/srv/ftp'')"
  by (rule ChangeDir_UpDir) (simp_all add: entry_name_def has_filename_def new_FileHandler_def)

text \<open>
  A file reads back as it was put, from whatever directory the session is in, and \<open>Put\<close>
  always reports success.
\<close>

theorem FileHandler_Put_Get:
  assumes "read_after_write ops (path_append (current_dir h) name)"
  shows "fst (FileHandler_Put ops name cs h fs) \<and>
    FileHandler_Get ops name h (snd (FileHandler_Put ops name cs h fs)) = cs"
  using assms by (simp add: FileHandler_Put_def FileHandler_Get_def read_after_write_def)

theorem FileHandler_Put_Get_witness:
  "fst (FileHandler_Put (flat_fs ''/srv'') ''a.txt'' [1, 2] (new_FileHandler ''/srv'') Map.empty) \<and>
   FileHandler_Get (flat_fs ''/srv'') ''a.txt'' (new_FileHandler ''/srv'')
     (snd (FileHandler_Put (flat_fs ''/srv'') ''a.txt'' [1, 2] (new_FileHandler ''/srv'') Map.empty))
   = [1, 2]"
  by (rule FileHandler_Put_Get) (simp add: read_after_write_def flat_fs_def)

text \<open>
  \<open>List\<close> gives the names of the entries when the current directory does not end in a
  separator. Where it does, in the root directory or after \<open>cd sub/\<close>, every name loses its
  first character.
\<close>

theorem FileHandler_List_names:
  assumes "fs_entries ops (current_dir h) fs = Some names" and "\<forall>n\<in>set names. entry_name n"
  shows "FileHandler_List ops h fs =
    Ret (if has_filename (current_dir h) then names else map (drop 1) names)"
  using assms by (auto simp: FileHandler_List_def entry_drop intro: map_idI)

theorem FileHandler_List_names_witness:
  "FileHandler_List (flat_fs ''/'') (new_FileHandler ''/'') Map.empty = Ret [''.txt'']"
  using FileHandler_List_names [of "flat_fs ''/''" "new_FileHandler ''/''" Map.empty "[''a.txt'']"]
  by (simp add: flat_fs_def new_FileHandler_def entry_name_def has_filename_def)

text \<open>
  Entering a directory that does not exist is reported as a success, and a \<open>List\<close> after
  it crashes the server: \<open>ChangeDir\<close> checks nothing, and the exception of the directory
  iterator is not caught.
\<close>

theorem ChangeDir_missing_crashes_List:
  assumes "fs_entries ops (path_append (current_dir h) sub) fs = None"
  shows "fst (FileHandler_ChangeDir sub h) \<and>
    FileHandler_List ops (snd (FileHandler_ChangeDir sub h)) fs = Crash"
  using assms by (simp add: FileHandler_ChangeDir_def FileHandler_List_def)

theorem ChangeDir_missing_crashes_List_witness:
  "fst (FileHandler_ChangeDir ''nosuch'' (new_FileHandler ''/srv'')) \<and>
   FileHandler_List (flat_fs ''/srv'')
     (snd (FileHandler_ChangeDir ''nosuch'' (new_FileHandler ''/srv''))) Map.empty = Crash"
  by (rule ChangeDir_missing_crashes_List)
    (simp add: flat_fs_def new_FileHandler_def path_append_def is_absolute_def has_filename_def)

end
