(* ===== verification/File_Access.thy ===== *)
theory File_Access
  imports File_Handler
begin

text \<open>
  Model of \<open>file_access_manager\<close>, \<open>file_lock_guard\<close> and \<open>thread_safe_file_handler\<close> of the FTP
  server: how the sessions, one thread each, lock the files they work on.

  A \<open>FileAccessManager\<close> is a monitor: the set of locked paths, the threads that wait on its
  condition variable, the threads that a notification has woken and that have not yet run
  again, and the \<open>notify_one()\<close> calls that are due. \<open>ThreadSafeFileHandler\<close> takes a lock of
  the read manager for every operation and, inside it, a lock of the write manager for the
  operations that change the file system; a thread's program counter says which of its
  guards exist. An action is one critical section of one thread; a run is any sequence of
  actions, with the scheduler free to choose the thread that a notification wakes.
\<close>

section \<open>FileAccessManager\<close>

definition UniquePath :: "string \<Rightarrow> string \<Rightarrow> string" where
  "UniquePath current_path relative =
     (if is_absolute relative then lexically_normal relative
      else lexically_normal (path_append current_path relative))"

record mgr =
  locked_files :: "string set"
  lock_wait :: "(nat \<times> string) list"
  lock_woken :: "(nat \<times> string) list"
  lock_notify :: nat

definition new_mgr :: mgr where
  "new_mgr = \<lparr>locked_files = {}, lock_wait = [], lock_woken = [], lock_notify = 0\<rparr>"

text \<open>
  \<open>LockFile\<close> by thread \<open>t\<close>: up to the return of the call, or up to the wait. A woken thread
  tests the predicate of its wait again in \<open>LockFile_resume\<close>.
\<close>

definition LockFile :: "string \<Rightarrow> nat \<Rightarrow> string \<Rightarrow> mgr \<Rightarrow> bool \<times> mgr" where
  "LockFile cp t path m =
     (let kPathKey = UniquePath cp path
      in if kPathKey \<in> locked_files m
         then (False, m\<lparr>lock_wait := lock_wait m @ [(t, kPathKey)]\<rparr>)
         else (True, m\<lparr>locked_files := insert kPathKey (locked_files m)\<rparr>))"

definition LockFile_resume :: "string \<Rightarrow> nat \<Rightarrow> string \<Rightarrow> mgr \<Rightarrow> bool \<times> mgr" where
  "LockFile_resume cp t path m =
     (let kPathKey = UniquePath cp path;
          m' = m\<lparr>lock_woken := remove1 (t, kPathKey) (lock_woken m)\<rparr>
      in if kPathKey \<in> locked_files m
         then (False, m'\<lparr>lock_wait := lock_wait m @ [(t, kPathKey)]\<rparr>)
         else (True, m'\<lparr>locked_files := insert kPathKey (locked_files m)\<rparr>))"

definition UnlockFile :: "string \<Rightarrow> string \<Rightarrow> mgr \<Rightarrow> mgr" where
  "UnlockFile cp path m =
     m\<lparr>locked_files := locked_files m - {UniquePath cp path}, lock_notify := Suc (lock_notify m)\<rparr>"

text \<open>A \<open>notify_one()\<close> that is due takes effect: it wakes the waiter of the scheduler's choice.\<close>

definition notify_waiter :: "nat \<Rightarrow> mgr \<Rightarrow> mgr option" where
  "notify_waiter i m =
     (if lock_notify m = 0 then None
      else if lock_wait m = [] then Some (m\<lparr>lock_notify := lock_notify m - 1\<rparr>)
      else if i < length (lock_wait m)
      then Some (m\<lparr>lock_notify := lock_notify m - 1,
                  lock_wait := take i (lock_wait m) @ drop (Suc i) (lock_wait m),
                  lock_woken := lock_woken m @ [lock_wait m ! i]\<rparr>)
      else None)"

section \<open>ThreadSafeFileHandler\<close>

datatype file_op = OpGet | OpPut bytes | OpDelete | OpMakeDir

datatype fs_result = GotBytes bytes | GotBool bool

text \<open>
  Where a thread is: outside; waiting for the read lock; inside it; waiting for the write
  lock; inside both; done, with the write lock released and the read lock not yet.
\<close>

datatype file_pc =
    Outside
  | WaitRead file_op file_handler string
  | HasRead file_op file_handler string
  | WaitWrite file_op file_handler string
  | HasBoth file_op file_handler string
  | Leaving file_handler string

record 'f fstate =
  read_manager :: mgr
  write_manager :: mgr
  fs :: 'f
  pcs :: "nat \<Rightarrow> file_pc"
  results :: "(nat \<times> fs_result) list"

definition ToAbsolute :: "file_handler \<Rightarrow> string \<Rightarrow> string" where
  "ToAbsolute h path = path_append (FileHandler_GetCurrentDir h) path"

definition file_op_body ::
  "'f fs_ops \<Rightarrow> file_op \<Rightarrow> string \<Rightarrow> file_handler \<Rightarrow> 'f \<Rightarrow> (fs_result \<times> 'f) outcome" where
  "file_op_body ops oper name h s =
     (case oper of
        OpGet \<Rightarrow> Ret (GotBytes (FileHandler_Get ops name h s), s)
      | OpPut cs \<Rightarrow> (case FileHandler_Put ops name cs h s of (b, s') \<Rightarrow> Ret (GotBool b, s'))
      | OpDelete \<Rightarrow> obind (FileHandler_Delete ops name h s) (\<lambda>(b, s'). Ret (GotBool b, s'))
      | OpMakeDir \<Rightarrow> obind (FileHandler_MakeDir ops name h s) (\<lambda>(b, s'). Ret (GotBool b, s')))"

text \<open>The call of an operation: the constructor of the first guard.\<close>

definition file_call :: "string \<Rightarrow> nat \<Rightarrow> file_op \<Rightarrow> file_handler \<Rightarrow> string \<Rightarrow> 'f fstate \<Rightarrow> 'f fstate" where
  "file_call cp t oper h name st =
     (case LockFile cp t (ToAbsolute h name) (read_manager st) of
        (got, m) \<Rightarrow> st\<lparr>read_manager := m,
          pcs := (pcs st)(t := (if got then HasRead else WaitRead) oper h name)\<rparr>)"

text \<open>
  The next critical section of a thread that holds the read lock: a read does its work and
  destroys its guard; the other operations construct the second guard, do their work, and
  destroy the guards in reverse order.
\<close>

definition file_advance :: "string \<Rightarrow> 'f fs_ops \<Rightarrow> nat \<Rightarrow> 'f fstate \<Rightarrow> 'f fstate outcome" where
  "file_advance cp ops t st =
     (case pcs st t of
        HasRead OpGet h name \<Rightarrow>
          obind (file_op_body ops OpGet name h (fs st)) (\<lambda>(r, s').
            Ret (st\<lparr>fs := s', results := results st @ [(t, r)],
                   read_manager := UnlockFile cp (ToAbsolute h name) (read_manager st),
                   pcs := (pcs st)(t := Outside)\<rparr>))
      | HasRead oper h name \<Rightarrow>
          (case LockFile cp t (ToAbsolute h name) (write_manager st) of
             (got, m) \<Rightarrow> Ret (st\<lparr>write_manager := m,
               pcs := (pcs st)(t := (if got then HasBoth else WaitWrite) oper h name)\<rparr>))
      | HasBoth oper h name \<Rightarrow>
          obind (file_op_body ops oper name h (fs st)) (\<lambda>(r, s').
            Ret (st\<lparr>fs := s', results := results st @ [(t, r)],
                   write_manager := UnlockFile cp (ToAbsolute h name) (write_manager st),
                   pcs := (pcs st)(t := Leaving h name)\<rparr>))
      | Leaving h name \<Rightarrow>
          Ret (st\<lparr>read_manager := UnlockFile cp (ToAbsolute h name) (read_manager st),
                 pcs := (pcs st)(t := Outside)\<rparr>)
      | _ \<Rightarrow> Ret st)"

text \<open>A woken thread runs again.\<close>

definition file_resume :: "string \<Rightarrow> nat \<Rightarrow> 'f fstate \<Rightarrow> 'f fstate" where
  "file_resume cp t st =
     (case pcs st t of
        WaitRead oper h name \<Rightarrow>
          if (t, UniquePath cp (ToAbsolute h name)) \<in> set (lock_woken (read_manager st))
          then case LockFile_resume cp t (ToAbsolute h name) (read_manager st) of
                 (got, m) \<Rightarrow> st\<lparr>read_manager := m,
                   pcs := (pcs st)(t := (if got then HasRead else WaitRead) oper h name)\<rparr>
          else st
      | WaitWrite oper h name \<Rightarrow>
          if (t, UniquePath cp (ToAbsolute h name)) \<in> set (lock_woken (write_manager st))
          then case LockFile_resume cp t (ToAbsolute h name) (write_manager st) of
                 (got, m) \<Rightarrow> st\<lparr>write_manager := m,
                   pcs := (pcs st)(t := (if got then HasBoth else WaitWrite) oper h name)\<rparr>
          else st
      | _ \<Rightarrow> st)"

datatype file_action =
    Call nat file_op file_handler string
  | Advance nat
  | Resume nat
  | NotifyRead nat
  | NotifyWrite nat

fun file_step :: "string \<Rightarrow> 'f fs_ops \<Rightarrow> file_action \<Rightarrow> 'f fstate \<Rightarrow> 'f fstate outcome" where
  "file_step cp ops (Call t oper h name) st =
     Ret (if pcs st t = Outside then file_call cp t oper h name st else st)"
| "file_step cp ops (Advance t) st = file_advance cp ops t st"
| "file_step cp ops (Resume t) st = Ret (file_resume cp t st)"
| "file_step cp ops (NotifyRead i) st =
     Ret (case notify_waiter i (read_manager st) of
            None \<Rightarrow> st | Some m \<Rightarrow> st\<lparr>read_manager := m\<rparr>)"
| "file_step cp ops (NotifyWrite i) st =
     Ret (case notify_waiter i (write_manager st) of
            None \<Rightarrow> st | Some m \<Rightarrow> st\<lparr>write_manager := m\<rparr>)"

fun file_run :: "string \<Rightarrow> 'f fs_ops \<Rightarrow> file_action list \<Rightarrow> 'f fstate \<Rightarrow> 'f fstate outcome" where
  "file_run cp ops [] st = Ret st"
| "file_run cp ops (a # as) st = obind (file_step cp ops a st) (file_run cp ops as)"

definition new_fstate :: "'f \<Rightarrow> 'f fstate" where
  "new_fstate s =
     \<lparr>read_manager = new_mgr, write_manager = new_mgr, fs = s, pcs = (\<lambda>_. Outside), results = []\<rparr>"

section \<open>Lock keys\<close>

lemma UniquePath_form:
  assumes "is_absolute cp"
  shows "\<exists>cs t. UniquePath cp p = ''/'' @ join_path cs @ (if t \<and> cs \<noteq> [] then ''/'' else []) \<and>
    (\<forall>c\<in>set cs. plain_comp c)"
proof -
  have "is_absolute (path_append cp p)"
    using assms by (auto simp: path_append_def is_absolute_def)
  then show ?thesis using normal_form by (auto simp: UniquePath_def)
qed

section \<open>The contract of a lock manager\<close>

text \<open>
  What a guard relies on: locking a free key succeeds and takes it, locking a taken key does
  not succeed and takes nothing, unlocking frees exactly that key.
\<close>

locale lock_manager =
  fixes key :: "'p \<Rightarrow> 'k"
    and taken :: "'m \<Rightarrow> 'k set"
    and lock :: "nat \<Rightarrow> 'p \<Rightarrow> 'm \<Rightarrow> bool \<times> 'm"
    and unlock :: "'p \<Rightarrow> 'm \<Rightarrow> 'm"
  assumes lock_free: "key p \<notin> taken m \<Longrightarrow>
      fst (lock t p m) \<and> taken (snd (lock t p m)) = insert (key p) (taken m)"
    and lock_taken: "key p \<in> taken m \<Longrightarrow>
      \<not> fst (lock t p m) \<and> taken (snd (lock t p m)) = taken m"
    and unlock_frees: "taken (unlock p m) = taken m - {key p}"
begin

lemma guard_scope:
  assumes "fst (lock t p m)"
  shows "taken (unlock p (snd (lock t p m))) = taken m" and "key p \<notin> taken m"
  using assms lock_free [of p m t] lock_taken [of p m t] unlock_frees by (cases "key p \<in> taken m"; auto)+

lemma lock_iff: "fst (lock t p m) \<longleftrightarrow> key p \<notin> taken m"
  using lock_free lock_taken by blast

end

interpretation fm: lock_manager "UniquePath cp" locked_files "LockFile cp" "UnlockFile cp" for cp
  by unfold_locales (auto simp: LockFile_def UnlockFile_def Let_def)

interpretation fmr: lock_manager "UniquePath cp" locked_files "LockFile_resume cp" "UnlockFile cp" for cp
  by unfold_locales (auto simp: LockFile_resume_def UnlockFile_def Let_def)

section \<open>Invariant\<close>

fun read_key :: "string \<Rightarrow> file_pc \<Rightarrow> string option" where
  "read_key cp (HasRead oper h name) = Some (UniquePath cp (ToAbsolute h name))"
| "read_key cp (WaitWrite oper h name) = Some (UniquePath cp (ToAbsolute h name))"
| "read_key cp (HasBoth oper h name) = Some (UniquePath cp (ToAbsolute h name))"
| "read_key cp (Leaving h name) = Some (UniquePath cp (ToAbsolute h name))"
| "read_key cp _ = None"

fun write_key :: "string \<Rightarrow> file_pc \<Rightarrow> string option" where
  "write_key cp (HasBoth oper h name) = Some (UniquePath cp (ToAbsolute h name))"
| "write_key cp _ = None"

text \<open>
  \<open>held key pc\<close> are the keys that the threads hold. No two threads hold the same one; the
  locks taken in a manager are the keys held; a write lock is held only inside the read lock
  of the same key, which is why nobody ever waits for a write lock.
\<close>

definition held :: "('p \<Rightarrow> 'k option) \<Rightarrow> (nat \<Rightarrow> 'p) \<Rightarrow> 'k set" where
  "held key pc = {k. \<exists>t. key (pc t) = Some k}"

definition exclusive :: "('p \<Rightarrow> 'k option) \<Rightarrow> (nat \<Rightarrow> 'p) \<Rightarrow> bool" where
  "exclusive key pc \<longleftrightarrow>
     (\<forall>t u k. key (pc t) = Some k \<longrightarrow> key (pc u) = Some k \<longrightarrow> t = u)"

definition lockset_inv ::
  "string \<Rightarrow> (nat \<Rightarrow> file_pc) \<Rightarrow> string set \<Rightarrow> string set \<Rightarrow> bool" where
  "lockset_inv cp pc R W \<longleftrightarrow>
     exclusive (read_key cp) pc \<and> R = held (read_key cp) pc \<and> W = held (write_key cp) pc \<and>
     (\<forall>t oper h name. pc t \<noteq> WaitWrite oper h name)"

definition locks_inv :: "string \<Rightarrow> 'f fstate \<Rightarrow> bool" where
  "locks_inv cp st \<longleftrightarrow>
     lockset_inv cp (pcs st) (locked_files (read_manager st)) (locked_files (write_manager st)) \<and>
     lock_wait (write_manager st) = [] \<and> lock_woken (write_manager st) = []"

definition waiters_inv :: "string \<Rightarrow> 'f fstate \<Rightarrow> bool" where
  "waiters_inv cp st \<longleftrightarrow>
     (\<forall>t oper h name. pcs st t = WaitRead oper h name \<longrightarrow>
        (t, UniquePath cp (ToAbsolute h name)) \<in>
          set (lock_wait (read_manager st)) \<union> set (lock_woken (read_manager st))) \<and>
     (lock_wait (read_manager st) \<noteq> [] \<longrightarrow>
        locked_files (read_manager st) \<noteq> {} \<or> lock_notify (read_manager st) \<noteq> 0 \<or>
        lock_woken (read_manager st) \<noteq> [])"

lemma held_stay: "key pc' = key (pc t) \<Longrightarrow> held key (pc(t := pc')) = held key pc"
  unfolding held_def by (metis fun_upd_apply)

lemma held_enter:
  "key (pc t) = None \<Longrightarrow> key pc' = Some k \<Longrightarrow> held key (pc(t := pc')) = insert k (held key pc)"
  unfolding held_def by auto (metis option.distinct(1))

lemma held_leave:
  assumes "exclusive key pc" and "key (pc t) = Some k" and "key pc' = None"
  shows "held key (pc(t := pc')) = held key pc - {k}"
proof -
  have "u \<noteq> t" if "key (pc u) = Some x" "x \<noteq> k" for u x using that assms(2) by auto
  moreover have "u = t" if "key (pc u) = Some k" for u
    using that assms(1,2) by (auto simp: exclusive_def)
  ultimately show ?thesis using assms(3) by (auto simp: held_def)
qed

lemma exclusive_leave:
  "exclusive key pc \<Longrightarrow> key pc' = None \<Longrightarrow> exclusive key (pc(t := pc'))"
  by (auto simp: exclusive_def)

lemma exclusive_stay:
  assumes "exclusive key pc" and "key pc' = key (pc t)"
  shows "exclusive key (pc(t := pc'))"
proof -
  have "key ((pc(t := pc')) u) = key (pc u)" for u using assms(2) by simp
  then show ?thesis using assms(1) unfolding exclusive_def by metis
qed

lemma exclusive_enter:
  "exclusive key pc \<Longrightarrow> k \<notin> held key pc \<Longrightarrow> key pc' = Some k \<Longrightarrow> exclusive key (pc(t := pc'))"
  by (auto simp: exclusive_def held_def)

lemma write_key_read_key: "write_key cp pc = Some k \<Longrightarrow> read_key cp pc = Some k"
  by (cases pc) auto

lemma write_exclusive: "exclusive (read_key cp) pc \<Longrightarrow> exclusive (write_key cp) pc"
  unfolding exclusive_def by (metis write_key_read_key)

lemma lockset_wait:
  assumes "lockset_inv cp pc R W" and "read_key cp (pc t) = None" and "read_key cp pc' = None"
  shows "lockset_inv cp (pc(t := pc')) R W"
proof -
  have "write_key cp (pc t) = None" "write_key cp pc' = None"
    using assms(2,3) write_key_read_key by (metis not_None_eq)+
  then show ?thesis
    using assms by (auto simp: lockset_inv_def exclusive_leave held_stay)
qed

lemma lockset_enter:
  assumes "lockset_inv cp pc R W" and "read_key cp (pc t) = None"
    and "k = UniquePath cp (ToAbsolute h name)" and "k \<notin> R"
  shows "lockset_inv cp (pc(t := HasRead oper h name)) (insert k R) W"
proof -
  have "write_key cp (pc t) = None" using assms(2) write_key_read_key by (metis not_None_eq)
  then show ?thesis
    using assms by (auto simp: lockset_inv_def exclusive_enter held_enter held_stay)
qed

lemma lockset_write_free:
  assumes "lockset_inv cp pc R W" and "pc t = HasRead oper h name"
  shows "UniquePath cp (ToAbsolute h name) \<notin> W"
proof
  assume "UniquePath cp (ToAbsolute h name) \<in> W"
  then obtain u where u: "write_key cp (pc u) = Some (UniquePath cp (ToAbsolute h name))"
    using assms(1) by (auto simp: lockset_inv_def held_def)
  then have "u = t"
    using assms write_key_read_key [OF u] by (auto simp: lockset_inv_def exclusive_def)
  then show False using u assms(2) by simp
qed

lemma lockset_write:
  assumes "lockset_inv cp pc R W" and "pc t = HasRead oper h name"
  shows "lockset_inv cp (pc(t := HasBoth oper h name)) R
    (insert (UniquePath cp (ToAbsolute h name)) W)"
  using assms by (auto simp: lockset_inv_def exclusive_stay held_enter held_stay)

lemma lockset_write_done:
  assumes "lockset_inv cp pc R W" and "pc t = HasBoth oper h name"
  shows "lockset_inv cp (pc(t := Leaving h name)) R (W - {UniquePath cp (ToAbsolute h name)})"
  using assms
  by (auto simp: lockset_inv_def exclusive_stay held_stay held_leave [OF write_exclusive])

lemma lockset_leave:
  assumes "lockset_inv cp pc R W" and "read_key cp (pc t) = Some k" and "write_key cp (pc t) = None"
  shows "lockset_inv cp (pc(t := Outside)) (R - {k}) W"
  using assms by (auto simp: lockset_inv_def exclusive_leave held_stay held_leave)

lemmas lockset_steps = lockset_wait lockset_enter lockset_write lockset_write_done lockset_leave

lemma locks_inv_call:
  assumes "locks_inv cp st" and "pcs st t = Outside"
  shows "locks_inv cp (file_call cp t oper h name st)"
  using assms by (auto simp: locks_inv_def file_call_def LockFile_def Let_def lockset_steps)

lemma locks_inv_advance:
  assumes "locks_inv cp st" and "file_advance cp ops t st = Ret st'"
  shows "locks_inv cp st'"
proof -
  note defs = locks_inv_def file_advance_def UnlockFile_def outcome_simps
  have step: "locks_inv cp st'" if "pcs st t = HasRead oper h name" "oper \<noteq> OpGet" for oper h name
    using assms that lockset_write_free [of cp "pcs st" _ _ t oper h name]
    by (cases oper) (auto simp: defs LockFile_def Let_def lockset_steps)
  show ?thesis
  proof (cases "pcs st t")
    case (HasRead oper h name)
    then show ?thesis
      using step assms by (cases "oper = OpGet") (auto simp: defs lockset_steps)
  qed (use assms in \<open>auto simp: defs lockset_steps\<close>)
qed

lemma locks_inv_resume:
  assumes "locks_inv cp st"
  shows "locks_inv cp (file_resume cp t st)"
proof -
  have "pcs st t \<noteq> WaitWrite oper h name" for oper h name
    using assms by (auto simp: locks_inv_def lockset_inv_def)
  then show ?thesis
    using assms
    by (cases "pcs st t")
      (auto simp: locks_inv_def file_resume_def LockFile_resume_def Let_def lockset_steps)
qed

lemma locks_inv_notify:
  assumes "locks_inv cp st"
  shows "notify_waiter i (read_manager st) = Some m \<Longrightarrow> locks_inv cp (st\<lparr>read_manager := m\<rparr>)"
    and "notify_waiter i (write_manager st) = Some m \<Longrightarrow> locks_inv cp (st\<lparr>write_manager := m\<rparr>)"
  using assms by (auto simp: locks_inv_def notify_waiter_def split: if_splits)

lemma locks_inv_step:
  "locks_inv cp st \<Longrightarrow> file_step cp ops a st = Ret st' \<Longrightarrow> locks_inv cp st'"
  by (cases a) (auto simp: locks_inv_call locks_inv_advance locks_inv_resume locks_inv_notify
      split: if_splits option.splits)

text \<open>
  No thread is left waiting with nothing to wake it: while a thread waits, some file is
  locked, or a notification is due, or a woken thread is about to run.
\<close>

lemma waiters_inv_call:
  assumes "waiters_inv cp st" and "pcs st t = Outside"
  shows "waiters_inv cp (file_call cp t oper h name st)"
  using assms by (auto simp: waiters_inv_def file_call_def LockFile_def Let_def)

lemma waiters_inv_update:
  assumes "waiters_inv cp st" and "\<forall>oper h name. pc \<noteq> WaitRead oper h name"
    and "lock_wait (read_manager st') = lock_wait (read_manager st)"
    and "lock_woken (read_manager st') = lock_woken (read_manager st)"
    and "read_manager st' = read_manager st \<or> lock_notify (read_manager st') \<noteq> 0"
    and "pcs st' = (pcs st)(t := pc)"
  shows "waiters_inv cp st'"
  using assms by (auto simp: waiters_inv_def)

lemma waiters_inv_advance:
  assumes "waiters_inv cp st" and "file_advance cp ops t st = Ret st'"
  shows "waiters_inv cp st'"
  using assms waiters_inv_update [OF assms(1), of _ st' t]
  by (cases "pcs st t")
    (auto simp: file_advance_def outcome_simps UnlockFile_def
      split: file_op.splits prod.splits if_splits)

lemma waiters_inv_resume:
  assumes "waiters_inv cp st" and "locks_inv cp st"
  shows "waiters_inv cp (file_resume cp t st)"
proof (cases "pcs st t")
  case (WaitRead oper h name)
  have keep: "(u, k) \<in> set xs \<Longrightarrow> u \<noteq> t \<Longrightarrow> (u, k) \<in> set (remove1 (t, k') xs)" for u k k' xs
    by (simp add: in_set_remove1)
  show ?thesis
    using assms(1) WaitRead keep
    by (fastforce simp: waiters_inv_def file_resume_def LockFile_resume_def Let_def)
next
  case (WaitWrite oper h name)
  then show ?thesis using assms(2) by (auto simp: locks_inv_def lockset_inv_def)
qed (use assms in \<open>simp_all add: file_resume_def\<close>)

lemma set_without_nth:
  "i < length xs \<Longrightarrow> set xs = insert (xs ! i) (set (take i xs @ drop (Suc i) xs))"
  using id_take_nth_drop [of i xs] by (metis set_append Un_insert_right list.simps(15))

lemma waiters_inv_notify:
  assumes "waiters_inv cp st" and "notify_waiter i (read_manager st) = Some m"
  shows "waiters_inv cp (st\<lparr>read_manager := m\<rparr>)"
  using assms set_without_nth [of i "lock_wait (read_manager st)"]
  by (auto simp: waiters_inv_def notify_waiter_def split: if_splits) blast

lemma waiters_inv_write:
  "waiters_inv cp st \<Longrightarrow> waiters_inv cp (st\<lparr>write_manager := m\<rparr>)"
  by (simp add: waiters_inv_def)

lemma waiters_inv_step:
  "waiters_inv cp st \<Longrightarrow> locks_inv cp st \<Longrightarrow> file_step cp ops a st = Ret st' \<Longrightarrow> waiters_inv cp st'"
  by (cases a) (auto simp: waiters_inv_call waiters_inv_advance waiters_inv_resume waiters_inv_notify
      waiters_inv_write split: if_splits option.splits)

lemma file_run_inv:
  "file_run cp ops as st = Ret st' \<Longrightarrow> locks_inv cp st \<Longrightarrow> waiters_inv cp st \<Longrightarrow>
   locks_inv cp st' \<and> waiters_inv cp st'"
proof (induction as arbitrary: st)
  case (Cons a as)
  then obtain st1 where "file_step cp ops a st = Ret st1" "file_run cp ops as st1 = Ret st'"
    by (auto simp: outcome_simps)
  then show ?case using Cons locks_inv_step waiters_inv_step by blast
qed simp

lemma new_fstate_inv: "locks_inv cp (new_fstate s)" "waiters_inv cp (new_fstate s)"
  by (simp_all add: locks_inv_def waiters_inv_def lockset_inv_def new_fstate_def new_mgr_def
      exclusive_def held_def)

lemmas file_reachable = file_run_inv [OF _ new_fstate_inv]

section \<open>Properties\<close>

text \<open>
  C13. Mutual exclusion of the file operations. Whatever the sessions do and however the
  scheduler interleaves them, two different threads are never both inside the lock of the
  same file; a thread that changes the file system holds the read lock of the file as well
  as the write lock, and no thread ever waits for a write lock.
\<close>

theorem file_ops_exclusive:
  assumes "file_run cp ops as (new_fstate s) = Ret st"
  shows "(read_key cp (pcs st t) = Some k \<longrightarrow> read_key cp (pcs st u) = Some k \<longrightarrow> t = u) \<and>
    (write_key cp (pcs st t) = Some k \<longrightarrow>
       k \<in> locked_files (read_manager st) \<and> k \<in> locked_files (write_manager st)) \<and>
    pcs st t \<noteq> WaitWrite oper h name"
  using file_reachable [OF assms] write_key_read_key [of cp "pcs st t" k]
  by (auto simp: locks_inv_def lockset_inv_def exclusive_def held_def)

theorem file_ops_exclusive_witness:
  "\<exists>st. file_run ''/'' (flat_fs ''/srv'')
      [Call 0 OpGet (new_FileHandler ''/srv'') ''a'', Call 1 OpDelete (new_FileHandler ''/srv'') ''./a'']
      (new_fstate Map.empty) = Ret st \<and>
    pcs st 1 = WaitRead OpDelete (new_FileHandler ''/srv'') ''./a'' \<and>
    (read_key ''/'' (pcs st 0) = Some ''/srv/a'' \<longrightarrow> read_key ''/'' (pcs st 1) = Some ''/srv/a'' \<longrightarrow>
      (0::nat) = 1) \<and>
    (write_key ''/'' (pcs st 0) = Some ''/srv/a'' \<longrightarrow> ''/srv/a'' \<in> locked_files (read_manager st) \<and>
      ''/srv/a'' \<in> locked_files (write_manager st)) \<and>
    pcs st 0 \<noteq> WaitWrite OpGet (new_FileHandler ''/srv'') ''a''"
proof -
  have key: "UniquePath ''/'' ''/srv/a'' = ''/srv/a''" "UniquePath ''/'' ''/srv/./a'' = ''/srv/a''"
    by (simp_all add: UniquePath_def is_absolute_def lexically_normal_def normal_step_def Let_def)
  have "\<exists>st. file_run ''/'' (flat_fs ''/srv'')
      [Call 0 OpGet (new_FileHandler ''/srv'') ''a'', Call 1 OpDelete (new_FileHandler ''/srv'') ''./a'']
      (new_fstate Map.empty) = Ret st \<and>
    pcs st 1 = WaitRead OpDelete (new_FileHandler ''/srv'') ''./a''"
    by (simp add: file_call_def LockFile_def new_fstate_def new_mgr_def ToAbsolute_def
        FileHandler_GetCurrentDir_def new_FileHandler_def path_append_def is_absolute_def
        has_filename_def key Let_def)
  then show ?thesis using file_ops_exclusive by metis
qed



text \<open>
  A notification can wake the wrong thread. All files share one condition variable and
  \<open>UnlockFile\<close> notifies one waiter: after threads 0 and 1 locked two files and threads 2 and 3
  waited for one each, the release of the first file may wake the thread that waits for the
  second. The first file is then free, the thread that waits for it is asleep, and no
  notification is due; it goes on waiting until an unrelated file is released.
\<close>

theorem wakeup_misdirected:
  "\<exists>as st. file_run ''/'' (flat_fs ''/'') as (new_fstate Map.empty) = Ret st \<and>
    lock_wait (read_manager st) = [(2, ''/f''), (3, ''/g'')] \<and> ''/f'' \<notin> locked_files (read_manager st) \<and>
    lock_woken (read_manager st) = [] \<and> lock_notify (read_manager st) = 0"
proof -
  let ?h = "new_FileHandler ''/''"
  have key: "UniquePath ''/'' (ToAbsolute ?h ''f'') = ''/f''" "UniquePath ''/'' (ToAbsolute ?h ''g'') = ''/g''"
    by (simp_all add: UniquePath_def is_absolute_def lexically_normal_def normal_step_def Let_def
        ToAbsolute_def FileHandler_GetCurrentDir_def new_FileHandler_def path_append_def has_filename_def)
  show ?thesis
    by (rule exI [of _ "[Call 0 OpGet ?h ''f'', Call 1 OpGet ?h ''g'', Call 2 OpGet ?h ''f'',
          Call 3 OpGet ?h ''g'', Advance 0, NotifyRead 1, Resume 3]"])
      (simp add: file_call_def LockFile_def new_fstate_def new_mgr_def Let_def key file_advance_def
        file_op_body_def UnlockFile_def notify_waiter_def file_resume_def LockFile_resume_def
        outcome_simps)
qed

text \<open>
  Every lock key is canonical: whatever name a session uses, relative or with dots and
  repeated separators, the key is an absolute path without \<open>.\<close> and \<open>..\<close> components, and
  computing the key of a key changes nothing, from any working directory.
\<close>

theorem UniquePath_canonical:
  assumes "is_absolute cp"
  shows "is_absolute (UniquePath cp p) \<and>
    (\<forall>c\<in>set (split_on (CHR ''/'') (UniquePath cp p)). c \<noteq> ''.'' \<and> c \<noteq> ''..'') \<and>
    UniquePath cp' (UniquePath cp p) = UniquePath cp p"
proof -
  obtain cs t where f: "UniquePath cp p = ''/'' @ join_path cs @ (if t \<and> cs \<noteq> [] then ''/'' else [])"
      "\<forall>c\<in>set cs. plain_comp c"
    using UniquePath_form [OF assms] by blast
  note n = normal_of_form [OF f(2,1)]
  have "UniquePath cp' (UniquePath cp p) = lexically_normal (UniquePath cp p)"
    using n(2) by (simp add: UniquePath_def [of cp'])
  then show ?thesis using n by metis
qed

theorem UniquePath_canonical_witness:
  "is_absolute ''/a/b/'' \<and> UniquePath ''/srv'' ''../a//b/.'' = ''/a/b/'' \<and>
    UniquePath ''/tmp'' (UniquePath ''/srv'' ''../a//b/.'') = ''/a/b/''"
proof -
  have "UniquePath ''/srv'' ''../a//b/.'' = ''/a/b/''"
    by (simp add: UniquePath_def is_absolute_def lexically_normal_def path_append_def has_filename_def
        normal_step_def)
  moreover have "is_absolute ''/srv''" by (simp add: is_absolute_def)
  ultimately show ?thesis using UniquePath_canonical [of "''/srv''" "''../a//b/.''" "''/tmp''"] by simp
qed

end
