(* ===== verification/File_Interface.thy ===== *)
theory File_Interface
  imports File_Access
begin

text \<open>
  The interface \<open>IFileHandler\<close> of \<open>file_handler_interface.h\<close> and its two implementations, \<open>FileHandler\<close>
  and \<open>ThreadSafeFileHandler\<close>. An object of the interface is a record with its eight virtual
  methods; \<open>'o\<close> is the object's own state and \<open>'w\<close> the world it shares with others: the file system,
  and for the thread-safe handler the two lock managers with their threads as well.

  The locale \<open>same_handler\<close> states when one implementation can take the place of another; it is
  interpreted with the two classes, for a thread that is not disturbed. For threads that do run
  concurrently the operations take effect one after the other, in the order in which they complete.
\<close>

section \<open>The interface\<close>

record ('o, 'w) IFileHandler =
  if_Get :: "string \<Rightarrow> 'o \<Rightarrow> 'w \<Rightarrow> (bytes \<times> 'w) outcome"
  if_Put :: "string \<Rightarrow> bytes \<Rightarrow> 'o \<Rightarrow> 'w \<Rightarrow> (bool \<times> 'w) outcome"
  if_Delete :: "string \<Rightarrow> 'o \<Rightarrow> 'w \<Rightarrow> (bool \<times> 'w) outcome"
  if_List :: "'o \<Rightarrow> 'w \<Rightarrow> string list outcome"
  if_ChangeDir :: "string \<Rightarrow> 'o \<Rightarrow> bool \<times> 'o"
  if_UpDir :: "'o \<Rightarrow> bool \<times> 'o"
  if_MakeDir :: "string \<Rightarrow> 'o \<Rightarrow> 'w \<Rightarrow> (bool \<times> 'w) outcome"
  if_GetCurrentDir :: "'o \<Rightarrow> string"

definition FileHandler_methods :: "'f fs_ops \<Rightarrow> (file_handler, 'f) IFileHandler" where
  "FileHandler_methods ops =
     \<lparr>if_Get = (\<lambda>filename h f. Ret (FileHandler_Get ops filename h f, f)),
      if_Put = (\<lambda>filename cs h f. Ret (FileHandler_Put ops filename cs h f)),
      if_Delete = FileHandler_Delete ops,
      if_List = FileHandler_List ops,
      if_ChangeDir = FileHandler_ChangeDir,
      if_UpDir = FileHandler_UpDir,
      if_MakeDir = FileHandler_MakeDir ops,
      if_GetCurrentDir = FileHandler_GetCurrentDir\<rparr>"

text \<open>
  A locking method called by thread \<open>t\<close> while nobody else moves: the guards, the work and the
  destructors of the guards. The caller blocks if a guard has to wait. The managers and the
  methods that are not overridden are those of the base class.
\<close>

definition locked_call ::
  "string \<Rightarrow> 'f fs_ops \<Rightarrow> nat \<Rightarrow> file_op \<Rightarrow> string \<Rightarrow> file_handler \<Rightarrow> 'f fstate \<Rightarrow> (fs_result \<times> 'f fstate) outcome" where
  "locked_call cp ops t oper name h st =
     obind (file_run cp ops (Call t oper h name # replicate (if oper = OpGet then 1 else 3) (Advance t)) st)
       (\<lambda>st'. if pcs st' t = Outside then Ret (snd (last (results st')), st') else Block)"

fun got_bytes :: "fs_result \<Rightarrow> bytes" where
  "got_bytes (GotBytes bs) = bs"
| "got_bytes (GotBool b) = []"

fun got_bool :: "fs_result \<Rightarrow> bool" where
  "got_bool (GotBytes bs) = False"
| "got_bool (GotBool b) = b"

definition ThreadSafeFileHandler_methods ::
  "string \<Rightarrow> 'f fs_ops \<Rightarrow> nat \<Rightarrow> (file_handler, 'f fstate) IFileHandler" where
  "ThreadSafeFileHandler_methods cp ops t =
     \<lparr>if_Get = (\<lambda>filename h st. obind (locked_call cp ops t OpGet filename h st) (\<lambda>(r, st'). Ret (got_bytes r, st'))),
      if_Put = (\<lambda>filename cs h st. obind (locked_call cp ops t (OpPut cs) filename h st) (\<lambda>(r, st'). Ret (got_bool r, st'))),
      if_Delete = (\<lambda>filename h st. obind (locked_call cp ops t OpDelete filename h st) (\<lambda>(r, st'). Ret (got_bool r, st'))),
      if_List = (\<lambda>h st. FileHandler_List ops h (fs st)),
      if_ChangeDir = FileHandler_ChangeDir,
      if_UpDir = FileHandler_UpDir,
      if_MakeDir = (\<lambda>name h st. obind (locked_call cp ops t OpMakeDir name h st) (\<lambda>(r, st'). Ret (got_bool r, st'))),
      if_GetCurrentDir = FileHandler_GetCurrentDir\<rparr>"

section \<open>One implementation in the place of another\<close>

text \<open>A call of a method with its arguments, what a client sees of it, and a sequence of calls.\<close>

datatype method_call =
    CallGet string | CallPut string bytes | CallDelete string | CallList | CallChangeDir string
  | CallUpDir | CallMakeDir string | CallGetCurrentDir

datatype answer = Bytes bytes | Success bool | Names "string list" | Directory string

fun invoke :: "('o, 'w) IFileHandler \<Rightarrow> method_call \<Rightarrow> 'o \<Rightarrow> 'w \<Rightarrow> (answer \<times> 'o \<times> 'w) outcome" where
  "invoke I (CallGet n) ob w = obind (if_Get I n ob w) (\<lambda>(bs, w'). Ret (Bytes bs, ob, w'))"
| "invoke I (CallPut n cs) ob w = obind (if_Put I n cs ob w) (\<lambda>(b, w'). Ret (Success b, ob, w'))"
| "invoke I (CallDelete n) ob w = obind (if_Delete I n ob w) (\<lambda>(b, w'). Ret (Success b, ob, w'))"
| "invoke I CallList ob w = obind (if_List I ob w) (\<lambda>ns. Ret (Names ns, ob, w))"
| "invoke I (CallChangeDir d) ob w = (case if_ChangeDir I d ob of (b, ob') \<Rightarrow> Ret (Success b, ob', w))"
| "invoke I CallUpDir ob w = (case if_UpDir I ob of (b, ob') \<Rightarrow> Ret (Success b, ob', w))"
| "invoke I (CallMakeDir n) ob w = obind (if_MakeDir I n ob w) (\<lambda>(b, w'). Ret (Success b, ob, w'))"
| "invoke I CallGetCurrentDir ob w = Ret (Directory (if_GetCurrentDir I ob), ob, w)"

fun invokes :: "('o, 'w) IFileHandler \<Rightarrow> method_call list \<Rightarrow> 'o \<Rightarrow> 'w \<Rightarrow> (answer list \<times> 'o \<times> 'w) outcome" where
  "invokes I [] ob w = Ret ([], ob, w)"
| "invokes I (c # cs) ob w =
     obind (invoke I c ob w) (\<lambda>(r, ob', w'). obind (invokes I cs ob' w') (\<lambda>(rs, ob'', w''). Ret (r # rs, ob'', w'')))"

text \<open>
  \<open>J\<close> in the place of \<open>I\<close>: from a world that is \<open>ready\<close>, every method of \<open>J\<close> answers what \<open>I\<close> answers
  in the world it stands for, leaves a world that stands for what \<open>I\<close> leaves, and is ready again.
\<close>

locale same_handler =
  fixes I :: "('o, 'w) IFileHandler" and J :: "('o, 'v) IFileHandler"
    and stands_for :: "'v \<Rightarrow> 'w" and ready :: "'v \<Rightarrow> bool"
  assumes Ret_call: "ready v \<Longrightarrow> invoke I c ob (stands_for v) = Ret (r, ob', w') \<Longrightarrow>
      \<exists>v'. invoke J c ob v = Ret (r, ob', v') \<and> stands_for v' = w' \<and> ready v'"
    and Crash_call: "ready v \<Longrightarrow> invoke I c ob (stands_for v) = Crash \<Longrightarrow> invoke J c ob v = Crash"
    and no_Block: "ready v \<Longrightarrow> invoke I c ob (stands_for v) \<noteq> Block"
begin

lemma same_answers:
  "ready v \<Longrightarrow>
    (\<exists>rs ob' v'. invokes J cs ob v = Ret (rs, ob', v') \<and> ready v' \<and>
       invokes I cs ob (stands_for v) = Ret (rs, ob', stands_for v')) \<or>
    invokes J cs ob v = Crash \<and> invokes I cs ob (stands_for v) = Crash"
proof (induction cs arbitrary: ob v)
  case (Cons c cs)
  show ?case
  proof (cases "invoke I c ob (stands_for v)")
    case (Ret x)
    obtain r ob' w' where x: "x = (r, ob', w')" by (cases x)
    then obtain v' where "invoke J c ob v = Ret (r, ob', v')" "stands_for v' = w'" "ready v'"
      using Ret_call [OF Cons.prems] Ret by blast
    then show ?thesis using Cons.IH [of v' ob'] Ret x by auto
  next
    case Block
    then show ?thesis using no_Block [OF Cons.prems] by simp
  next
    case Crash
    then show ?thesis using Crash_call [OF Cons.prems] by simp
  qed
qed simp

end

section \<open>The thread-safe handler, undisturbed\<close>

text \<open>No file is locked and the thread is not inside an operation.\<close>

definition idle :: "nat \<Rightarrow> 'f fstate \<Rightarrow> bool" where
  "idle t st \<longleftrightarrow> locked_files (read_manager st) = {} \<and> locked_files (write_manager st) = {} \<and> pcs st t = Outside"

lemma locked_call_alone:
  assumes "idle t st"
  shows "file_op_body ops oper name h (fs st) = Ret (r, f) \<Longrightarrow>
      \<exists>st'. locked_call cp ops t oper name h st = Ret (r, st') \<and> fs st' = f \<and> idle t st'"
    and "file_op_body ops oper name h (fs st) = Crash \<Longrightarrow> locked_call cp ops t oper name h st = Crash"
  using assms
  by (cases oper; auto simp: locked_call_def idle_def file_call_def file_advance_def LockFile_def UnlockFile_def
      Let_def eval_nat_numeral)+

lemmas method_defs = FileHandler_methods_def ThreadSafeFileHandler_methods_def file_op_body_def

lemma FileHandler_no_Block [simp]:
  "FileHandler_Delete ops n h f \<noteq> Block" "FileHandler_MakeDir ops n h f \<noteq> Block" "FileHandler_List ops h f \<noteq> Block"
  by (simp_all add: FileHandler_Delete_def FileHandler_MakeDir_def FileHandler_List_def split: option.splits)

lemma obind_stops:
  "obind m f = Crash \<longleftrightarrow> m = Crash \<or> (\<exists>x. m = Ret x \<and> f x = Crash)"
  "obind m f = Block \<longleftrightarrow> m = Block \<or> (\<exists>x. m = Ret x \<and> f x = Block)"
  by (cases m; simp)+

text \<open>The operation that a locking method performs, and its answer.\<close>

fun locking :: "method_call \<Rightarrow> (file_op \<times> string) option" where
  "locking (CallGet n) = Some (OpGet, n)"
| "locking (CallPut n cs) = Some (OpPut cs, n)"
| "locking (CallDelete n) = Some (OpDelete, n)"
| "locking (CallMakeDir n) = Some (OpMakeDir, n)"
| "locking _ = None"

fun answer_of :: "fs_result \<Rightarrow> answer" where
  "answer_of (GotBytes bs) = Bytes bs"
| "answer_of (GotBool b) = Success b"

lemma plain_locking:
  "locking c = Some (oper, n) \<Longrightarrow>
   invoke (FileHandler_methods ops) c h f = obind (file_op_body ops oper n h f) (\<lambda>(r, f'). Ret (answer_of r, h, f'))"
  by (cases c) (auto simp: method_defs split: prod.splits intro: obind_cong)

lemma safe_locking:
  assumes "locking c = Some (oper, n)" and "locked_call cp ops t oper n h st = Ret (r, st')"
    and "file_op_body ops oper n h f = Ret (r, f')"
  shows "invoke (ThreadSafeFileHandler_methods cp ops t) c h st = Ret (answer_of r, h, st')"
  using assms by (cases c) (auto simp: method_defs obind_eq_Ret split: prod.splits)

lemma safe_locking_Crash:
  "locking c = Some (oper, n) \<Longrightarrow> locked_call cp ops t oper n h st = Crash \<Longrightarrow>
   invoke (ThreadSafeFileHandler_methods cp ops t) c h st = Crash"
  by (cases c) (auto simp: ThreadSafeFileHandler_methods_def)

lemma thread_safe_Ret:
  assumes "idle t st" and "invoke (FileHandler_methods ops) c h (fs st) = Ret (r, h', f)"
  shows "\<exists>st'. invoke (ThreadSafeFileHandler_methods cp ops t) c h st = Ret (r, h', st') \<and> fs st' = f \<and> idle t st'"
proof (cases "locking c")
  case None
  then show ?thesis
    using assms by (cases c) (auto simp: method_defs obind_eq_Ret split: prod.splits)
next
  case (Some on)
  then obtain oper n where on: "locking c = Some (oper, n)" by (cases on) simp
  then obtain q where q: "file_op_body ops oper n h (fs st) = Ret (q, f)" "r = answer_of q" "h' = h"
    using assms(2) by (auto simp: plain_locking obind_eq_Ret)
  then obtain st' where st': "locked_call cp ops t oper n h st = Ret (q, st')" "fs st' = f" "idle t st'"
    using locked_call_alone(1) [OF assms(1) q(1)] by blast
  then show ?thesis using safe_locking [OF on st'(1) q(1)] q by simp
qed

lemma thread_safe_Crash:
  assumes "idle t st" and "invoke (FileHandler_methods ops) c h (fs st) = Crash"
  shows "invoke (ThreadSafeFileHandler_methods cp ops t) c h st = Crash"
proof (cases "locking c")
  case None
  then show ?thesis
    using assms by (cases c) (auto simp: method_defs obind_stops split: prod.splits)
next
  case (Some on)
  then obtain oper n where on: "locking c = Some (oper, n)" by (cases on) simp
  then have "file_op_body ops oper n h (fs st) = Crash"
    using assms(2) by (auto simp: plain_locking obind_stops)
  then show ?thesis using locked_call_alone(2) [OF assms(1)] safe_locking_Crash [OF on] by blast
qed

lemma FileHandler_call_no_Block: "invoke (FileHandler_methods ops) c h f \<noteq> Block"
  by (cases c) (auto simp: FileHandler_methods_def obind_stops split: prod.splits)

interpretation tsfh: same_handler "FileHandler_methods ops" "ThreadSafeFileHandler_methods cp ops t" fs "idle t"
  for ops cp t
  by unfold_locales (simp_all add: thread_safe_Ret thread_safe_Crash FileHandler_call_no_Block)

section \<open>Concurrent operations take effect one at a time\<close>

text \<open>
  The operation whose work an action does, if any, and the operations that a run has completed,
  in the order in which their work was done.
\<close>

fun worked :: "file_action \<Rightarrow> 'f fstate \<Rightarrow> (nat \<times> file_op \<times> file_handler \<times> string) list" where
  "worked (Advance t) st =
     (case pcs st t of
        HasRead oper h name \<Rightarrow> if oper = OpGet then [(t, oper, h, name)] else []
      | HasBoth oper h name \<Rightarrow> [(t, oper, h, name)]
      | _ \<Rightarrow> [])"
| "worked _ st = []"

fun completed :: "string \<Rightarrow> 'f fs_ops \<Rightarrow> file_action list \<Rightarrow> 'f fstate \<Rightarrow> (nat \<times> file_op \<times> file_handler \<times> string) list"
where
  "completed cp ops [] st = []"
| "completed cp ops (a # as) st =
     (case file_step cp ops a st of Ret st' \<Rightarrow> worked a st @ completed cp ops as st' | _ \<Rightarrow> [])"

text \<open>The specification: plain file handlers, one operation after the other.\<close>

fun one_at_a_time ::
  "'f fs_ops \<Rightarrow> (nat \<times> file_op \<times> file_handler \<times> string) list \<Rightarrow> 'f \<Rightarrow> ((nat \<times> fs_result) list \<times> 'f) outcome"
where
  "one_at_a_time ops [] f = Ret ([], f)"
| "one_at_a_time ops ((t, oper, h, name) # cs) f =
     obind (file_op_body ops oper name h f) (\<lambda>(r, f').
       obind (one_at_a_time ops cs f') (\<lambda>(rs, f''). Ret ((t, r) # rs, f'')))"

lemma one_at_a_time_append:
  "one_at_a_time ops (cs @ ds) f =
     obind (one_at_a_time ops cs f) (\<lambda>(rs, f'). obind (one_at_a_time ops ds f') (\<lambda>(qs, f''). Ret (rs @ qs, f'')))"
proof (induction ops cs f rule: one_at_a_time.induct)
  case (2 ops t oper h name cs f)
  then show ?case by (cases "file_op_body ops oper name h f") (auto simp: split_def)
qed (simp add: split_def)

lemma step_works:
  assumes "file_step cp ops a st = Ret st'"
  shows "\<exists>rs. one_at_a_time ops (worked a st) (fs st) = Ret (rs, fs st') \<and> results st' = results st @ rs"
proof (cases a)
  case (Advance t)
  then show ?thesis
    using assms
    by (cases "pcs st t")
      (auto simp: file_advance_def outcome_simps split: file_op.splits prod.splits if_splits)
qed (use assms in \<open>auto simp: file_call_def file_resume_def split: prod.splits file_pc.splits option.splits\<close>)

lemma run_works:
  "file_run cp ops as st = Ret st' \<Longrightarrow>
   \<exists>rs. one_at_a_time ops (completed cp ops as st) (fs st) = Ret (rs, fs st') \<and> results st' = results st @ rs"
proof (induction as arbitrary: st)
  case (Cons a as)
  then obtain st1 where st1: "file_step cp ops a st = Ret st1" "file_run cp ops as st1 = Ret st'"
    by (auto simp: obind_eq_Ret)
  then show ?case
    using step_works [OF st1(1)] Cons.IH [OF st1(2)] by (auto simp: one_at_a_time_append)
qed simp

section \<open>Properties\<close>



text \<open>
  C36. The thread-safe file handler can take the place of the plain one. A thread that finds no file
  locked and is not disturbed gets from any sequence of calls of the interface, through the
  locking methods, exactly the answers, the current directory and the file system that it would get
  from the plain handler, and leaves no file locked; the calls crash exactly if the plain ones do, and
  never block.
\<close>

theorem thread_safe_handler_equivalent:
  assumes "idle t st"
  shows "(\<exists>rs h' st'. invokes (ThreadSafeFileHandler_methods cp ops t) cs h st = Ret (rs, h', st') \<and> idle t st' \<and>
      invokes (FileHandler_methods ops) cs h (fs st) = Ret (rs, h', fs st')) \<or>
    invokes (ThreadSafeFileHandler_methods cp ops t) cs h st = Crash \<and>
      invokes (FileHandler_methods ops) cs h (fs st) = Crash"
  by (rule tsfh.same_answers [OF assms])

theorem thread_safe_handler_equivalent_witness:
  "\<exists>h' st'. invokes (ThreadSafeFileHandler_methods ''/'' (flat_fs ''/'') 3) [CallPut ''a'' [7], CallGet ''a'']
       (new_FileHandler ''/'') (new_fstate Map.empty) = Ret ([Success True, Bytes [7]], h', st') \<and> idle 3 st'"
proof -
  have i: "idle 3 (new_fstate Map.empty)" by (simp add: idle_def new_fstate_def new_mgr_def)
  have "\<exists>h' f. invokes (FileHandler_methods (flat_fs ''/'')) [CallPut ''a'' [7], CallGet ''a'']
       (new_FileHandler ''/'') (fs (new_fstate Map.empty)) = Ret ([Success True, Bytes [7]], h', f)"
    by (simp add: FileHandler_methods_def FileHandler_Put_def FileHandler_Get_def flat_fs_def)
  then show ?thesis
    using thread_safe_handler_equivalent [OF i, of "''/''" "flat_fs ''/''" "[CallPut ''a'' [7], CallGet ''a'']" "new_FileHandler ''/''"]
    by auto
qed

end
