(* ===== verification/Command_Ids.thy ===== *)
theory Command_Ids
  imports Base
begin

text \<open>
  Model of \<open>project1_2/server/server_tasks/command_ids\<close>: the set of ids of the GET and PUT
  commands that are running, shared by all agents of the server. \<open>Insert\<close>, \<open>Delete\<close> and \<open>Contains\<close>
  hold the mutex for their bodies, so each of them is one step. \<open>GenerateID\<close> looks for an id by
  counting up; with all 65536 ids taken the loop does not end, which is the value \<open>None\<close> here. It
  holds no lock; here it is a call that is not disturbed, and \<open>Command_Id_Races\<close> has its steps.

  The locale \<open>id_source\<close> states the contract the agents rely on: a generated id is not in
  use, and registering it makes the next one different.
\<close>

section \<open>State and operations\<close>

record command_ids =
  active :: "u16 set"
  last_id :: u16

definition new_command_ids :: command_ids where
  "new_command_ids = \<lparr>active = {}, last_id = 0\<rparr>"

definition Insert :: "u16 \<Rightarrow> command_ids \<Rightarrow> command_ids" where
  "Insert i st = st\<lparr>active := insert i (active st)\<rparr>"

definition Delete :: "u16 \<Rightarrow> command_ids \<Rightarrow> command_ids" where
  "Delete i st = st\<lparr>active := active st - {i}\<rparr>"

definition Contains :: "u16 \<Rightarrow> command_ids \<Rightarrow> bool" where
  "Contains i st \<longleftrightarrow> i \<in> active st"

partial_function (option) GenerateID :: "command_ids \<Rightarrow> (u16 \<times> command_ids) option" where
  "GenerateID st =
     (let st' = st\<lparr>last_id := last_id st + 1\<rparr>
      in if Contains (last_id st') st' then GenerateID st' else Some (last_id st', st'))"

section \<open>The contract of an id source\<close>

text \<open>
  \<open>allocate n st\<close> generates and registers \<open>n\<close> ids, the way the handlers of GET and PUT do.
\<close>

fun allocate :: "('s \<Rightarrow> ('i \<times> 's) option) \<Rightarrow> ('i \<Rightarrow> 's \<Rightarrow> 's) \<Rightarrow> nat \<Rightarrow> 's \<Rightarrow> ('i list \<times> 's) option" where
  "allocate gen reg 0 st = Some ([], st)"
| "allocate gen reg (Suc n) st =
     (case gen st of
        None \<Rightarrow> None
      | Some (i, st') \<Rightarrow>
          (case allocate gen reg n (reg i st') of
             None \<Rightarrow> None
           | Some (is, st'') \<Rightarrow> Some (i # is, st'')))"

locale id_source =
  fixes in_use :: "'s \<Rightarrow> 'i set"
    and gen :: "'s \<Rightarrow> ('i \<times> 's) option"
    and reg :: "'i \<Rightarrow> 's \<Rightarrow> 's"
    and universe :: "'i set"
  assumes gen_total: "finite (in_use st) \<Longrightarrow> \<not> universe \<subseteq> in_use st \<Longrightarrow>
      \<exists>i st'. gen st = Some (i, st') \<and> i \<in> universe \<and> i \<notin> in_use st \<and> in_use st' = in_use st"
    and reg_in_use: "in_use (reg i st) = insert i (in_use st)"
begin

lemma allocate_distinct:
  "finite (in_use st) \<Longrightarrow> finite (universe - in_use st) \<Longrightarrow> n \<le> card (universe - in_use st) \<Longrightarrow>
   \<exists>is st'. allocate gen reg n st = Some (is, st') \<and> length is = n \<and> distinct is \<and>
     set is \<subseteq> universe \<and> set is \<inter> in_use st = {} \<and> in_use st' = set is \<union> in_use st"
proof (induction n arbitrary: st)
  case 0
  then show ?case by simp
next
  case (Suc n)
  then have "card (universe - in_use st) \<noteq> 0" by linarith
  then have "\<not> universe \<subseteq> in_use st" by (metis Diff_eq_empty_iff card.empty)
  then obtain i st1 where i: "gen st = Some (i, st1)" "i \<in> universe" "i \<notin> in_use st"
      "in_use st1 = in_use st"
    using gen_total Suc.prems(1) by blast
  let ?st = "reg i st1"
  have use: "in_use ?st = insert i (in_use st)" using i(4) by (simp add: reg_in_use)
  have "universe - insert i (in_use st) = universe - in_use st - {i}" by auto
  then have "n \<le> card (universe - in_use ?st)" "finite (universe - in_use ?st)" "finite (in_use ?st)"
    using Suc.prems i(2,3) use by (auto simp: card_Diff_singleton)
  then show ?case using Suc.IH [of ?st] i use by auto
qed

end

section \<open>GenerateID\<close>

lemma Contains_simps [simp]:
  "Contains i (Insert j st) \<longleftrightarrow> i = j \<or> Contains i st"
  "Contains i (Delete j st) \<longleftrightarrow> i \<noteq> j \<and> Contains i st"
  by (auto simp: Contains_def Insert_def Delete_def)

lemma GenerateID_finds:
  "0 < k \<Longrightarrow> last_id st + of_nat k \<notin> active st \<Longrightarrow>
   \<exists>i. GenerateID st = Some (i, st\<lparr>last_id := i\<rparr>) \<and> i \<notin> active st"
proof (induction k arbitrary: st)
  case 0
  then show ?case by simp
next
  case (Suc k)
  show ?case
  proof (cases "last_id st + 1 \<in> active st")
    case False
    then show ?thesis by (subst GenerateID.simps) (simp add: Let_def Contains_def)
  next
    case True
    then have "0 < k" using Suc.prems by (cases k) auto
    then show ?thesis
      using Suc.IH [of "st\<lparr>last_id := last_id st + 1\<rparr>"] Suc.prems(2) True
      by (subst GenerateID.simps) (simp add: Let_def Contains_def add.assoc)
  qed
qed

lemma GenerateID_some:
  assumes "active st \<noteq> UNIV"
  shows "\<exists>i. GenerateID st = Some (i, st\<lparr>last_id := i\<rparr>) \<and> i \<notin> active st"
proof -
  from assms obtain x where x: "x \<notin> active st" by blast
  let ?d = "unat (x - last_id st) + 2 ^ 16"
  have "(2 ^ LENGTH(16) :: u16) = 0" by (rule word_exp_length_eq_0)
  then have "last_id st + of_nat ?d = x" by simp
  then have "last_id st + of_nat ?d \<notin> active st" using x by metis
  then show ?thesis by (rule GenerateID_finds [rotated]) simp
qed

interpretation cids: id_source active GenerateID Insert UNIV
proof
  fix st :: command_ids
  assume "\<not> UNIV \<subseteq> active st"
  then have "active st \<noteq> UNIV" by auto
  from GenerateID_some [OF this]
  show "\<exists>i st'. GenerateID st = Some (i, st') \<and> i \<in> UNIV \<and> i \<notin> active st \<and>
      active st' = active st"
    by auto
qed (simp add: Insert_def)

section \<open>Properties\<close>

text \<open>
  C32. \<open>GenerateID\<close> returns if and only if some id is free, and then it returns a free id and
  leaves the set of active ids alone; with all 65536 ids active it loops for ever.
\<close>

theorem GenerateID_returns_free:
  "(active st \<noteq> UNIV \<longrightarrow>
     (\<exists>i. GenerateID st = Some (i, st\<lparr>last_id := i\<rparr>) \<and> \<not> Contains i st)) \<and>
   (active st = UNIV \<longrightarrow> GenerateID st = None)"
proof -
  have "active st \<noteq> UNIV" if "GenerateID st = Some y" for y
  proof (rule GenerateID.raw_induct [of "\<lambda>st y. active st \<noteq> UNIV", OF _ that], goal_cases)
    case (1 rec st y)
    then show ?case
      using 1(1) [of "st\<lparr>last_id := last_id st + 1\<rparr>"]
      by (auto simp: Let_def Contains_def split: if_splits)
  qed
  then show ?thesis
    using GenerateID_some [of st] by (cases "GenerateID st") (auto simp: Contains_def)
qed

theorem GenerateID_returns_free_witness:
  "\<exists>i. GenerateID (Insert 1 new_command_ids) =
      Some (i, (Insert 1 new_command_ids)\<lparr>last_id := i\<rparr>) \<and> \<not> Contains i (Insert 1 new_command_ids)"
proof -
  have "(2 :: u16) \<notin> active (Insert 1 new_command_ids)"
    by (simp add: Insert_def new_command_ids_def)
  then have "active (Insert 1 new_command_ids) \<noteq> UNIV" by blast
  then show ?thesis using GenerateID_returns_free [of "Insert 1 new_command_ids"] by blast
qed

text \<open>
  As many commands as there are free ids can be started one after the other, and they
  all get different ids, none of which was in use.
\<close>

theorem command_ids_distinct:
  assumes "n + card (active st) \<le> 2 ^ 16"
  shows "\<exists>is st'. allocate GenerateID Insert n st = Some (is, st') \<and> length is = n \<and>
    distinct is \<and> set is \<inter> active st = {} \<and> active st' = set is \<union> active st"
proof -
  have "card (UNIV - active st) = 2 ^ 16 - card (active st)"
    by (simp add: card_Diff_subset card_word)
  then show ?thesis using cids.allocate_distinct [of st n] assms by auto
qed

theorem command_ids_distinct_witness:
  "\<exists>is st'. allocate GenerateID Insert 3 (Insert 1 new_command_ids) = Some (is, st') \<and>
    length is = 3 \<and> distinct is \<and> set is \<inter> {1} = {} \<and> active st' = set is \<union> {1}"
  using command_ids_distinct [of 3 "Insert 1 new_command_ids"]
  by (simp add: Insert_def new_command_ids_def)

end
