(* ===== verification/Command_Id_Races.thy ===== *)
theory Command_Id_Races
  imports Command_Ids
begin

text \<open>
  The agents of the FTP server allocate command ids concurrently (\<open>command_ids.cpp\<close>, and the handlers
  of GET and PUT in \<open>agent.cpp\<close>). \<open>Insert\<close>, \<open>Delete\<close> and \<open>Contains\<close> hold the mutex; \<open>GenerateID\<close> does not:
  it increments, reads and returns the member \<open>id_\<close>, which all agents share, outside of it. Here every
  load and store of \<open>id_\<close> and every critical section is a step of one agent, and the agents take
  their steps in any order.

  The lemmas: an agent that is not disturbed computes the \<open>GenerateID\<close> of \<open>Command_Ids\<close>; when no two
  agents allocate at the same time, the ids of the running commands are different and are the
  active ones; without that, two commands can get the same id.
\<close>

section \<open>State and steps\<close>

text \<open>
  Where an agent is in the handler of a GET or PUT: before it; before the increment; the increment has
  loaded the counter; it has stored it; the argument of \<open>Contains\<close> is evaluated; the loop has ended;
  the id is returned; the command runs under its id.
\<close>

datatype gen_pc =
    Resting
  | Incrementing
  | Loaded u16
  | Stored
  | Asking u16
  | Chosen
  | Got u16
  | Running u16

record gen_sys =
  gs_ids :: command_ids
  gs_agents :: "gen_pc list"

definition new_gen_sys :: "nat \<Rightarrow> gen_sys" where
  "new_gen_sys n = \<lparr>gs_ids = new_command_ids, gs_agents = replicate n Resting\<rparr>"

fun agent_step :: "gen_pc \<Rightarrow> command_ids \<Rightarrow> gen_pc \<times> command_ids" where
  "agent_step Resting ids = (Incrementing, ids)"
| "agent_step Incrementing ids = (Loaded (last_id ids), ids)"
| "agent_step (Loaded i) ids = (Stored, ids\<lparr>last_id := i + 1\<rparr>)"
| "agent_step Stored ids = (Asking (last_id ids), ids)"
| "agent_step (Asking i) ids = (if Contains i ids then Incrementing else Chosen, ids)"
| "agent_step Chosen ids = (Got (last_id ids), ids)"
| "agent_step (Got i) ids = (Running i, Insert i ids)"
| "agent_step (Running i) ids = (Resting, Delete i ids)"

definition gen_step :: "nat \<Rightarrow> gen_sys \<Rightarrow> gen_sys" where
  "gen_step t s =
     (if t < length (gs_agents s)
      then case agent_step (gs_agents s ! t) (gs_ids s) of
             (pc, ids) \<Rightarrow> s\<lparr>gs_ids := ids, gs_agents := (gs_agents s)[t := pc]\<rparr>
      else s)"

fun gen_run :: "nat list \<Rightarrow> gen_sys \<Rightarrow> gen_sys" where
  "gen_run [] s = s"
| "gen_run (t # ts) s = gen_run ts (gen_step t s)"

section \<open>Alone\<close>

fun alone :: "nat \<Rightarrow> gen_pc \<Rightarrow> command_ids \<Rightarrow> gen_pc \<times> command_ids" where
  "alone 0 pc ids = (pc, ids)"
| "alone (Suc n) pc ids = (case agent_step pc ids of (pc', ids') \<Rightarrow> alone n pc' ids')"

lemma gen_run_alone:
  "t < length (gs_agents s) \<Longrightarrow> alone n (gs_agents s ! t) (gs_ids s) = (pc, ids) \<Longrightarrow>
   gen_run (replicate n t) s = s\<lparr>gs_ids := ids, gs_agents := (gs_agents s)[t := pc]\<rparr>"
proof (induction n arbitrary: s)
  case (Suc n)
  obtain pc1 ids1 where st: "agent_step (gs_agents s ! t) (gs_ids s) = (pc1, ids1)" by fastforce
  let ?s = "s\<lparr>gs_ids := ids1, gs_agents := (gs_agents s)[t := pc1]\<rparr>"
  have "gen_step t s = ?s" using st Suc.prems(1) by (simp add: gen_step_def)
  then show ?case using Suc.IH [of ?s] Suc.prems st by simp
next
  case 0
  then show ?case by (cases s) auto
qed

lemma GenerateID_alone:
  assumes "GenerateID ids = Some r"
  shows "\<exists>n. alone n Incrementing ids = (Got (fst r), snd r)"
  using assms
proof (induction rule: GenerateID.raw_induct [rotated, consumes 1, case_names loop])
  case (loop rec ids r)
  let ?ids = "ids\<lparr>last_id := last_id ids + 1\<rparr>"
  show ?case
  proof (cases "Contains (last_id ?ids) ?ids")
    case True
    then obtain n where "alone n Incrementing ?ids = (Got (fst r), snd r)"
      using loop by (cases r) (auto simp: Let_def, blast)
    then have "alone (Suc (Suc (Suc (Suc n)))) Incrementing ids = (Got (fst r), snd r)"
      using True by simp
    then show ?thesis by blast
  next
    case False
    then have "alone 5 Incrementing ids = (Got (fst r), snd r)"
      using loop.hyps by (auto simp: Let_def eval_nat_numeral)
    then show ?thesis by blast
  qed
qed

section \<open>One agent allocates at a time\<close>

fun allocating :: "gen_pc \<Rightarrow> bool" where
  "allocating Resting \<longleftrightarrow> False"
| "allocating (Running i) \<longleftrightarrow> False"
| "allocating _ \<longleftrightarrow> True"

fun command_of :: "gen_pc \<Rightarrow> u16 list" where
  "command_of (Running i) = [i]"
| "command_of _ = []"

definition running_ids :: "gen_sys \<Rightarrow> u16 list" where
  "running_ids s = concat (map command_of (gs_agents s))"

text \<open>Every allocation starts when no other is going on.\<close>

fun one_by_one :: "nat list \<Rightarrow> gen_sys \<Rightarrow> bool" where
  "one_by_one [] s \<longleftrightarrow> True"
| "one_by_one (t # ts) s \<longleftrightarrow>
     (t < length (gs_agents s) \<longrightarrow> gs_agents s ! t = Resting \<longrightarrow> \<not> list_ex allocating (gs_agents s)) \<and>
     one_by_one ts (gen_step t s)"

text \<open>What the agent that allocates knows of the ids.\<close>

fun knows :: "gen_pc \<Rightarrow> command_ids \<Rightarrow> bool" where
  "knows (Loaded i) ids \<longleftrightarrow> i = last_id ids"
| "knows (Asking i) ids \<longleftrightarrow> i = last_id ids"
| "knows Chosen ids \<longleftrightarrow> \<not> Contains (last_id ids) ids"
| "knows (Got i) ids \<longleftrightarrow> \<not> Contains i ids"
| "knows _ ids \<longleftrightarrow> True"

definition ids_wf :: "gen_sys \<Rightarrow> bool" where
  "ids_wf s \<longleftrightarrow>
     length (filter allocating (gs_agents s)) \<le> 1 \<and> distinct (running_ids s) \<and>
     set (running_ids s) = active (gs_ids s) \<and> (\<forall>pc \<in> set (gs_agents s). knows pc (gs_ids s))"

lemma new_gen_sys_wf: "ids_wf (new_gen_sys n)"
  by (simp add: ids_wf_def new_gen_sys_def running_ids_def new_command_ids_def)

lemma knows_others: "\<not> allocating pc \<Longrightarrow> knows pc ids"
  by (cases pc) simp_all

lemma knows_Delete: "knows pc ids \<Longrightarrow> knows pc (Delete i ids)"
  by (cases pc) (simp_all add: Delete_def Contains_def)

lemma ids_wf_split:
  "ids_wf (s\<lparr>gs_ids := ids, gs_agents := xs @ pc # ys\<rparr>) \<longleftrightarrow>
     length (filter allocating (xs @ pc # ys)) \<le> 1 \<and>
     distinct (concat (map command_of (xs @ ys)) @ command_of pc) \<and>
     set (concat (map command_of (xs @ ys)) @ command_of pc) = active ids \<and>
     knows pc ids \<and> (\<forall>q \<in> set (xs @ ys). knows q ids)"
  by (auto simp: ids_wf_def running_ids_def)

lemma ids_wf_step:
  assumes "ids_wf (s\<lparr>gs_ids := ids, gs_agents := xs @ pc # ys\<rparr>)"
    and "agent_step pc ids = (pc', ids')" and "pc = Resting \<Longrightarrow> \<not> list_ex allocating (xs @ ys)"
  shows "ids_wf (s\<lparr>gs_ids := ids', gs_agents := xs @ pc' # ys\<rparr>)"
proof (cases "allocating pc \<or> pc = Resting")
  case True
  then have "filter allocating (xs @ ys) = []"
    using assms(1,3) by (auto simp: ids_wf_split list_ex_iff filter_empty_conv)
  then have others: "\<forall>q \<in> set (xs @ ys). knows q ids'" "filter allocating xs = []" "filter allocating ys = []"
    using knows_others by (auto simp: filter_empty_conv)
  show ?thesis
    using True others assms(1,2) unfolding ids_wf_split
    by (cases pc) (auto simp: Insert_def Contains_def split: if_splits)
next
  case False
  then obtain i where pc: "pc = Running i" "pc' = Resting" "ids' = Delete i ids"
    using assms(2) by (cases pc) auto
  define cs where "cs = concat (map command_of (xs @ ys))"
  note wf = assms(1) [unfolded ids_wf_split pc(1), folded cs_def]
  then have "set cs = active ids - {i}" "distinct cs" by (auto simp del: set_concat)
  moreover have "\<forall>q \<in> set (xs @ ys). knows q ids'" using wf knows_Delete pc(3) by blast
  ultimately show ?thesis
    unfolding ids_wf_split pc(2) cs_def [symmetric] using wf pc(3) by (simp add: Delete_def)
qed

lemma ids_wf_gen_step:
  assumes "ids_wf s" and "t < length (gs_agents s) \<Longrightarrow> gs_agents s ! t = Resting \<Longrightarrow> \<not> list_ex allocating (gs_agents s)"
  shows "ids_wf (gen_step t s)"
proof (cases "t < length (gs_agents s)")
  case True
  let ?xs = "take t (gs_agents s)" and ?pc = "gs_agents s ! t" and ?ys = "drop (Suc t) (gs_agents s)"
  obtain pc' ids' where st: "agent_step ?pc (gs_ids s) = (pc', ids')" by fastforce
  have eq: "gs_agents s = ?xs @ ?pc # ?ys" using True by (rule id_take_nth_drop)
  then have "ids_wf (s\<lparr>gs_ids := gs_ids s, gs_agents := ?xs @ ?pc # ?ys\<rparr>)" using assms(1) by simp
  moreover have "\<not> list_ex allocating (?xs @ ?ys)" if "?pc = Resting"
    using assms(2) [OF True that] by (subst (asm) eq) simp
  ultimately show ?thesis
    using ids_wf_step [OF _ st] st True by (simp add: gen_step_def upd_conv_take_nth_drop)
qed (use assms in \<open>simp add: gen_step_def\<close>)

lemma ids_wf_run: "one_by_one ts s \<Longrightarrow> ids_wf s \<Longrightarrow> ids_wf (gen_run ts s)"
  by (induction ts arbitrary: s) (auto intro: ids_wf_gen_step)

section \<open>Properties\<close>



text \<open>
  An agent that is not disturbed computes \<open>GenerateID\<close>: if some id is free, it reaches in finitely
  many steps the point where it has the id that \<open>GenerateID\<close> returns, with the ids as \<open>GenerateID\<close>
  leaves them.
\<close>

theorem GenerateID_steps:
  assumes "t < length (gs_agents s)" and "gs_agents s ! t = Incrementing" and "active (gs_ids s) \<noteq> UNIV"
  shows "\<exists>n i ids. GenerateID (gs_ids s) = Some (i, ids) \<and>
    gen_run (replicate n t) s = s\<lparr>gs_ids := ids, gs_agents := (gs_agents s)[t := Got i]\<rparr>"
proof -
  obtain i ids where g: "GenerateID (gs_ids s) = Some (i, ids)" using GenerateID_some [OF assms(3)] by blast
  then obtain n where "alone n Incrementing (gs_ids s) = (Got i, ids)" using GenerateID_alone by fastforce
  then show ?thesis using gen_run_alone [OF assms(1)] assms(2) g by fastforce
qed

theorem GenerateID_steps_witness:
  "\<exists>n i ids. GenerateID new_command_ids = Some (i, ids) \<and>
    gen_run (replicate n 0) \<lparr>gs_ids = new_command_ids, gs_agents = [Incrementing]\<rparr> = \<lparr>gs_ids = ids, gs_agents = [Got i]\<rparr>"
  using GenerateID_steps [of 0 "\<lparr>gs_ids = new_command_ids, gs_agents = [Incrementing]\<rparr>"]
  by (simp add: new_command_ids_def)

text \<open>
  Two agents can be given the same id. The second increments the counter after the first has tested
  it and before the first returns it; both return the new value. Both commands run under one
  id, and the end of one of them, or a request to terminate it, stops the other.
\<close>

theorem agents_share_id:
  "\<exists>ts. gs_agents (gen_run ts (new_gen_sys 2)) = [Running 2, Running 2] \<and>
    gs_agents (gen_run (ts @ [0]) (new_gen_sys 2)) = [Resting, Running 2] \<and>
    \<not> Contains 2 (gs_ids (gen_run (ts @ [0]) (new_gen_sys 2)))"
  by (rule exI [of _ "replicate 5 0 @ replicate 5 1 @ [0, 1, 0, 1]"])
    (simp add: new_gen_sys_def gen_step_def new_command_ids_def Contains_def Insert_def Delete_def eval_nat_numeral)

end
