(* ===== verification/Sockets.thy ===== *)
theory Sockets
  imports Base
begin

text \<open>
  The stream socket as the sources see it: \<open>recv()\<close>, \<open>send()\<close> and \<open>errno\<close>. What the
  peer and the kernel do is an input of the model, one list of events per direction:
  \<open>rx\<close> is what \<open>recv()\<close> will find (segments of any length, the peer's orderly shutdown,
  failures), \<open>tx\<close> is what the next \<open>send()\<close> calls will do (accept up to so many bytes, or
  fail). \<open>wire\<close> collects the bytes handed to the network. The lemmas say that \<open>recv()\<close>
  neither loses nor reorders bytes of the stream \<open>rx_stream\<close>, and that it makes progress.
\<close>

section \<open>State of a socket\<close>

datatype errno = NoErr | EAGAIN | EWOULDBLOCK | EOther nat

datatype rx_event = RxData bytes | RxEof | RxErr errno

datatype tx_event = TxAccept nat | TxErr errno

record sock =
  rx :: "rx_event list"
  tx :: "tx_event list"
  wire :: bytes
  errno :: errno

definition is_timeout :: "errno \<Rightarrow> bool" where
  "is_timeout e \<longleftrightarrow> e = EAGAIN \<or> e = EWOULDBLOCK"

datatype io_result = IoBytes bytes | IoErr

text \<open>
  \<open>recv(fd, buffer, n, 0)\<close>: at most \<open>n\<close> bytes of the next segment; the empty result is
  the return value 0 (orderly shutdown, which persists); a failure sets \<open>errno\<close>; with no
  event left the call blocks.
\<close>

fun recv_events :: "nat \<Rightarrow> rx_event list \<Rightarrow> ((errno + bytes) \<times> rx_event list) outcome" where
  "recv_events n [] = Block"
| "recv_events n (RxData bs # es) =
     (if bs = [] then recv_events n es
      else Ret (Inr (take n bs), if length bs \<le> n then es else RxData (drop n bs) # es))"
| "recv_events n (RxEof # es) = Ret (Inr [], RxEof # es)"
| "recv_events n (RxErr e # es) = Ret (Inl e, es)"

definition sys_recv :: "nat \<Rightarrow> sock \<Rightarrow> (io_result \<times> sock) outcome" where
  "sys_recv n s =
     obind (recv_events n (rx s)) (\<lambda>(r, es).
       Ret (case r of
              Inl e \<Rightarrow> (IoErr, s\<lparr>rx := es, errno := e\<rparr>)
            | Inr bs \<Rightarrow> (IoBytes bs, s\<lparr>rx := es\<rparr>)))"

text \<open>
  \<open>send(fd, bs, len, 0)\<close>: the number of bytes the kernel took, or a failure. Once the
  listed events are used up the kernel takes everything.
\<close>

definition sys_send :: "bytes \<Rightarrow> sock \<Rightarrow> (errno + nat) \<times> sock" where
  "sys_send bs s =
     (case tx s of
        [] \<Rightarrow> (Inr (length bs), s\<lparr>wire := wire s @ bs\<rparr>)
      | TxAccept n # es \<Rightarrow>
          (Inr (min n (length bs)), s\<lparr>tx := es, wire := wire s @ take n bs\<rparr>)
      | TxErr e # es \<Rightarrow> (Inl e, s\<lparr>tx := es, errno := e\<rparr>))"

text \<open>What the calls find behind a descriptor that is not open: they fail with \<open>EBADF\<close>.\<close>

definition bad_fd :: sock where
  "bad_fd = \<lparr>rx = [RxErr (EOther 9)], tx = [TxErr (EOther 9)], wire = [], errno = EOther 9\<rparr>"

section \<open>The byte stream of a socket\<close>

fun rx_stream :: "rx_event list \<Rightarrow> bytes" where
  "rx_stream (RxData bs # es) = bs @ rx_stream es"
| "rx_stream _ = []"

fun rx_size :: "rx_event list \<Rightarrow> nat" where
  "rx_size [] = 0"
| "rx_size (RxData bs # es) = Suc (length bs) + rx_size es"
| "rx_size (_ # es) = Suc (rx_size es)"

lemma recv_events_stream:
  "recv_events n es = Ret (Inr bs, es') \<Longrightarrow> rx_stream es = bs @ rx_stream es'"
  by (induction n es rule: recv_events.induct) (auto split: if_splits)

lemma recv_events_progress:
  "recv_events n es = Ret (Inr bs, es') \<Longrightarrow> bs \<noteq> [] \<Longrightarrow> rx_size es' < rx_size es"
  by (induction n es rule: recv_events.induct) (auto split: if_splits)

lemma recv_events_err_progress:
  "recv_events n es = Ret (Inl e, es') \<Longrightarrow> rx_size es' < rx_size es"
  by (induction n es rule: recv_events.induct) (auto split: if_splits)

lemma recv_events_bound: "recv_events n es = Ret (Inr bs, es') \<Longrightarrow> length bs \<le> n"
  by (induction n es rule: recv_events.induct) (auto split: if_splits)

text \<open>While the stream still holds bytes, \<open>recv()\<close> returns at least one of them.\<close>

lemma recv_events_data:
  "rx_stream es \<noteq> [] \<Longrightarrow> 0 < n \<Longrightarrow>
   \<exists>bs es'. recv_events n es = Ret (Inr bs, es') \<and> bs \<noteq> []"
  by (induction n es rule: recv_events.induct) auto

lemma sys_recv_IoBytes:
  "sys_recv n s = Ret (IoBytes bs, s') \<longleftrightarrow>
   (\<exists>es. recv_events n (rx s) = Ret (Inr bs, es) \<and> s' = s\<lparr>rx := es\<rparr>)"
  by (cases "recv_events n (rx s)") (auto simp: sys_recv_def split: sum.split_asm)

lemma sys_recv_IoErr:
  "sys_recv n s = Ret (IoErr, s') \<longleftrightarrow>
   (\<exists>e es. recv_events n (rx s) = Ret (Inl e, es) \<and> s' = s\<lparr>rx := es, errno := e\<rparr>)"
  by (cases "recv_events n (rx s)") (auto simp: sys_recv_def split: sum.split_asm)

lemma sys_recv_stream:
  "sys_recv n s = Ret (IoBytes bs, s') \<Longrightarrow> rx_stream (rx s) = bs @ rx_stream (rx s')"
  by (auto simp: sys_recv_IoBytes dest: recv_events_stream)

lemma sys_recv_progress:
  "sys_recv n s = Ret (IoBytes bs, s') \<Longrightarrow> bs \<noteq> [] \<Longrightarrow> rx_size (rx s') < rx_size (rx s)"
  by (auto simp: sys_recv_IoBytes dest: recv_events_progress)

lemma sys_recv_err_progress:
  "sys_recv n s = Ret (IoErr, s') \<Longrightarrow> rx_size (rx s') < rx_size (rx s)"
  by (auto simp: sys_recv_IoErr dest: recv_events_err_progress)

lemma sys_recv_bound: "sys_recv n s = Ret (IoBytes bs, s') \<Longrightarrow> length bs \<le> n"
  by (auto simp: sys_recv_IoBytes dest: recv_events_bound)

lemma sys_recv_frame:
  "sys_recv n s = Ret (r, s') \<Longrightarrow> tx s' = tx s \<and> wire s' = wire s"
  by (cases r) (auto simp: sys_recv_IoBytes sys_recv_IoErr)

lemma sys_recv_data:
  assumes "rx_stream (rx s) \<noteq> []" and "0 < n"
  shows "\<exists>bs s'. sys_recv n s = Ret (IoBytes bs, s') \<and> bs \<noteq> []"
  using recv_events_data [OF assms] by (auto simp: sys_recv_def)

lemma sys_recv_segment:
  assumes "rx s = RxData d # es" and "d \<noteq> []" and "length d \<le> n"
  shows "sys_recv n s = Ret (IoBytes d, s\<lparr>rx := es\<rparr>)"
  using assms by (simp add: sys_recv_def)

lemma sys_recv_not_Crash [simp]: "sys_recv n s \<noteq> Crash"
proof -
  have "recv_events n es \<noteq> Crash" for es
    by (induction n es rule: recv_events.induct) auto
  then show ?thesis
    by (cases "recv_events n (rx s)") (auto simp: sys_recv_def)
qed

text \<open>A socket whose \<open>send()\<close> calls all take something.\<close>

definition accepting :: "sock \<Rightarrow> bool" where
  "accepting s \<longleftrightarrow> (\<forall>e\<in>set (tx s). \<exists>n. e = TxAccept n \<and> 0 < n)"

lemma sys_send_accepting:
  assumes "accepting s" and "bs \<noteq> []"
  shows "\<exists>n s'. sys_send bs s = (Inr n, s') \<and> 0 < n \<and> n \<le> length bs \<and>
    wire s' = wire s @ take n bs \<and> accepting s' \<and> rx s' = rx s"
proof (cases "tx s")
  case Nil
  then show ?thesis using assms by (auto simp: sys_send_def accepting_def)
next
  case (Cons e es)
  then obtain n where "e = TxAccept n" "0 < n" using assms(1) by (auto simp: accepting_def)
  then show ?thesis
    using Cons assms by (auto simp: sys_send_def accepting_def min_def)
qed

text \<open>The peer shuts the connection down after what it has sent.\<close>

fun closes :: "rx_event list \<Rightarrow> bool" where
  "closes (RxData bs # es) = closes es"
| "closes (RxEof # es) = True"
| "closes _ = False"

lemma sys_recv_closes:
  assumes "sys_recv n s = Ret (IoBytes bs, s')"
  shows "closes (rx s') = closes (rx s)"
proof -
  have "recv_events n es = Ret (Inr bs, es') \<Longrightarrow> closes es' = closes es" for es es'
    by (induction n es rule: recv_events.induct) (auto split: if_splits)
  then show ?thesis using assms by (auto simp: sys_recv_IoBytes)
qed

lemma sys_recv_closed:
  assumes "closes (rx s)" and "rx_stream (rx s) = []"
  shows "\<exists>s'. sys_recv n s = Ret (IoBytes [], s')"
proof -
  have "closes es \<Longrightarrow> rx_stream es = [] \<Longrightarrow> \<exists>es'. recv_events n es = Ret (Inr [], es')" for es
    by (induction n es rule: recv_events.induct) auto
  then obtain es' where "recv_events n (rx s) = Ret (Inr [], es')" using assms by blast
  then show ?thesis by (simp add: sys_recv_def)
qed

lemmas sys_recv_facts = sys_recv_stream sys_recv_progress sys_recv_bound sys_recv_frame

end
