(* ===== verification/Wire_Protocol.thy ===== *)
theory Wire_Protocol
  imports Sockets
begin

text \<open>
  Model of \<open>common/wire_protocol\<close>: \<open>Serialize()\<close> and the class template \<open>MessageParser\<close>.
  Protocol Buffers is outside the repository, so its three entry points are the fields of
  a record \<open>codec\<close> that every definition takes as an argument, and \<open>codec_ok\<close> states what
  the code relies on. The parser keeps the widths of the C++ (\<open>uint32_t\<close> counters and
  lengths) and crashes where the C++ would write outside a buffer.

  The lemmas: a well-formedness invariant that every operation keeps; the refinement of
  the parser to the bytes it has not yet handed out (\<open>unread\<close>), under which adding data is
  appending and getting a message is splitting off one frame (\<open>split_frame\<close>); absence of
  out-of-bounds accesses; independence of how the stream is cut into pieces; and the loop
  that fills a parser from a socket, shared by the server, the coordinator and the chunked
  file receiver.
\<close>

section \<open>Protocol Buffers, as a parameter\<close>

record 'm codec =
  ByteSizeLong :: "'m \<Rightarrow> nat"
  SerializeToArray :: "'m \<Rightarrow> nat \<Rightarrow> bytes option"
  ParseFromArray :: "bytes \<Rightarrow> int \<Rightarrow> 'm option"

text \<open>
  What the code relies on for messages below the 2 GiB limit of Protocol Buffers: a
  message serializes into a buffer of exactly \<open>ByteSizeLong()\<close> bytes, and parsing those
  bytes gives the message back.
\<close>

definition codec_ok :: "'m codec \<Rightarrow> bool" where
  "codec_ok c \<longleftrightarrow>
     (\<forall>m. ByteSizeLong c m < 2 ^ 31 \<longrightarrow>
        (\<exists>bs. SerializeToArray c m (ByteSizeLong c m) = Some bs \<and>
              length bs = ByteSizeLong c m \<and>
              ParseFromArray c bs (int (length bs)) = Some m))"

section \<open>Network byte order\<close>

text \<open>The four bytes in memory of \<open>htonl(w)\<close>, and \<open>ntohl\<close> of four bytes in memory.\<close>

definition htonl_bytes :: "u32 \<Rightarrow> bytes" where
  "htonl_bytes w = [ucast (drop_bit 24 w), ucast (drop_bit 16 w), ucast (drop_bit 8 w), ucast w]"

fun ntohl_bytes :: "bytes \<Rightarrow> u32" where
  "ntohl_bytes [a, b, c, d] =
     push_bit 24 (ucast a) OR push_bit 16 (ucast b) OR push_bit 8 (ucast c) OR ucast d"
| "ntohl_bytes _ = 0"

lemma length_htonl_bytes [simp]: "length (htonl_bytes w) = 4"
  by (simp add: htonl_bytes_def)

lemma ntohl_htonl [simp]: "ntohl_bytes (htonl_bytes w) = w"
  unfolding htonl_bytes_def ntohl_bytes.simps
proof (rule bit_word_eqI)
  fix n
  assume "n < LENGTH(32)"
  then consider "n < 8" | "8 \<le> n" "n < 16" | "16 \<le> n" "n < 24" | "24 \<le> n" "n < 32"
    by fastforce
  then show "bit (push_bit 24 (ucast (ucast (drop_bit 24 w) :: u8) :: u32) OR
               push_bit 16 (ucast (ucast (drop_bit 16 w) :: u8)) OR
               push_bit 8 (ucast (ucast (drop_bit 8 w) :: u8)) OR ucast (ucast w :: u8)) n = bit w n"
    by cases (auto simp: bit_simps)
qed

section \<open>Serialize\<close>

definition Serialize :: "'m codec \<Rightarrow> 'm \<Rightarrow> bytes \<Rightarrow> bool \<times> bytes" where
  "Serialize c message serialized =
     (let kMessageSize = (of_nat (ByteSizeLong c message) :: u32);
          sized = resize (4 + unat kMessageSize) serialized;
          prefixed = htonl_bytes kMessageSize @ drop 4 sized
      in case SerializeToArray c message (unat kMessageSize) of
           Some bs \<Rightarrow> (True, take 4 prefixed @ bs @ drop (4 + length bs) prefixed)
         | None \<Rightarrow> (False, prefixed))"

text \<open>A frame on the wire: the length in network byte order, then the body.\<close>

definition frame :: "bytes \<Rightarrow> bytes" where
  "frame body = htonl_bytes (of_nat (length body)) @ body"

definition encode :: "'m codec \<Rightarrow> 'm \<Rightarrow> bytes" where
  "encode c m = the (SerializeToArray c m (ByteSizeLong c m))"

lemma codec_okD:
  assumes "codec_ok c" and "ByteSizeLong c m < 2 ^ 31"
  shows "SerializeToArray c m (ByteSizeLong c m) = Some (encode c m)"
    and "length (encode c m) = ByteSizeLong c m"
    and "ParseFromArray c (encode c m) (int (ByteSizeLong c m)) = Some m"
  using assms by (auto simp: codec_ok_def encode_def)

lemma Serialize_frame:
  assumes "codec_ok c" and "ByteSizeLong c m < 2 ^ 31"
  shows "Serialize c m buf = (True, frame (encode c m))"
  using assms by (simp add: Serialize_def frame_def codec_okD Let_def)

lemma concat_Serialize_frame:
  assumes "codec_ok c" and "\<forall>m\<in>set ms. ByteSizeLong c m < 2 ^ 31"
  shows "concat (map (\<lambda>m. snd (Serialize c m [])) ms) = concat (map (\<lambda>m. frame (encode c m)) ms)"
  using assms by (intro arg_cong [of _ _ concat]) (auto simp: Serialize_frame)

section \<open>The parser\<close>

datatype parser_state = PARSING_LENGTH | PARSING_MESSAGE | PARSING_DONE

record parser =
  pstate :: parser_state
  partial_length :: bytes
  got_length_bytes :: u32
  partial_message :: bytes
  expected_length :: u32
  overflow_message_data :: bytes

abbreviation kNumLengthBytes :: u32 where
  "kNumLengthBytes \<equiv> 4"

definition new_parser :: parser where
  "new_parser =
     \<lparr>pstate = PARSING_LENGTH, partial_length = [0, 0, 0, 0], got_length_bytes = 0,
      partial_message = [], expected_length = -1, overflow_message_data = []\<rparr>"

definition HasCompleteMessage :: "parser \<Rightarrow> bool" where
  "HasCompleteMessage p \<longleftrightarrow> pstate p = PARSING_DONE"

definition ResetParser :: "parser \<Rightarrow> parser" where
  "ResetParser p =
     p\<lparr>pstate := PARSING_LENGTH, got_length_bytes := 0, partial_message := [],
       expected_length := -1, overflow_message_data := []\<rparr>"

definition HasOverflow :: "parser \<Rightarrow> bool" where
  "HasOverflow p \<longleftrightarrow> overflow_message_data p \<noteq> []"

definition GetOverflow :: "parser \<Rightarrow> bytes" where
  "GetOverflow p = overflow_message_data p"

definition HasPartialMessage :: "parser \<Rightarrow> bool" where
  "HasPartialMessage p \<longleftrightarrow> partial_message p \<noteq> [] \<or> got_length_bytes p \<noteq> 0"

definition ParseLength :: "parser \<Rightarrow> bytes \<Rightarrow> (u32 \<times> parser) outcome" where
  "ParseLength p data =
     (if pstate p \<noteq> PARSING_LENGTH then Ret (0, p)
      else
        let kLengthBytesToCopy =
              min (of_nat (length data)) (kNumLengthBytes - got_length_bytes p)
        in obind (slice data 0 (unat kLengthBytesToCopy)) (\<lambda>src.
           obind (blit (partial_length p) (unat (got_length_bytes p)) src) (\<lambda>len.
             let got = got_length_bytes p + kLengthBytesToCopy;
                 p1 = p\<lparr>partial_length := len, got_length_bytes := got\<rparr>
             in Ret (kLengthBytesToCopy,
                     if got = kNumLengthBytes
                     then p1\<lparr>pstate := PARSING_MESSAGE, expected_length := ntohl_bytes len\<rparr>
                     else p1))))"

definition ParseMessage :: "parser \<Rightarrow> bytes \<Rightarrow> u32 \<Rightarrow> (u32 \<times> parser) outcome" where
  "ParseMessage p data start_offset =
     (if pstate p \<noteq> PARSING_MESSAGE then Ret (0, p)
      else
        let kRemainingData = of_nat (length data) - start_offset;
            kCurrentLength = of_nat (length (partial_message p)) :: u32;
            kNumBytesToCopy = min kRemainingData (expected_length p - kCurrentLength);
            space = resize (unat (kCurrentLength + kNumBytesToCopy)) (partial_message p)
        in obind (slice data (unat start_offset) (unat start_offset + unat kNumBytesToCopy))
             (\<lambda>src.
           obind (blit space (unat kCurrentLength) src) (\<lambda>msg.
             let p1 = p\<lparr>partial_message := msg\<rparr>
             in Ret (kNumBytesToCopy,
                     if length msg = unat (expected_length p)
                     then p1\<lparr>pstate := PARSING_DONE\<rparr> else p1))))"

definition SaveOverflow :: "parser \<Rightarrow> bytes \<Rightarrow> u32 \<Rightarrow> parser outcome" where
  "SaveOverflow p data start_offset =
     (if pstate p \<noteq> PARSING_DONE then Ret p
      else
        let kRemainingData = of_nat (length data) - start_offset;
            kCurrentOverflowSize = of_nat (length (overflow_message_data p)) :: u32;
            space = resize (unat (kCurrentOverflowSize + kRemainingData))
                      (overflow_message_data p)
        in obind (slice data (unat start_offset) (length data)) (\<lambda>src.
           obind (blit space (unat kCurrentOverflowSize) src) (\<lambda>ovf.
             Ret (p\<lparr>overflow_message_data := ovf\<rparr>))))"

definition AddNewData :: "parser \<Rightarrow> bytes \<Rightarrow> parser outcome" where
  "AddNewData p data =
     obind (ParseLength p data) (\<lambda>(n, p1).
     obind (ParseMessage p1 data n) (\<lambda>(m, p2).
       SaveOverflow p2 data (n + m)))"

text \<open>
  \<open>GetMessage\<close> returns the parsed message, or \<open>None\<close> where the C++ returns false (no
  complete message, or Protocol Buffers rejects the bytes).
\<close>

definition GetMessage :: "'m codec \<Rightarrow> parser \<Rightarrow> ('m option \<times> parser) outcome" where
  "GetMessage c p =
     (if \<not> HasCompleteMessage p then Ret (None, p)
      else
        let kParseResult =
              ParseFromArray c (take (unat (expected_length p)) (partial_message p))
                (sint (expected_length p));
            kNewMessageData = overflow_message_data p
        in obind (AddNewData (ResetParser p) kNewMessageData) (\<lambda>p'.
             Ret (kParseResult, p')))"

section \<open>Well-formed parsers and the bytes they hold\<close>

definition wf_parser :: "parser \<Rightarrow> bool" where
  "wf_parser p \<longleftrightarrow>
     length (partial_length p) = 4 \<and>
     (case pstate p of
        PARSING_LENGTH \<Rightarrow>
          got_length_bytes p < 4 \<and> partial_message p = [] \<and> overflow_message_data p = []
      | PARSING_MESSAGE \<Rightarrow>
          got_length_bytes p = 4 \<and> expected_length p = ntohl_bytes (partial_length p) \<and>
          length (partial_message p) < unat (expected_length p) \<and> overflow_message_data p = []
      | PARSING_DONE \<Rightarrow>
          got_length_bytes p = 4 \<and> expected_length p = ntohl_bytes (partial_length p) \<and>
          length (partial_message p) = unat (expected_length p) \<and>
          length (overflow_message_data p) < 2 ^ 32)"

definition unread :: "parser \<Rightarrow> bytes" where
  "unread p = take (unat (got_length_bytes p)) (partial_length p) @ partial_message p @
     overflow_message_data p"

text \<open>
  The specification: a byte sequence starts with a complete frame, or it does not. The
  result is the body of the frame and what follows it.
\<close>

definition split_frame :: "bytes \<Rightarrow> (bytes \<times> bytes) option" where
  "split_frame bs =
     (let n = unat (ntohl_bytes (take 4 bs))
      in if length bs < 4 \<or> length bs - 4 < n then None
         else Some (take n (drop 4 bs), drop (4 + n) bs))"

lemma split_frame_frame:
  "length body < 2 ^ 32 \<Longrightarrow> split_frame (frame body @ rest) = Some (body, rest)"
  by (simp add: split_frame_def frame_def)

lemma split_frame_append:
  "split_frame bs = Some (body, rest) \<Longrightarrow> split_frame (bs @ ds) = Some (body, rest @ ds)"
  by (auto simp: split_frame_def Let_def split: if_splits)

lemma split_frame_length:
  "split_frame bs = Some (body, rest) \<Longrightarrow> length bs = 4 + length body + length rest"
  by (auto simp: split_frame_def Let_def split: if_splits)

lemma split_frame_rest_le:
  assumes "split_frame bs = None" and "split_frame (bs @ ds) = Some (body, rest)"
  shows "length rest \<le> length ds"
proof (cases "length bs < 4")
  case True
  then show ?thesis using split_frame_length [OF assms(2)] by simp
next
  case False
  then show ?thesis
    using assms by (auto simp: split_frame_def Let_def split: if_splits)
qed

lemma wf_new_parser [simp]: "wf_parser new_parser"
  by (simp add: wf_parser_def new_parser_def)

lemma unread_new_parser [simp]: "unread new_parser = []"
  by (simp add: unread_def new_parser_def)

lemma HasCompleteMessage_new_parser [simp]: "\<not> HasCompleteMessage new_parser"
  by (simp add: HasCompleteMessage_def new_parser_def)

lemma overflow_new_parser [simp]: "overflow_message_data new_parser = []"
  by (simp add: new_parser_def)

lemma wf_ResetParser [simp]: "wf_parser p \<Longrightarrow> wf_parser (ResetParser p)"
  by (simp add: wf_parser_def ResetParser_def)

lemma unread_ResetParser [simp]: "unread (ResetParser p) = []"
  by (simp add: unread_def ResetParser_def)

lemma wf_complete_iff:
  assumes "wf_parser p"
  shows "HasCompleteMessage p \<longleftrightarrow> split_frame (unread p) \<noteq> None"
  using assms
  by (auto simp: wf_parser_def HasCompleteMessage_def unread_def split_frame_def Let_def
      word_less_nat_alt split: parser_state.splits)

lemma wf_complete_split:
  assumes "wf_parser p" and "HasCompleteMessage p"
  shows "split_frame (unread p) = Some (partial_message p, overflow_message_data p)"
  using assms
  by (auto simp: wf_parser_def HasCompleteMessage_def unread_def split_frame_def)

lemma wf_incomplete_no_overflow:
  "wf_parser p \<Longrightarrow> \<not> HasCompleteMessage p \<Longrightarrow> overflow_message_data p = []"
  by (auto simp: wf_parser_def HasCompleteMessage_def split: parser_state.splits)

section \<open>Adding data\<close>

lemma ParseLength_short:
  assumes "wf_parser p" and "pstate p = PARSING_LENGTH"
    and "unat (got_length_bytes p) + length data < 4"
  shows "ParseLength p data =
    Ret (of_nat (length data),
      p\<lparr>partial_length := take (unat (got_length_bytes p)) (partial_length p) @ data @
          drop (unat (got_length_bytes p) + length data) (partial_length p),
        got_length_bytes := got_length_bytes p + of_nat (length data)\<rparr>)"
proof -
  let ?g = "got_length_bytes p" and ?n = "of_nat (length data) :: u32"
  have n: "unat ?n = length data" using assms(3) by simp
  have g: "?g \<le> 4" using assms(3) by (simp add: word_le_nat_alt)
  have sub: "unat (4 - ?g) = 4 - unat ?g" using unat_sub_le [OF g] by simp
  have le: "?n \<le> 4 - ?g" using assms(3) n sub by (simp add: word_le_nat_alt)
  have "unat (?g + ?n) = unat ?g + length data"
    using assms(3) n by (subst unat_add_lt) auto
  then have "?g + ?n \<noteq> 4" using assms(3) by (metis less_irrefl unat_numeral_u32_4)
  then show ?thesis
    using assms n le by (simp add: ParseLength_def min_absorb1 slice_def blit_def wf_parser_def Let_def)
qed

lemma ParseLength_full:
  assumes "wf_parser p" and "pstate p = PARSING_LENGTH"
    and "4 \<le> unat (got_length_bytes p) + length data" and "length data < 2 ^ 32"
  shows "ParseLength p data =
    Ret (4 - got_length_bytes p,
      p\<lparr>pstate := PARSING_MESSAGE,
        partial_length := take (unat (got_length_bytes p)) (partial_length p) @
          take (4 - unat (got_length_bytes p)) data,
        got_length_bytes := 4,
        expected_length := ntohl_bytes (take (unat (got_length_bytes p)) (partial_length p) @
          take (4 - unat (got_length_bytes p)) data)\<rparr>)"
proof -
  let ?g = "got_length_bytes p" and ?n = "of_nat (length data) :: u32"
  have wf: "length (partial_length p) = 4" "?g < 4"
    using assms(1,2) by (auto simp: wf_parser_def)
  have n: "unat ?n = length data" using assms(4) by simp
  have g: "?g \<le> 4" and g4: "unat ?g < 4"
    using wf by (auto simp: word_less_nat_alt word_le_nat_alt)
  have sub: "unat (4 - ?g) = 4 - unat ?g" using unat_sub_le [OF g] by simp
  have le: "4 - ?g \<le> ?n" using assms(3) n sub by (simp add: word_le_nat_alt)
  then have m: "min ?n (4 - ?g) = 4 - ?g" by (simp add: min_absorb2)
  have "slice data 0 (unat (4 - ?g)) = Ret (take (4 - unat ?g) data)"
    using assms(3) sub by (simp add: slice_def)
  moreover have "blit (partial_length p) (unat ?g) (take (4 - unat ?g) data) =
      Ret (take (unat ?g) (partial_length p) @ take (4 - unat ?g) data)"
    using assms(3) g4 wf by (simp add: blit_def)
  ultimately show ?thesis
    using assms(2) m by (simp add: ParseLength_def Let_def)
qed

lemma ParseMessage_spec:
  assumes "pstate p = PARSING_MESSAGE" and "unat off \<le> length data" and "length data < 2 ^ 32"
    and "length (partial_message p) \<le> unat (expected_length p)"
    and k: "k = min (length data - unat off) (unat (expected_length p) - length (partial_message p))"
  shows "ParseMessage p data off =
    Ret (of_nat k,
      p\<lparr>partial_message := partial_message p @ take k (drop (unat off) data),
        pstate := (if length (partial_message p) + k = unat (expected_length p)
                   then PARSING_DONE else PARSING_MESSAGE)\<rparr>)"
proof -
  let ?cur = "of_nat (length (partial_message p)) :: u32"
  let ?rem = "of_nat (length data) - off"
  let ?exp = "expected_length p"
  have cur: "unat ?cur = length (partial_message p)"
    using assms(4) unat_lt_u32 [of ?exp] by simp
  have rem: "unat ?rem = length data - unat off"
    using assms(2,3) by (subst unat_sub_le) (auto simp: word_le_nat_alt)
  have ex: "unat (?exp - ?cur) = unat ?exp - length (partial_message p)"
    using assms(4) cur by (subst unat_sub_le) (auto simp: word_le_nat_alt)
  have num: "unat (min ?rem (?exp - ?cur)) = k"
    by (simp add: unat_min rem ex k)
  then have numw: "min ?rem (?exp - ?cur) = of_nat k"
    by (simp flip: num)
  have bound: "length (partial_message p) + k < 2 ^ 32"
    using assms(4) k unat_lt_u32 [of ?exp] by linarith
  then have sum: "unat (?cur + of_nat k) = length (partial_message p) + k"
    using cur num numw by (subst unat_add_lt) auto
  have kl: "length (take k (drop (unat off) data)) = k" using k by simp
  have sl: "slice data (unat off) (unat off + k) = Ret (take k (drop (unat off) data))"
    using assms(2) k by (simp add: slice_def)
  have bl: "blit (resize (length (partial_message p) + k) (partial_message p))
      (length (partial_message p)) (take k (drop (unat off) data)) =
      Ret (partial_message p @ take k (drop (unat off) data))"
    using blit_resize [of "partial_message p" "take k (drop (unat off) data)"] kl by simp
  show ?thesis
    using assms(1) num cur sum sl bl kl
    by (simp add: ParseMessage_def Let_def numw)
qed

lemma SaveOverflow_spec:
  assumes "pstate p = PARSING_DONE" and "unat off \<le> length data"
    and "length (overflow_message_data p) + length data < 2 ^ 32"
  shows "SaveOverflow p data off =
    Ret (p\<lparr>overflow_message_data := overflow_message_data p @ drop (unat off) data\<rparr>)"
proof -
  let ?cur = "of_nat (length (overflow_message_data p)) :: u32"
  let ?rem = "of_nat (length data) - off"
  let ?src = "drop (unat off) data"
  have cur: "unat ?cur = length (overflow_message_data p)" using assms(3) by simp
  have rem: "unat ?rem = length data - unat off"
    using assms(2,3) by (subst unat_sub_le) (auto simp: word_le_nat_alt)
  have sum: "unat (?cur + ?rem) = length (overflow_message_data p) + length ?src"
    using cur rem assms(3) by (subst unat_add_lt) auto
  have "slice data (unat off) (length data) = Ret ?src"
    using assms(2) by (simp add: slice_def)
  then show ?thesis
    using assms(1) cur sum blit_resize [of "overflow_message_data p" ?src]
    by (simp add: SaveOverflow_def Let_def)
qed

text \<open>
  The refinement of \<open>AddNewData\<close>: it does not leave its buffers, keeps the invariant, and
  appends the data to the bytes the parser holds.
\<close>

lemma AddNewData_body:
  assumes "pstate p = PARSING_MESSAGE" and "length (partial_length p) = 4"
    and "got_length_bytes p = 4" and "expected_length p = ntohl_bytes (partial_length p)"
    and "length (partial_message p) \<le> unat (expected_length p)" and "overflow_message_data p = []"
    and "unat off \<le> length data" and "length data < 2 ^ 32"
  shows "\<exists>m p1 p2. ParseMessage p data off = Ret (m, p1) \<and> SaveOverflow p1 data (off + m) = Ret p2 \<and>
    wf_parser p2 \<and> unread p2 = unread p @ drop (unat off) data"
proof -
  let ?exp = "unat (expected_length p)"
  define k where "k = min (length data - unat off) (?exp - length (partial_message p))"
  define p1 where "p1 = p\<lparr>partial_message := partial_message p @ take k (drop (unat off) data),
      pstate := (if length (partial_message p) + k = ?exp then PARSING_DONE else PARSING_MESSAGE)\<rparr>"
  have pm: "ParseMessage p data off = Ret (of_nat k, p1)"
    unfolding p1_def by (rule ParseMessage_spec [OF assms(1,7,8,5) k_def])
  have kle: "k \<le> length data - unat off" by (simp add: k_def)
  then have k32: "unat (of_nat k :: u32) = k" using assms(8) by simp
  have off: "unat (off + of_nat k) = unat off + k"
    using kle assms(7,8) k32 by (subst unat_add_lt) auto
  show ?thesis
  proof (cases "length (partial_message p) + k = ?exp")
    case True
    define p2 where "p2 = p1\<lparr>overflow_message_data :=
        overflow_message_data p1 @ drop (unat (off + of_nat k)) data\<rparr>"
    have "SaveOverflow p1 data (off + of_nat k) = Ret p2"
      unfolding p2_def using True kle off assms(6,7,8)
      by (intro SaveOverflow_spec) (auto simp: p1_def)
    moreover have "wf_parser p2"
      using True assms kle off by (auto simp: wf_parser_def p2_def p1_def)
    moreover have "unread p2 = unread p @ drop (unat off) data"
    proof -
      have "take k (drop (unat off) data) @ drop (unat off + k) data = drop (unat off) data"
        by (metis add.commute append_take_drop_id drop_drop)
      then show ?thesis using assms(6) off by (simp add: unread_def p2_def p1_def)
    qed
    ultimately show ?thesis using pm by blast
  next
    case False
    then have k: "k = length data - unat off" "length (partial_message p) + k < ?exp"
      using assms(5) by (auto simp: k_def min_def split: if_splits)
    have "SaveOverflow p1 data (off + of_nat k) = Ret p1"
      using False by (simp add: SaveOverflow_def p1_def)
    moreover have "wf_parser p1"
      using False assms k by (auto simp: wf_parser_def p1_def)
    moreover have "unread p1 = unread p @ drop (unat off) data"
      using assms(6) k by (simp add: unread_def p1_def)
    ultimately show ?thesis using pm by blast
  qed
qed

lemma AddNewData_length:
  assumes wf: "wf_parser p" and "pstate p = PARSING_LENGTH" and len: "length (overflow_message_data p) + length data < 2 ^ 32"
  shows "\<exists>p'. AddNewData p data = Ret p' \<and> wf_parser p' \<and> unread p' = unread p @ data"
proof -
  let ?g = "got_length_bytes p"
  have g: "unat ?g < 4" "length (partial_length p) = 4" "partial_message p = []"
    "overflow_message_data p = []"
    using wf assms(2) by (auto simp: wf_parser_def word_less_nat_alt)
  have len': "length data < 2 ^ 32" using len by simp
  show ?thesis
  proof (cases "unat ?g + length data < 4")
    case True
    define p1 where "p1 = p\<lparr>partial_length := take (unat ?g) (partial_length p) @ data @
        drop (unat ?g + length data) (partial_length p),
        got_length_bytes := ?g + of_nat (length data)\<rparr>"
    have "unat (?g + of_nat (length data)) = unat ?g + length data"
      using True len' by (subst unat_add_lt) auto
    then have "wf_parser p1" "unread p1 = unread p @ data"
      using True g assms(2)
      by (auto simp: wf_parser_def unread_def p1_def word_less_nat_alt)
    moreover have "AddNewData p data = Ret p1"
      using ParseLength_short [OF wf assms(2) True] assms(2)
      by (simp add: AddNewData_def ParseMessage_def SaveOverflow_def p1_def)
    ultimately show ?thesis by blast
  next
    case False
    then have ge: "4 \<le> unat ?g + length data" by simp
    define len4 where "len4 = take (unat ?g) (partial_length p) @ take (4 - unat ?g) data"
    define p1 where "p1 = p\<lparr>pstate := PARSING_MESSAGE, partial_length := len4,
        got_length_bytes := 4, expected_length := ntohl_bytes len4\<rparr>"
    have pl: "ParseLength p data = Ret (4 - ?g, p1)"
      unfolding p1_def len4_def by (rule ParseLength_full [OF wf assms(2) ge len'])
    have l4: "length len4 = 4" using g ge by (simp add: len4_def)
    have sub: "unat (4 - ?g) = 4 - unat ?g"
      using g by (subst unat_sub_le) (auto simp: word_le_nat_alt)
    have "\<exists>m p2 p3. ParseMessage p1 data (4 - ?g) = Ret (m, p2) \<and>
        SaveOverflow p2 data (4 - ?g + m) = Ret p3 \<and> wf_parser p3 \<and>
        unread p3 = unread p1 @ drop (unat (4 - ?g)) data"
      using g ge l4 sub len' by (intro AddNewData_body) (auto simp: p1_def)
    moreover have "unread p1 @ drop (4 - unat ?g) data = unread p @ data"
      using g l4 by (simp add: unread_def p1_def) (simp add: len4_def)
    ultimately show ?thesis using pl sub by (auto simp: AddNewData_def)
  qed
qed

lemma AddNewData_refines:
  assumes wf: "wf_parser p" and len: "length (overflow_message_data p) + length data < 2 ^ 32"
  shows "\<exists>p'. AddNewData p data = Ret p' \<and> wf_parser p' \<and> unread p' = unread p @ data"
proof (cases "pstate p")
  case PARSING_LENGTH
  then show ?thesis using AddNewData_length [OF wf _ len] by blast
next
  case PARSING_MESSAGE
  have "\<exists>m p2 p3. ParseMessage p data 0 = Ret (m, p2) \<and>
      SaveOverflow p2 data (0 + m) = Ret p3 \<and> wf_parser p3 \<and> unread p3 = unread p @ drop (unat (0::u32)) data"
    using wf PARSING_MESSAGE len by (intro AddNewData_body) (auto simp: wf_parser_def)
  then show ?thesis
    using PARSING_MESSAGE by (auto simp: AddNewData_def ParseLength_def)
next
  case PARSING_DONE
  define p1 where "p1 = p\<lparr>overflow_message_data := overflow_message_data p @ drop (unat (0::u32)) data\<rparr>"
  have "SaveOverflow p data 0 = Ret p1"
    unfolding p1_def using PARSING_DONE len by (intro SaveOverflow_spec) auto
  moreover have "wf_parser p1" "unread p1 = unread p @ data"
    using wf PARSING_DONE len by (auto simp: wf_parser_def unread_def p1_def)
  ultimately show ?thesis
    using PARSING_DONE by (auto simp: AddNewData_def ParseLength_def ParseMessage_def)
qed

lemma GetMessage_refines:
  assumes wf: "wf_parser p" and "HasCompleteMessage p"
  shows "\<exists>p'. GetMessage c p =
      Ret (ParseFromArray c (partial_message p) (sint (expected_length p)), p') \<and>
    wf_parser p' \<and> split_frame (unread p) = Some (partial_message p, unread p')"
proof -
  have len: "length (overflow_message_data p) < 2 ^ 32"
    "length (partial_message p) = unat (expected_length p)"
    using assms by (auto simp: wf_parser_def HasCompleteMessage_def)
  have "overflow_message_data (ResetParser p) = []" by (simp add: ResetParser_def)
  then obtain p' where "AddNewData (ResetParser p) (overflow_message_data p) = Ret p'"
      "wf_parser p'" "unread p' = overflow_message_data p"
    using AddNewData_refines [OF wf_ResetParser [OF wf], of "overflow_message_data p"] len
    by auto
  then show ?thesis
    using assms len by (simp add: GetMessage_def wf_complete_split)
qed

section \<open>The contract of a frame decoder\<close>

text \<open>
  What the clients of the parser rely on. \<open>held\<close> is the byte sequence the decoder has
  taken and not yet handed out, \<open>backlog\<close> the number of bytes it stores behind a complete
  frame (the \<open>uint32_t\<close> that counts them must not wrap).
\<close>

fun feed :: "('p \<Rightarrow> bytes \<Rightarrow> 'p outcome) \<Rightarrow> 'p \<Rightarrow> bytes list \<Rightarrow> 'p outcome" where
  "feed add p [] = Ret p"
| "feed add p (d # ds) = obind (add p d) (\<lambda>p'. feed add p' ds)"

fun drain :: "('p \<Rightarrow> ('m option \<times> 'p) outcome) \<Rightarrow> nat \<Rightarrow> 'p \<Rightarrow> ('m option list \<times> 'p) outcome" where
  "drain get 0 p = Ret ([], p)"
| "drain get (Suc n) p =
     obind (get p) (\<lambda>(m, p').
     obind (drain get n p') (\<lambda>(ms, p''). Ret (m # ms, p'')))"

locale frame_decoder =
  fixes inv :: "'p \<Rightarrow> bool"
    and held :: "'p \<Rightarrow> bytes"
    and backlog :: "'p \<Rightarrow> nat"
    and complete :: "'p \<Rightarrow> bool"
    and add :: "'p \<Rightarrow> bytes \<Rightarrow> 'p outcome"
    and get :: "'m codec \<Rightarrow> 'p \<Rightarrow> ('m option \<times> 'p) outcome"
  assumes add_held: "inv p \<Longrightarrow> backlog p + length d < 2 ^ 32 \<Longrightarrow>
      \<exists>p'. add p d = Ret p' \<and> inv p' \<and> held p' = held p @ d \<and> backlog p' \<le> backlog p + length d"
    and complete_iff: "inv p \<Longrightarrow> complete p \<longleftrightarrow> split_frame (held p) \<noteq> None"
    and backlog_incomplete: "inv p \<Longrightarrow> \<not> complete p \<Longrightarrow> backlog p = 0"
    and get_held: "inv p \<Longrightarrow> codec_ok c \<Longrightarrow> ByteSizeLong c m < 2 ^ 31 \<Longrightarrow>
      split_frame (held p) = Some (encode c m, rest) \<Longrightarrow>
      \<exists>p'. get c p = Ret (Some m, p') \<and> inv p' \<and> held p' = rest"
begin

lemma feed_held:
  "inv p \<Longrightarrow> backlog p + length (concat ds) < 2 ^ 32 \<Longrightarrow>
   \<exists>p'. feed add p ds = Ret p' \<and> inv p' \<and> held p' = held p @ concat ds"
proof (induction ds arbitrary: p)
  case Nil
  then show ?case by simp
next
  case (Cons d ds)
  then obtain p1 where p1: "add p d = Ret p1" "inv p1" "held p1 = held p @ d"
      "backlog p1 \<le> backlog p + length d"
    using add_held [of p d] by auto
  with Cons show ?case by fastforce
qed

lemma drain_frames:
  assumes "codec_ok c" and "\<And>m. m \<in> set ms \<Longrightarrow> ByteSizeLong c m < 2 ^ 31"
    and "inv p" and "held p = concat (map (\<lambda>m. frame (encode c m)) ms) @ rest"
  shows "\<exists>p'. drain (get c) (length ms) p = Ret (map Some ms, p') \<and> inv p' \<and> held p' = rest"
  using assms(2-)
proof (induction ms arbitrary: p)
  case Nil
  then show ?case by simp
next
  case (Cons m ms)
  have m: "ByteSizeLong c m < 2 ^ 31" using Cons.prems by simp
  have "length (encode c m) < 2 ^ 32" using codec_okD [OF assms(1) m] m by simp
  then have "split_frame (held p) =
      Some (encode c m, concat (map (\<lambda>m. frame (encode c m)) ms) @ rest)"
    using Cons.prems(3) by (simp add: split_frame_frame)
  from get_held [OF Cons.prems(2) assms(1) m this]
  obtain p1 where p1: "get c p = Ret (Some m, p1)" "inv p1"
      "held p1 = concat (map (\<lambda>m. frame (encode c m)) ms) @ rest"
    by blast
  then obtain p2 where "drain (get c) (length ms) p1 = Ret (map Some ms, p2)" "inv p2" "held p2 = rest"
    using Cons.IH [of p1] Cons.prems(1) by auto
  then show ?case using p1 by simp
qed

end

lemma GetMessage_parses:
  assumes "wf_parser p" and split: "split_frame (unread p) = Some (bs, rest)" and "length bs < 2 ^ 31"
  shows "\<exists>p'. GetMessage c p = Ret (ParseFromArray c bs (int (length bs)), p') \<and> wf_parser p' \<and> unread p' = rest"
proof -
  have complete: "HasCompleteMessage p" using assms by (simp add: wf_complete_iff)
  then have body: "partial_message p = bs"
    using wf_complete_split [OF assms(1)] split by simp
  have "unat (expected_length p) = length bs"
    using assms(1) complete body by (auto simp: wf_parser_def HasCompleteMessage_def)
  then have "expected_length p = of_nat (length bs)" by (rule unat_eq_of_nat_u32)
  then have "sint (expected_length p) = int (length bs)"
    using assms(3) by (simp add: sint_of_nat_u32)
  then show ?thesis
    using GetMessage_refines [OF assms(1) complete, of c] split body by auto
qed

lemma GetMessage_encoded:
  assumes "wf_parser p" and c: "codec_ok c" "ByteSizeLong c m < 2 ^ 31"
    and split: "split_frame (unread p) = Some (encode c m, rest)"
  shows "\<exists>p'. GetMessage c p = Ret (Some m, p') \<and> wf_parser p' \<and> unread p' = rest"
  using GetMessage_parses [OF assms(1) split, of c] codec_okD [OF c] c(2) by auto

lemma backlog_AddNewData:
  assumes "wf_parser p" "wf_parser p'" and "unread p' = unread p @ d"
  shows "length (overflow_message_data p') \<le> length (overflow_message_data p) + length d"
proof (cases "HasCompleteMessage p'")
  case True
  note split' = wf_complete_split [OF assms(2) True]
  show ?thesis
  proof (cases "HasCompleteMessage p")
    case True
    then have "split_frame (unread p') = Some (partial_message p, overflow_message_data p @ d)"
      using wf_complete_split [OF assms(1)] assms(3) by (simp add: split_frame_append)
    then show ?thesis using split' by simp
  next
    case False
    then have "split_frame (unread p) = None"
      using wf_complete_iff [OF assms(1)] by blast
    then show ?thesis
      using split' assms(3) by (metis split_frame_rest_le trans_le_add2)
  qed
next
  case False
  then show ?thesis using wf_incomplete_no_overflow [OF assms(2)] by simp
qed

interpretation mp: frame_decoder wf_parser unread "\<lambda>p. length (overflow_message_data p)"
  HasCompleteMessage AddNewData GetMessage
proof (unfold_locales, goal_cases)
  case (1 p d)
  then show ?case using AddNewData_refines backlog_AddNewData by blast
next
  case (2 p)
  then show ?case by (rule wf_complete_iff)
next
  case (3 p)
  then show ?case by (simp add: wf_incomplete_no_overflow)
next
  case (4 p c m rest)
  then show ?case by (rule GetMessage_encoded)
qed

section \<open>Filling a parser from a socket\<close>

text \<open>
  The loop \<open>while (!parser_.HasCompleteMessage()) { recv(...); parser_.AddNewData(...); }\<close>
  of \<open>Agent::ReadNextMessage\<close>, \<open>Coordinator::ReadNextMessage\<close>,
  \<open>ChunkedFileReceiver::ReceiveNextChunk\<close> and the two \<open>WaitForMessage\<close>; they differ in the
  size of the buffer and in what they do with the result. It ends because every successful
  \<open>recv()\<close> uses up some of the events of the socket.
\<close>

datatype fill_status = FillDone | FillError | FillClosed

function fill_parser :: "nat \<Rightarrow> parser \<Rightarrow> sock \<Rightarrow> (fill_status \<times> parser \<times> sock) outcome" where
  "fill_parser n p s =
     (if HasCompleteMessage p then Ret (FillDone, p, s)
      else obind (sys_recv n s) (\<lambda>(r, s').
        case r of
          IoErr \<Rightarrow> Ret (FillError, p, s')
        | IoBytes bs \<Rightarrow>
            if bs = [] then Ret (FillClosed, p, s')
            else obind (AddNewData p bs) (\<lambda>p'. fill_parser n p' s')))"
  by pat_completeness auto
termination
  by (relation "measure (\<lambda>(n, p, s). rx_size (rx s))") (auto dest: sys_recv_progress)

declare fill_parser.simps [simp del]

text \<open>
  The stream a reader still has before it: what its parser holds, then what the socket
  will deliver. Filling the parser leaves it unchanged, and if it starts with a complete
  frame then the loop ends with that frame in the parser.
\<close>

definition pending :: "parser \<Rightarrow> sock \<Rightarrow> bytes" where
  "pending p s = unread p @ rx_stream (rx s)"

lemma fill_parser_complete:
  assumes "wf_parser p" and "0 < n" and "n < 2 ^ 32"
    and "split_frame (pending p s) = Some (body, rest)"
  shows "\<exists>p' s'. fill_parser n p s = Ret (FillDone, p', s') \<and> wf_parser p' \<and>
    pending p' s' = pending p s \<and> split_frame (unread p') \<noteq> None \<and> wire s' = wire s \<and> tx s' = tx s"
  using assms
proof (induction n p s rule: fill_parser.induct)
  case (1 n p s)
  show ?case
  proof (cases "HasCompleteMessage p")
    case True
    then have "split_frame (unread p) \<noteq> None" using "1.prems"(1) wf_complete_iff by blast
    then show ?thesis
      using True "1.prems"(1) by (simp add: fill_parser.simps [of n p s])
  next
    case False
    then have none: "split_frame (unread p) = None"
      using wf_complete_iff [OF "1.prems"(1)] by blast
    have "rx_stream (rx s) \<noteq> []"
      using none "1.prems"(4) by (auto simp: pending_def)
    then obtain bs s1 where r: "sys_recv n s = Ret (IoBytes bs, s1)" "bs \<noteq> []"
      using sys_recv_data "1.prems"(2) by blast
    have "length (overflow_message_data p) + length bs < 2 ^ 32"
      using sys_recv_bound [OF r(1)] "1.prems"(3) wf_incomplete_no_overflow [OF "1.prems"(1) False]
      by simp
    then obtain p1 where a: "AddNewData p bs = Ret p1" "wf_parser p1" "unread p1 = unread p @ bs"
      using AddNewData_refines [OF "1.prems"(1)] by blast
    have eq: "pending p1 s1 = pending p s"
      using a(3) sys_recv_stream [OF r(1)] by (simp add: pending_def)
    have "\<exists>p' s'. fill_parser n p1 s1 = Ret (FillDone, p', s') \<and> wf_parser p' \<and>
        pending p' s' = pending p1 s1 \<and> split_frame (unread p') \<noteq> None \<and>
        wire s' = wire s1 \<and> tx s' = tx s1"
      using "1.IH" [OF False r(1) refl refl r(2) a(1) a(2)] "1.prems" eq by simp
    then show ?thesis
      using False r a eq sys_recv_frame [OF r(1)] by (simp add: fill_parser.simps [of n p s])
  qed
qed

lemma fill_parser_closes: "fill_parser n p s = Ret (FillDone, p', s') \<Longrightarrow> closes (rx s') = closes (rx s)"
proof (induction n p s rule: fill_parser.induct)
  case (1 n p s)
  show ?case
  proof (cases "HasCompleteMessage p")
    case True
    then show ?thesis using "1.prems" by (simp add: fill_parser.simps [of n p s])
  next
    case False
    then obtain bs s1 p1 where "sys_recv n s = Ret (IoBytes bs, s1)" "bs \<noteq> []" "AddNewData p bs = Ret p1"
        "fill_parser n p1 s1 = Ret (FillDone, p', s')"
      using "1.prems"
      by (cases "sys_recv n s") (auto simp: fill_parser.simps [of n p s] outcome_simps split: io_result.splits if_splits)
    then show ?thesis using "1.IH" [OF False _ refl refl] sys_recv_closes by metis
  qed
qed

lemma fill_GetMessage:
  assumes "codec_ok c" and "ByteSizeLong c m < 2 ^ 31" and "wf_parser p"
    and "0 < n" and "n < 2 ^ 32" and "pending p s = frame (encode c m) @ rest"
  shows "\<exists>p1 s1 p2. fill_parser n p s = Ret (FillDone, p1, s1) \<and>
    GetMessage c p1 = Ret (Some m, p2) \<and> wf_parser p2 \<and> pending p2 s1 = rest \<and>
    wire s1 = wire s \<and> tx s1 = tx s"
proof -
  have "length (encode c m) < 2 ^ 32" using codec_okD(2) [OF assms(1,2)] assms(2) by simp
  then have split: "split_frame (pending p s) = Some (encode c m, rest)"
    using assms(6) by (simp add: split_frame_frame)
  from fill_parser_complete [OF assms(3-5) split] obtain p1 s1
    where f: "fill_parser n p s = Ret (FillDone, p1, s1)" "wf_parser p1"
      "pending p1 s1 = pending p s" "split_frame (unread p1) \<noteq> None" "wire s1 = wire s" "tx s1 = tx s"
    by blast
  then obtain body r where br: "split_frame (unread p1) = Some (body, r)" by auto
  then have "split_frame (pending p s) = Some (body, r @ rx_stream (rx s1))"
    using f(3) split_frame_append by (metis pending_def)
  with split br have "split_frame (unread p1) = Some (encode c m, r)" "rest = r @ rx_stream (rx s1)"
    by auto
  then show ?thesis
    using GetMessage_encoded [OF f(2) assms(1,2)] f by (auto simp: pending_def)
qed

text \<open>A concrete codec, whose messages are their own encoding, for the witnesses.\<close>

definition raw_codec :: "bytes codec" where
  "raw_codec =
     \<lparr>ByteSizeLong = length,
      SerializeToArray = (\<lambda>m n. if length m = n then Some m else None),
      ParseFromArray = (\<lambda>bs n. if 0 \<le> n then Some (take (nat n) bs) else None)\<rparr>"

lemma raw_codec_ok: "codec_ok raw_codec"
  by (simp add: codec_ok_def raw_codec_def)

text \<open>
  A codec for the messages of a table, one byte each; other messages are too large to send.
\<close>

definition table_codec :: "'m list \<Rightarrow> 'm codec" where
  "table_codec ms =
     \<lparr>ByteSizeLong = (\<lambda>m. if m \<in> set ms then 1 else 2 ^ 31),
      SerializeToArray = (\<lambda>m n. if m \<in> set ms \<and> n = 1
         then Some [of_nat (length (takeWhile (\<lambda>x. x \<noteq> m) ms))] else None),
      ParseFromArray = (\<lambda>bs n. case bs of
         [b] \<Rightarrow> if n = 1 \<and> unat b < length ms then Some (ms ! unat b) else None
       | _ \<Rightarrow> None)\<rparr>"

lemma table_codec_ok:
  assumes "length ms \<le> 256"
  shows "codec_ok (table_codec ms)"
proof -
  have "length (takeWhile (\<lambda>x. x \<noteq> m) ms) < length ms \<and> ms ! length (takeWhile (\<lambda>x. x \<noteq> m) ms) = m"
    if "m \<in> set ms" for m
    using that by (induction ms) auto
  moreover from this have "unat (of_nat (length (takeWhile (\<lambda>x. x \<noteq> m) ms)) :: u8) =
      length (takeWhile (\<lambda>x. x \<noteq> m) ms)" if "m \<in> set ms" for m
    using that assms by (force simp: unat_of_nat intro: take_bit_nat_eq_self)
  ultimately show ?thesis by (auto simp: codec_ok_def table_codec_def split: if_splits)
qed

section \<open>Properties\<close>

text \<open>
  C3. Adding data to a well-formed parser never leaves its buffers, keeps it well-formed,
  appends the data to the bytes it holds, and reports a complete message exactly when those
  bytes start with a complete frame. The data may have any length for which the 32-bit count
  of the overflow does not wrap.
\<close>

theorem AddNewData_correct:
  assumes "wf_parser p" and "length (overflow_message_data p) + length data < 2 ^ 32"
  shows "\<exists>p'. AddNewData p data = Ret p' \<and> wf_parser p' \<and> unread p' = unread p @ data \<and>
    (HasCompleteMessage p' \<longleftrightarrow> split_frame (unread p @ data) \<noteq> None)"
  using AddNewData_refines [OF assms] wf_complete_iff by metis

theorem AddNewData_correct_witness:
  "\<exists>p'. AddNewData new_parser [0, 0, 0, 1, 7] = Ret p' \<and> wf_parser p' \<and>
    unread p' = unread new_parser @ [0, 0, 0, 1, 7] \<and>
    (HasCompleteMessage p' \<longleftrightarrow> split_frame (unread new_parser @ [0, 0, 0, 1, 7]) \<noteq> None)"
  by (rule AddNewData_correct) (simp_all add: new_parser_def wf_parser_def)

text \<open>
  C2. Messages survive the wire however the network cuts the stream: if the pieces \<open>ds\<close>
  concatenate to the serialized messages \<open>ms\<close> followed by a rest, then a fresh parser that
  is fed the pieces one after the other hands out exactly the messages, in order, and is
  left holding the rest.
\<close>

theorem parser_stream_roundtrip:
  assumes "codec_ok c" and "\<forall>m\<in>set ms. ByteSizeLong c m < 2 ^ 31"
    and "concat ds = concat (map (\<lambda>m. snd (Serialize c m [])) ms) @ rest"
    and "length (concat ds) < 2 ^ 32"
  shows "\<exists>p p'. feed AddNewData new_parser ds = Ret p \<and>
    drain (GetMessage c) (length ms) p = Ret (map Some ms, p') \<and> unread p' = rest"
proof -
  have ser: "map (\<lambda>m. snd (Serialize c m [])) ms = map (\<lambda>m. frame (encode c m)) ms"
    using assms(1,2) by (auto simp: Serialize_frame)
  obtain p where p: "feed AddNewData new_parser ds = Ret p" "wf_parser p" "unread p = concat ds"
    using mp.feed_held [OF wf_new_parser, of ds] assms(4) by auto
  moreover have "unread p = concat (map (\<lambda>m. frame (encode c m)) ms) @ rest"
    using p(3) assms(3) ser by simp
  ultimately show ?thesis
    using mp.drain_frames [OF assms(1) _ p(2)] assms(2) by blast
qed

theorem parser_stream_roundtrip_witness:
  "\<exists>p p'. feed AddNewData new_parser [[0, 0], [0, 1], [7, 0, 0, 0], [0, 9]] = Ret p \<and>
    drain (GetMessage raw_codec) (length [[7], [] :: bytes]) p = Ret (map Some [[7], []], p') \<and>
    unread p' = [9]"
  by (rule parser_stream_roundtrip [OF raw_codec_ok])
    (simp_all add: raw_codec_def Serialize_def resize_def htonl_bytes_def)

text \<open>
  A reader that fills its parser from a socket and then takes the message gets the next
  message of the stream, whatever segments the socket delivers it in, and everything behind
  that message stays available to the next read.
\<close>

theorem fill_then_GetMessage:
  assumes "codec_ok c" and "ByteSizeLong c m < 2 ^ 31" and "wf_parser p"
    and "0 < n" and "n < 2 ^ 32" and "pending p s = snd (Serialize c m []) @ rest"
  shows "\<exists>p1 s1 p2. fill_parser n p s = Ret (FillDone, p1, s1) \<and>
    GetMessage c p1 = Ret (Some m, p2) \<and> wf_parser p2 \<and> pending p2 s1 = rest"
  using fill_GetMessage [OF assms(1-5), of s rest] assms(6)
  by (auto simp: Serialize_frame [OF assms(1,2)])

theorem fill_then_GetMessage_witness:
  "\<exists>p1 s1 p2. fill_parser 3 new_parser
      \<lparr>rx = [RxData [0, 0, 0, 1], RxData [7, 0], RxData [5]], tx = [], wire = [], errno = NoErr\<rparr>
      = Ret (FillDone, p1, s1) \<and>
    GetMessage raw_codec p1 = Ret (Some [7], p2) \<and> wf_parser p2 \<and> pending p2 s1 = [0, 5]"
  by (rule fill_then_GetMessage [OF raw_codec_ok])
    (simp_all add: raw_codec_def Serialize_def resize_def htonl_bytes_def pending_def)

text \<open>
  The bound on the data that \<open>AddNewData\<close> needs is sharp. The overflow is counted in 32 bits but copied in full: a
  parser that already has a complete message and is given a piece of exactly \<open>2 ^ 32\<close> bytes
  makes no room for it and writes outside its buffer.
\<close>

theorem SaveOverflow_wraps:
  assumes "pstate p = PARSING_DONE" and "overflow_message_data p = []" and "length data = 2 ^ 32"
  shows "AddNewData p data = Crash"
  using assms
  by (simp add: AddNewData_def ParseLength_def ParseMessage_def SaveOverflow_def slice_def
      blit_def resize_def)

theorem SaveOverflow_wraps_witness:
  "AddNewData (new_parser\<lparr>pstate := PARSING_DONE\<rparr>) (replicate (2 ^ 32) 0) = Crash"
  by (rule SaveOverflow_wraps) (simp_all add: new_parser_def)

end
