(* ===== verification/Chunked_Files.thy ===== *)
theory Chunked_Files
  imports Wire_Protocol
begin

text \<open>
  Model of \<open>common/chunked_files\<close>: \<open>ChunkedFileSender\<close> cuts a file into \<open>FileContents\<close>
  messages of at most 1000 bytes, \<open>ChunkedFileReceiver\<close> puts it together again. The
  generated class \<open>FileContents\<close> is a record with the fields of
  \<open>project1_2/proto/ftp_messages.proto\<close>; its encoding is the codec parameter.

  The lemmas follow a file from the sender's buffer over the wire into the receiver
  (\<open>chunked_roundtrip\<close>) and record what happens at the edges: an empty file, a send that
  fails in the middle of a chunk, a peer that disconnects in the middle of a message.
\<close>

section \<open>Messages\<close>

record FileContents =
  contents :: bytes
  is_last :: bool

text \<open>
  What the encoding of \<open>FileContents\<close> adds to the contents is a few bytes of tags and
  lengths; 24 is generous.
\<close>

definition chunk_codec_ok :: "FileContents codec \<Rightarrow> bool" where
  "chunk_codec_ok c \<longleftrightarrow>
     codec_ok c \<and> (\<forall>m. ByteSizeLong c m \<le> length (contents m) + 24)"

section \<open>The sender\<close>

abbreviation kChunkSize :: u64 where
  "kChunkSize \<equiv> 1000"

record sender =
  outgoing_message_buffer :: bytes
  send_contents :: bytes
  total_bytes_sent :: u32

definition new_sender :: sender where
  "new_sender = \<lparr>outgoing_message_buffer = [], send_contents = [], total_bytes_sent = 0\<rparr>"

definition SetFileContents :: "bytes \<Rightarrow> sender \<Rightarrow> sender" where
  "SetFileContents f sd = sd\<lparr>send_contents := f, total_bytes_sent := 0\<rparr>"

definition SentCompleteFile :: "sender \<Rightarrow> bool" where
  "SentCompleteFile sd \<longleftrightarrow> unat (total_bytes_sent sd) = length (send_contents sd)"

datatype send_status = SendErr | SendClosed | SendAll nat

text \<open>The loop around \<open>send()\<close> that hands over a whole buffer.\<close>

function send_loop :: "bytes \<Rightarrow> nat \<Rightarrow> sock \<Rightarrow> send_status \<times> sock" where
  "send_loop buf message_bytes_sent s =
     (if message_bytes_sent < length buf
      then case sys_send (drop message_bytes_sent buf) s of
             (Inl e, s') \<Rightarrow> (SendErr, s')
           | (Inr n, s') \<Rightarrow>
               if n = 0 then (SendClosed, s') else send_loop buf (message_bytes_sent + n) s'
      else (SendAll message_bytes_sent, s))"
  by pat_completeness auto
termination
  by (relation "measure (\<lambda>(buf, k, s). length buf - k)") auto

declare send_loop.simps [simp del]

definition SendNextChunk ::
  "FileContents codec \<Rightarrow> sender \<Rightarrow> sock \<Rightarrow> (int \<times> sender \<times> sock) outcome" where
  "SendNextChunk c sd s =
     (let size = of_nat (length (send_contents sd)) :: u64;
          total = ucast (total_bytes_sent sd) :: u64;
          kActualSize = min kChunkSize (size - total)
      in obind (slice (send_contents sd) (unat total) (unat total + unat kActualSize)) (\<lambda>chunk.
           let file_message = \<lparr>contents = chunk, is_last = (size \<le> total + kChunkSize)\<rparr>;
               (ok, out) = Serialize c file_message (outgoing_message_buffer sd);
               sd1 = sd\<lparr>outgoing_message_buffer := out\<rparr>
           in if \<not> ok then Ret (-1, sd1, s)
              else Ret (case send_loop out 0 s of
                     (SendErr, s') \<Rightarrow> (-1, sd1, s')
                   | (SendClosed, s') \<Rightarrow> (0, sd1, s')
                   | (SendAll n, s') \<Rightarrow>
                       (sint (of_nat n :: u32),
                        sd1\<lparr>total_bytes_sent := total_bytes_sent sd + ucast kActualSize\<rparr>, s'))))"

section \<open>The receiver\<close>

abbreviation kReceiverBufferSize :: nat where
  "kReceiverBufferSize \<equiv> 4096"

record receiver =
  fc_parser :: parser
  file_contents :: bytes
  complete_file :: bool

definition new_receiver :: receiver where
  "new_receiver = \<lparr>fc_parser = new_parser, file_contents = [], complete_file = False\<rparr>"

definition HasCompleteFile :: "receiver \<Rightarrow> bool" where
  "HasCompleteFile r \<longleftrightarrow> complete_file r"

definition Reset :: "receiver \<Rightarrow> receiver" where
  "Reset r = r\<lparr>fc_parser := ResetParser (fc_parser r), file_contents := [], complete_file := False\<rparr>"

definition GetFileContents :: "receiver \<Rightarrow> bytes \<times> receiver" where
  "GetFileContents r = (file_contents r, Reset r)"

definition ReceiveNextChunk ::
  "FileContents codec \<Rightarrow> receiver \<Rightarrow> sock \<Rightarrow> (int \<times> receiver \<times> sock) outcome" where
  "ReceiveNextChunk c r s =
     obind (fill_parser kReceiverBufferSize (fc_parser r) s) (\<lambda>(st, p, s').
       case st of
         FillError \<Rightarrow> Ret (-1, r\<lparr>fc_parser := p\<rparr>, s')
       | FillClosed \<Rightarrow> Ret (0, r\<lparr>fc_parser := p\<rparr>, s')
       | FillDone \<Rightarrow>
           obind (GetMessage c p) (\<lambda>(m, p').
             case m of
               None \<Rightarrow> Ret (-1, r\<lparr>fc_parser := p'\<rparr>, s')
             | Some file_message \<Rightarrow>
                 Ret (sint (of_nat (length (contents file_message)) :: u32),
                      r\<lparr>fc_parser := p',
                        file_contents := file_contents r @ contents file_message,
                        complete_file := (is_last file_message \<or> complete_file r)\<rparr>, s')))"

text \<open>
  \<open>CleanUp\<close> reads chunks until the parser holds no data. Nothing makes the loop end when
  the peer has disconnected, so it is a partial function: \<open>None\<close> is a loop that goes on for
  ever.
\<close>

partial_function (option) CleanUp ::
  "FileContents codec \<Rightarrow> receiver \<Rightarrow> sock \<Rightarrow> (bool \<times> receiver \<times> sock) outcome option" where
  "CleanUp c r s =
     (if HasOverflow (fc_parser r) \<or> HasPartialMessage (fc_parser r)
      then case ReceiveNextChunk c r s of
             Ret (n, r', s') \<Rightarrow>
               if n < 0 then Some (Ret (False, r', s')) else CleanUp c r' s'
           | Block \<Rightarrow> Some Block
           | Crash \<Rightarrow> Some Crash
      else Some (Ret (True, Reset r, s)))"

section \<open>Sending\<close>

lemma send_loop_accepting:
  "accepting s \<Longrightarrow> k \<le> length buf \<Longrightarrow>
   \<exists>s'. send_loop buf k s = (SendAll (length buf), s') \<and> wire s' = wire s @ drop k buf \<and>
     accepting s' \<and> rx s' = rx s"
proof (induction buf k s rule: send_loop.induct)
  case (1 buf k s)
  show ?case
  proof (cases "k < length buf")
    case True
    then obtain n s1 where n: "sys_send (drop k buf) s = (Inr n, s1)" "0 < n"
        "n \<le> length (drop k buf)" "wire s1 = wire s @ take n (drop k buf)" "accepting s1"
        "rx s1 = rx s"
      using sys_send_accepting [OF "1.prems"(1), of "drop k buf"] by auto
    then have "\<exists>s'. send_loop buf (k + n) s1 = (SendAll (length buf), s') \<and>
        wire s' = wire s1 @ drop (k + n) buf \<and> accepting s' \<and> rx s' = rx s1"
      using "1.IH" [OF True n(1) [symmetric] refl] True by auto
    moreover have "take n (drop k buf) @ drop (k + n) buf = drop k buf"
      by (metis add.commute append_take_drop_id drop_drop)
    ultimately show ?thesis
      using True n by (auto simp: send_loop.simps [of buf k s])
  next
    case False
    then show ?thesis using "1.prems" by (subst send_loop.simps) simp
  qed
qed

text \<open>The chunk that the next call sends, and its length on the wire.\<close>

definition next_chunk :: "bytes \<Rightarrow> nat \<Rightarrow> FileContents" where
  "next_chunk f t = \<lparr>contents = take 1000 (drop t f), is_last = (length f \<le> t + 1000)\<rparr>"

lemma chunk_codecD:
  assumes "chunk_codec_ok c"
  shows "codec_ok c" and "length (contents m) \<le> 1000 \<Longrightarrow> ByteSizeLong c m < 2 ^ 31"
    and "length (contents m) \<le> 1000 \<Longrightarrow> length (frame (encode c m)) \<le> 1028"
proof -
  show ok: "codec_ok c" using assms by (simp add: chunk_codec_ok_def)
  show small: "ByteSizeLong c m < 2 ^ 31" if "length (contents m) \<le> 1000"
    using assms that by (auto simp: chunk_codec_ok_def intro: le_less_trans [of _ 1024]
        dest: spec [of _ m])
  show "length (frame (encode c m)) \<le> 1028" if "length (contents m) \<le> 1000"
    using assms that codec_okD(2) [OF ok small [OF that]]
    by (auto simp: chunk_codec_ok_def frame_def dest: spec [of _ m])
qed

lemma unat_min_chunk:
  assumes "t \<le> n" and "n < 2 ^ 32"
  shows "unat (min kChunkSize (of_nat n - of_nat t)) = min 1000 (n - t)"
proof -
  have "unat (of_nat n - of_nat t :: u64) = n - t"
    using assms by (subst unat_sub_le) (auto simp: word_le_nat_alt)
  then show ?thesis by (simp add: unat_min)
qed

lemma SendNextChunk_send:
  assumes "chunk_codec_ok c" and "length (send_contents sd) < 2 ^ 32"
    and "unat (total_bytes_sent sd) < length (send_contents sd)"
    and m: "m = next_chunk (send_contents sd) (unat (total_bytes_sent sd))"
    and F: "F = frame (encode c m)"
  shows "SendNextChunk c sd s =
    Ret (case send_loop F 0 s of
           (SendErr, s') \<Rightarrow> (-1, sd\<lparr>outgoing_message_buffer := F\<rparr>, s')
         | (SendClosed, s') \<Rightarrow> (0, sd\<lparr>outgoing_message_buffer := F\<rparr>, s')
         | (SendAll n, s') \<Rightarrow>
             (sint (of_nat n :: u32),
              sd\<lparr>outgoing_message_buffer := F,
                 total_bytes_sent := of_nat (unat (total_bytes_sent sd) + length (contents m))\<rparr>, s'))"
proof -
  let ?f = "send_contents sd" and ?t = "unat (total_bytes_sent sd)"
  let ?size = "of_nat (length ?f) :: u64" and ?total = "ucast (total_bytes_sent sd) :: u64"
  have total: "?total = of_nat ?t" by simp
  have k: "unat (min kChunkSize (?size - ?total)) = min 1000 (length ?f - ?t)"
    using assms(2,3) unat_min_chunk [of ?t "length ?f"] by simp
  have "unat (of_nat ?t :: u64) = ?t"
    using unat_lt_u32 [of "total_bytes_sent sd"] by (intro unat_of_nat_u64) simp
  then have t64: "unat ?total = ?t" by (simp only: total)
  have cm: "contents m = take 1000 (drop ?t ?f)" using m by (simp add: next_chunk_def)
  have sl: "slice ?f (unat ?total) (unat ?total + unat (min kChunkSize (?size - ?total))) =
      Ret (contents m)"
    using assms(3) unfolding k t64 cm slice_def by (auto simp: min_def)
  have small: "?t + 1000 < 2 ^ 64" "length ?f < 2 ^ 64" using assms(2,3) by auto
  have last: "(?size \<le> ?total + kChunkSize) = is_last m"
    using small by (simp add: m next_chunk_def word_le_nat_alt unat_word_ariths t64)
  have len: "length (contents m) \<le> 1000" by (simp add: cm)
  note codec = chunk_codecD [OF assms(1)]
  have tot: "ucast (min kChunkSize (?size - ?total)) = (of_nat (length (contents m)) :: u32)"
    using arg_cong [OF k, where f = "of_nat :: nat \<Rightarrow> u32"] by (simp add: cm min.commute)
  have eta: "\<lparr>contents = contents m, is_last = is_last m\<rparr> = m" by simp
  have "Serialize c \<lparr>contents = contents m, is_last = is_last m\<rparr> buf = (True, frame (encode c m))"
    for buf
    unfolding eta by (rule Serialize_frame [OF codec(1) codec(2) [OF len]])
  then show ?thesis
    using sl last tot
    by (simp add: SendNextChunk_def Let_def F split: send_status.split prod.split)
qed

lemma SendNextChunk_step:
  assumes "chunk_codec_ok c" and "accepting s" and "length (send_contents sd) < 2 ^ 32"
    and "unat (total_bytes_sent sd) < length (send_contents sd)"
    and m: "m = next_chunk (send_contents sd) (unat (total_bytes_sent sd))"
  shows "\<exists>s'. SendNextChunk c sd s =
      Ret (int (length (frame (encode c m))),
        sd\<lparr>outgoing_message_buffer := frame (encode c m),
           total_bytes_sent := of_nat (unat (total_bytes_sent sd) + length (contents m))\<rparr>, s') \<and>
    wire s' = wire s @ frame (encode c m) \<and> accepting s' \<and> rx s' = rx s"
proof -
  obtain s' where s': "send_loop (frame (encode c m)) 0 s = (SendAll (length (frame (encode c m))), s')"
      "wire s' = wire s @ frame (encode c m)" "accepting s'" "rx s' = rx s"
    using send_loop_accepting [OF assms(2), of 0 "frame (encode c m)"] by auto
  have "length (contents m) \<le> 1000" by (simp add: m next_chunk_def)
  then have "sint (of_nat (length (frame (encode c m))) :: u32) = int (length (frame (encode c m)))"
    using chunk_codecD(3) [OF assms(1), of m] by (intro sint_of_nat_u32) simp
  then show ?thesis
    using s' SendNextChunk_send [OF assms(1,3-5) refl, of s] by simp
qed

section \<open>Receiving\<close>

lemma ReceiveNextChunk_step:
  assumes "chunk_codec_ok c" and "wf_parser (fc_parser r)" and "length (contents m) \<le> 1000"
    and "pending (fc_parser r) s = frame (encode c m) @ rest"
  shows "\<exists>p' s'. ReceiveNextChunk c r s =
      Ret (int (length (contents m)),
        r\<lparr>fc_parser := p', file_contents := file_contents r @ contents m,
          complete_file := (is_last m \<or> complete_file r)\<rparr>, s') \<and>
    wf_parser p' \<and> pending p' s' = rest \<and> wire s' = wire s \<and> tx s' = tx s"
proof -
  note codec = chunk_codecD [OF assms(1)]
  obtain p1 s1 p2 where f: "fill_parser kReceiverBufferSize (fc_parser r) s = Ret (FillDone, p1, s1)"
      "GetMessage c p1 = Ret (Some m, p2)" "wf_parser p2" "pending p2 s1 = rest"
      "wire s1 = wire s" "tx s1 = tx s"
    using fill_GetMessage [OF codec(1) codec(2) [OF assms(3)] assms(2) _ _ assms(4),
        of kReceiverBufferSize] by auto
  moreover have "sint (of_nat (length (contents m)) :: u32) = int (length (contents m))"
    using assms(3) by (intro sint_of_nat_u32) simp
  ultimately show ?thesis by (simp add: ReceiveNextChunk_def) blast
qed

lemma ReceiveNextChunk_sock:
  assumes "fill_parser kReceiverBufferSize (fc_parser r) s = Ret (FillDone, p, t)"
    and "ReceiveNextChunk c r s = Ret (n, r', s')"
  shows "s' = t"
  using assms by (auto simp: ReceiveNextChunk_def outcome_simps split: option.splits)

section \<open>A whole file\<close>

text \<open>
  The specification of the cutting: the chunks of a file, in order. The first argument of
  \<open>SendChunks\<close> and \<open>ReceiveChunks\<close> bounds the number of calls; both stop as their callers do,
  when the file is complete.
\<close>

function chunk_list :: "bytes \<Rightarrow> FileContents list" where
  "chunk_list f =
     (if length f \<le> 1000 then [\<lparr>contents = f, is_last = True\<rparr>]
      else \<lparr>contents = take 1000 f, is_last = False\<rparr> # chunk_list (drop 1000 f))"
  by pat_completeness auto
termination
  by (relation "measure length") auto

declare chunk_list.simps [simp del]

fun SendChunks ::
  "FileContents codec \<Rightarrow> nat \<Rightarrow> sender \<Rightarrow> sock \<Rightarrow> (int list \<times> sender \<times> sock) outcome" where
  "SendChunks c 0 sd s = Ret ([], sd, s)"
| "SendChunks c (Suc n) sd s =
     (if SentCompleteFile sd then Ret ([], sd, s)
      else obind (SendNextChunk c sd s) (\<lambda>(k, sd', s').
           obind (SendChunks c n sd' s') (\<lambda>(ks, r). Ret (k # ks, r))))"

fun ReceiveChunks ::
  "FileContents codec \<Rightarrow> nat \<Rightarrow> receiver \<Rightarrow> sock \<Rightarrow> (int list \<times> receiver \<times> sock) outcome" where
  "ReceiveChunks c 0 r s = Ret ([], r, s)"
| "ReceiveChunks c (Suc n) r s =
     (if HasCompleteFile r then Ret ([], r, s)
      else obind (ReceiveNextChunk c r s) (\<lambda>(k, r', s').
           obind (ReceiveChunks c n r' s') (\<lambda>(ks, x). Ret (k # ks, x))))"

definition chunk_stream :: "FileContents codec \<Rightarrow> bytes \<Rightarrow> bytes" where
  "chunk_stream c f = concat (map (\<lambda>m. frame (encode c m)) (chunk_list f))"

lemma chunk_list_not_Nil [simp]: "chunk_list f \<noteq> []"
  by (subst chunk_list.simps) simp

lemma next_chunk_drop:
  "t \<le> length f \<Longrightarrow> next_chunk f t = next_chunk (drop t f) 0"
  by (auto simp: next_chunk_def)

lemma chunk_list_cons:
  "chunk_list f = next_chunk f 0 # (if length f \<le> 1000 then [] else chunk_list (drop 1000 f))"
  by (subst chunk_list.simps) (simp add: next_chunk_def)

lemma chunk_stream_cons:
  "chunk_stream c f = frame (encode c (next_chunk f 0)) @
     (if length f \<le> 1000 then [] else chunk_stream c (drop 1000 f))"
  by (simp add: chunk_stream_def chunk_list_cons [of f])

lemma chunk_list_contents: "concat (map contents (chunk_list f)) = f"
proof (induction f rule: chunk_list.induct)
  case (1 f)
  then show ?case by (subst chunk_list.simps) simp
qed

lemma SendChunks_stream:
  assumes "chunk_codec_ok c"
  shows "accepting s \<Longrightarrow> length (send_contents sd) < 2 ^ 32 \<Longrightarrow>
    unat (total_bytes_sent sd) < length (send_contents sd) \<Longrightarrow>
    f = drop (unat (total_bytes_sent sd)) (send_contents sd) \<Longrightarrow> length (chunk_list f) \<le> n \<Longrightarrow>
    \<exists>ks sd' s'. SendChunks c n sd s = Ret (ks, sd', s') \<and> SentCompleteFile sd' \<and>
      ks = map (\<lambda>m. int (length (frame (encode c m)))) (chunk_list f) \<and>
      wire s' = wire s @ chunk_stream c f \<and> accepting s'"
proof (induction f arbitrary: n sd s rule: chunk_list.induct)
  case (1 f)
  let ?t = "unat (total_bytes_sent sd)"
  let ?m = "next_chunk (send_contents sd) ?t"
  obtain k where n: "n = Suc k" "length (chunk_list f) \<le> Suc k"
    using "1.prems"(5) by (cases n) auto
  have hd: "?m = next_chunk f 0" "contents ?m = take 1000 f"
    using "1.prems"(3,4) next_chunk_drop [of ?t "send_contents sd"]
    by (simp_all add: next_chunk_def)
  obtain s1 where s1: "SendNextChunk c sd s = Ret (int (length (frame (encode c ?m))),
        sd\<lparr>outgoing_message_buffer := frame (encode c ?m),
           total_bytes_sent := of_nat (?t + length (contents ?m))\<rparr>, s1)"
      "wire s1 = wire s @ frame (encode c ?m)" "accepting s1"
    using SendNextChunk_step [OF assms "1.prems"(1-3) refl] by blast
  have go: "\<not> SentCompleteFile sd" using "1.prems"(3) by (simp add: SentCompleteFile_def)
  let ?sd = "sd\<lparr>outgoing_message_buffer := frame (encode c ?m),
           total_bytes_sent := of_nat (?t + length (contents ?m))\<rparr>"
  have t': "unat (total_bytes_sent ?sd) = ?t + min 1000 (length f)"
    using "1.prems"(2-4) hd(2) unat_of_nat_u32 [of "?t + length (contents ?m)"]
    by (simp del: of_nat_add add: min.commute)
  show ?case
  proof (cases "length f \<le> 1000")
    case True
    then have "SentCompleteFile ?sd"
      using t' "1.prems"(3,4) by (simp add: SentCompleteFile_def)
    then show ?thesis
      using True n s1 go hd(1)
      by (cases k) (auto simp: chunk_stream_cons [of c f] chunk_list_cons [of f])
  next
    case False
    have "drop (unat (total_bytes_sent ?sd)) (send_contents ?sd) = drop 1000 f"
      using t' False "1.prems"(4) by (simp add: add.commute)
    moreover have "length (chunk_list (drop 1000 f)) \<le> k"
      using n(2) False by (simp add: chunk_list_cons [of f])
    ultimately have "\<exists>ks sd' s'. SendChunks c k ?sd s1 = Ret (ks, sd', s') \<and> SentCompleteFile sd' \<and>
        ks = map (\<lambda>m. int (length (frame (encode c m)))) (chunk_list (drop 1000 f)) \<and>
        wire s' = wire s1 @ chunk_stream c (drop 1000 f) \<and> accepting s'"
      using False t' "1.prems"(2-4) s1(3) by (intro "1.IH") auto
    then show ?thesis
      using False n(1) s1 go hd(1)
      by (auto simp: chunk_stream_cons [of c f] chunk_list_cons [of f])
  qed
qed

lemma ReceiveChunks_stream:
  assumes "chunk_codec_ok c"
  shows "wf_parser (fc_parser r) \<Longrightarrow> \<not> HasCompleteFile r \<Longrightarrow> length (chunk_list f) \<le> n \<Longrightarrow>
    pending (fc_parser r) s = chunk_stream c f @ rest \<Longrightarrow>
    \<exists>ks r' s'. ReceiveChunks c n r s = Ret (ks, r', s') \<and> HasCompleteFile r' \<and>
      ks = map (\<lambda>m. int (length (contents m))) (chunk_list f) \<and>
      file_contents r' = file_contents r @ f \<and> wf_parser (fc_parser r') \<and>
      pending (fc_parser r') s' = rest"
proof (induction f arbitrary: n r s rule: chunk_list.induct)
  case (1 f)
  let ?m = "next_chunk f 0"
  obtain k where n: "n = Suc k" "length (chunk_list f) \<le> Suc k"
    using "1.prems"(3) by (cases n) auto
  have m: "contents ?m = take 1000 f" "is_last ?m \<longleftrightarrow> length f \<le> 1000"
    by (simp_all add: next_chunk_def)
  define rest' where "rest' = (if length f \<le> 1000 then rest else chunk_stream c (drop 1000 f) @ rest)"
  have "pending (fc_parser r) s = frame (encode c ?m) @ rest'"
    using "1.prems"(4) by (auto simp: chunk_stream_cons [of c f] rest'_def)
  from ReceiveNextChunk_step [OF assms "1.prems"(1) _ this] obtain p1 s1
    where s1: "ReceiveNextChunk c r s = Ret (int (length (contents ?m)),
        r\<lparr>fc_parser := p1, file_contents := file_contents r @ contents ?m,
          complete_file := (is_last ?m \<or> complete_file r)\<rparr>, s1)"
      "wf_parser p1" "pending p1 s1 = rest'"
    using m(1) by auto
  let ?r = "r\<lparr>fc_parser := p1, file_contents := file_contents r @ contents ?m,
          complete_file := (is_last ?m \<or> complete_file r)\<rparr>"
  show ?case
  proof (cases "length f \<le> 1000")
    case True
    then show ?thesis
      using n s1 m "1.prems"(2)
      by (cases k) (auto simp: rest'_def HasCompleteFile_def chunk_list_cons [of f])
  next
    case False
    have "\<exists>ks r' s'. ReceiveChunks c k ?r s1 = Ret (ks, r', s') \<and> HasCompleteFile r' \<and>
        ks = map (\<lambda>m. int (length (contents m))) (chunk_list (drop 1000 f)) \<and>
        file_contents r' = file_contents ?r @ drop 1000 f \<and> wf_parser (fc_parser r') \<and>
        pending (fc_parser r') s' = rest"
      using False s1 m "1.prems"(2) n(2)
      by (intro "1.IH") (auto simp: rest'_def HasCompleteFile_def chunk_list_cons [of f])
    then show ?thesis
      using False n(1) s1 m "1.prems"(2) by (auto simp: chunk_list_cons [of f])
  qed
qed

text \<open>A concrete codec for the witnesses: one flag byte, then the contents.\<close>

definition flag_codec :: "FileContents codec" where
  "flag_codec =
     \<lparr>ByteSizeLong = (\<lambda>m. Suc (length (contents m))),
      SerializeToArray = (\<lambda>m n. if n = Suc (length (contents m))
         then Some ((if is_last m then 1 else 0) # contents m) else None),
      ParseFromArray = (\<lambda>bs n. if 0 < n \<and> nat n \<le> length bs
         then Some \<lparr>contents = tl (take (nat n) bs), is_last = (hd bs = 1)\<rparr> else None)\<rparr>"

lemma flag_codec_ok: "chunk_codec_ok flag_codec"
  by (auto simp: chunk_codec_ok_def codec_ok_def flag_codec_def)

section \<open>Properties\<close>



text \<open>
  An empty file is never sent: right after \<open>SetFileContents\<close> the sender already
  counts it as sent, so a caller that sends until \<open>SentCompleteFile\<close> puts nothing on the
  wire, and the receiver, which waits for a chunk marked as the last one, gets none. Were the
  chunk of an empty file sent all the same, the receiver would return 0, which its callers
  take for a disconnected peer.
\<close>

theorem empty_file_not_sent:
  assumes "chunk_codec_ok c"
    and "rx_stream (rx t) = frame (encode c \<lparr>contents = [], is_last = True\<rparr>) @ rest"
  shows "SendChunks c n (SetFileContents [] sd) s = Ret ([], SetFileContents [] sd, s) \<and>
    (\<exists>r t'. ReceiveNextChunk c new_receiver t = Ret (0, r, t') \<and> HasCompleteFile r)"
proof -
  have "SentCompleteFile (SetFileContents [] sd)"
    by (simp add: SentCompleteFile_def SetFileContents_def)
  then have "SendChunks c n (SetFileContents [] sd) s = Ret ([], SetFileContents [] sd, s)"
    by (cases n) auto
  moreover have "\<exists>r t'. ReceiveNextChunk c new_receiver t = Ret (0, r, t') \<and> HasCompleteFile r"
    using ReceiveNextChunk_step [OF assms(1), of new_receiver "\<lparr>contents = [], is_last = True\<rparr>" t rest]
      assms(2)
    by (auto simp: new_receiver_def pending_def HasCompleteFile_def)
  ultimately show ?thesis by blast
qed

theorem empty_file_not_sent_witness:
  "SendChunks flag_codec 5 (SetFileContents [] new_sender)
      \<lparr>rx = [], tx = [], wire = [], errno = NoErr\<rparr> =
    Ret ([], SetFileContents [] new_sender, \<lparr>rx = [], tx = [], wire = [], errno = NoErr\<rparr>) \<and>
    (\<exists>r t'. ReceiveNextChunk flag_codec new_receiver
        \<lparr>rx = [RxData [0, 0, 0, 1, 1]], tx = [], wire = [], errno = NoErr\<rparr> = Ret (0, r, t') \<and>
      HasCompleteFile r)"
  by (rule empty_file_not_sent [OF flag_codec_ok, where rest = "[]"])
    (simp add: frame_def encode_def flag_codec_def htonl_bytes_def)

text \<open>
  A send that times out in the middle of a chunk corrupts the stream. \<open>SendNextChunk\<close>
  forgets how much of the chunk the kernel already took, so the retry that \<open>UploadTask\<close> makes
  after a timeout sends the whole chunk again behind its first \<open>k\<close> bytes.
\<close>

theorem SendNextChunk_retry_repeats:
  assumes "chunk_codec_ok c" and "length (send_contents sd) < 2 ^ 32"
    and "unat (total_bytes_sent sd) < length (send_contents sd)"
    and "tx s = [TxAccept k, TxErr e]" and "0 < k"
    and "F = frame (encode c (next_chunk (send_contents sd) (unat (total_bytes_sent sd))))"
    and "k < length F"
  shows "\<exists>sd1 s1. SendNextChunk c sd s = Ret (-1, sd1, s1) \<and> errno s1 = e \<and>
    (\<exists>n sd2 s2. SendNextChunk c sd1 s1 = Ret (n, sd2, s2) \<and> wire s2 = wire s @ take k F @ F)"
proof -
  let ?s1 = "s\<lparr>tx := [], wire := wire s @ take k F, errno := e\<rparr>"
  let ?sd1 = "sd\<lparr>outgoing_message_buffer := F\<rparr>"
  have fail: "send_loop F 0 s = (SendErr, ?s1)"
    using assms(4,5,7)
    by (auto simp: send_loop.simps [of F 0] send_loop.simps [of F k] sys_send_def min_def)
  have "SendNextChunk c sd s = Ret (-1, ?sd1, ?s1)"
    using SendNextChunk_send [OF assms(1-3) refl assms(6), of s] fail by simp
  moreover have "\<exists>n sd2 s2. SendNextChunk c ?sd1 ?s1 = Ret (n, sd2, s2) \<and>
      wire s2 = wire ?s1 @ F"
    using SendNextChunk_step [OF assms(1), of ?s1 ?sd1] assms(2,3,6)
    by (auto simp: accepting_def)
  ultimately show ?thesis by auto
qed

theorem SendNextChunk_retry_repeats_witness:
  "\<exists>sd1 s1. SendNextChunk flag_codec (SetFileContents [5, 6] new_sender)
      \<lparr>rx = [], tx = [TxAccept 2, TxErr EAGAIN], wire = [], errno = NoErr\<rparr> = Ret (-1, sd1, s1) \<and>
    errno s1 = EAGAIN \<and>
    (\<exists>n sd2 s2. SendNextChunk flag_codec sd1 s1 = Ret (n, sd2, s2) \<and>
      wire s2 = [0, 0, 0, 0, 0, 3, 1, 5, 6])"
  using SendNextChunk_retry_repeats [OF flag_codec_ok, of "SetFileContents [5, 6] new_sender"
      "\<lparr>rx = [], tx = [TxAccept 2, TxErr EAGAIN], wire = [], errno = NoErr\<rparr>" 2 EAGAIN
      "[0, 0, 0, 3, 1, 5, 6]"]
  by (simp add: SetFileContents_def frame_def encode_def flag_codec_def htonl_bytes_def
      next_chunk_def)

text \<open>
  \<open>CleanUp\<close> never returns once the peer has disconnected in the middle of a message:
  \<open>ReceiveNextChunk\<close> returns 0, which is no error, and the partial message stays.
\<close>

theorem CleanUp_diverges:
  assumes "HasPartialMessage (fc_parser r)" and "\<not> HasCompleteMessage (fc_parser r)"
    and "rx s = RxEof # es"
  shows "CleanUp c r s = None"
proof -
  have "\<not> (HasPartialMessage (fc_parser r) \<and> \<not> HasCompleteMessage (fc_parser r) \<and>
      rx s = RxEof # es)" if "CleanUp c r s = Some y" for y
  proof (rule CleanUp.raw_induct [OF _ that], goal_cases)
    case (1 rec c' r s y)
    show ?case
    proof
      assume bad: "HasPartialMessage (fc_parser r) \<and> \<not> HasCompleteMessage (fc_parser r) \<and>
        rx s = RxEof # es"
      then have "ReceiveNextChunk c' r s = Ret (0, r, s)"
        by (simp add: ReceiveNextChunk_def fill_parser.simps [of _ "fc_parser r"] sys_recv_def)
      then have "rec c' r s = Some y" using bad 1(2) by simp
      then show False using bad 1(1) by blast
    qed
  qed
  then show ?thesis using assms by (cases "CleanUp c r s") auto
qed

theorem CleanUp_diverges_witness:
  "CleanUp flag_codec (new_receiver\<lparr>fc_parser := new_parser\<lparr>got_length_bytes := 1\<rparr>\<rparr>)
     \<lparr>rx = [RxEof], tx = [], wire = [], errno = NoErr\<rparr> = None"
  by (rule CleanUp_diverges)
    (simp_all add: HasPartialMessage_def HasCompleteMessage_def new_receiver_def new_parser_def)

text \<open>
  \<open>GetFileContents\<close> loses what arrived behind the file. If the last chunk of a file and
  the sender's next message come in one segment, both are in the receiver's parser when the
  file is complete, and \<open>GetFileContents\<close> resets that parser: neither the parser nor the
  socket has the next message any more.
\<close>

theorem GetFileContents_drops_overflow:
  assumes "chunk_codec_ok c" and "length f \<le> 1000" and "next_message \<noteq> []"
    and "rx s = [RxData (chunk_stream c f @ next_message)]"
    and "length (chunk_stream c f @ next_message) \<le> kReceiverBufferSize"
  shows "\<exists>n r s'. ReceiveNextChunk c new_receiver s = Ret (n, r, s') \<and> HasCompleteFile r \<and>
    pending (fc_parser r) s' = next_message \<and> fst (GetFileContents r) = f \<and>
    pending (fc_parser (snd (GetFileContents r))) s' = []"
proof -
  let ?d = "chunk_stream c f @ next_message" and ?m = "next_chunk f 0"
  have stream: "chunk_stream c f = frame (encode c ?m)"
    using assms(2) by (simp add: chunk_stream_cons [of c f])
  have m: "contents ?m = f" "is_last ?m" using assms(2) by (simp_all add: next_chunk_def)
  have "pending (fc_parser new_receiver) s = frame (encode c ?m) @ next_message"
    using assms(4) stream by (simp add: pending_def new_receiver_def)
  from ReceiveNextChunk_step [OF assms(1) _ _ this] obtain p' s'
    where r: "ReceiveNextChunk c new_receiver s = Ret (int (length (contents ?m)),
        new_receiver\<lparr>fc_parser := p', file_contents := file_contents new_receiver @ contents ?m,
          complete_file := (is_last ?m \<or> complete_file new_receiver)\<rparr>, s')"
      "pending p' s' = next_message"
    using m assms(2) by (auto simp: new_receiver_def)
  have d: "?d \<noteq> []" using assms(3) by simp
  obtain p1 where p1: "AddNewData new_parser ?d = Ret p1" "wf_parser p1" "unread p1 = ?d"
    using AddNewData_refines [of new_parser ?d] assms(5) by auto
  have "length (encode c ?m) < 2 ^ 32"
    using chunk_codecD(3) [OF assms(1), of ?m] m assms(2) by (simp add: frame_def)
  then have "HasCompleteMessage p1"
    using p1 wf_complete_iff stream by (simp add: split_frame_frame)
  then have "fill_parser kReceiverBufferSize p1 (s\<lparr>rx := []\<rparr>) = Ret (FillDone, p1, s\<lparr>rx := []\<rparr>)"
    by (subst fill_parser.simps) simp
  moreover have "sys_recv kReceiverBufferSize s = Ret (IoBytes ?d, s\<lparr>rx := []\<rparr>)"
    by (rule sys_recv_segment [OF assms(4) d assms(5)])
  ultimately have "fill_parser kReceiverBufferSize new_parser s = Ret (FillDone, p1, s\<lparr>rx := []\<rparr>)"
    using p1(1) d by (subst fill_parser.simps) simp
  then have "rx s' = []"
    using r(1) ReceiveNextChunk_sock [of new_receiver s p1 "s\<lparr>rx := []\<rparr>" c]
    by (simp add: new_receiver_def)
  then show ?thesis
    using r m by (auto simp: GetFileContents_def Reset_def HasCompleteFile_def new_receiver_def
        pending_def)
qed

theorem GetFileContents_drops_overflow_witness:
  "\<exists>n r s'. ReceiveNextChunk flag_codec new_receiver
      \<lparr>rx = [RxData [0, 0, 0, 2, 1, 5, 77, 78]], tx = [], wire = [], errno = NoErr\<rparr> =
      Ret (n, r, s') \<and> HasCompleteFile r \<and>
    pending (fc_parser r) s' = [77, 78] \<and> fst (GetFileContents r) = [5] \<and>
    pending (fc_parser (snd (GetFileContents r))) s' = []"
  by (rule GetFileContents_drops_overflow [OF flag_codec_ok])
    (simp_all add: chunk_stream_def chunk_list.simps frame_def encode_def flag_codec_def
      htonl_bytes_def)

end
