(* ===== verification/Ftp_Agent.thy ===== *)
theory Ftp_Agent
  imports Chunked_Files Command_Ids File_Handler
begin

text \<open>
  Model of the FTP server's session logic, \<open>project1_2/server/server_tasks/agent\<close> and
  \<open>agent_task\<close>: an \<open>Agent\<close> reads requests from its client's socket and dispatches each to a
  handler. The generated message classes are datatypes with one constructor per member of
  the \<open>oneof\<close> in \<open>ftp_messages.proto\<close>.

  The command ids are shared with the other agents of the server. What those do in between
  is an input: before each of its accesses the agent applies the next function of \<open>env\<close> to
  the shared object. The file system is accessed under the locks of \<open>File_Access\<close>; here an
  operation of the file handler is one step. Loops that the peer or a full id set can keep
  going for ever are partial functions, with \<open>None\<close> for divergence.
\<close>

section \<open>Messages\<close>

datatype Request =
    NoRequest
  | GetRequest string
  | PutRequest string
  | DeleteRequest string
  | ListRequest
  | ChangeDirRequest bool string
  | MakeDirRequest string
  | PwdRequest
  | QuitRequest
  | TerminateRequest u32
  | FileContentsRequest FileContents

datatype Response =
    EmptyResponse
  | GetResponse u32
  | ListResponse "string list"
  | PwdResponse string
  | PutResponse u32

datatype client_state = ACTIVE | DISCONNECTED | ERROR

section \<open>State\<close>

text \<open>The code outside the repository that an agent calls.\<close>

record 'f ftp_env =
  request_codec :: "Request codec"
  response_codec :: "Response codec"
  contents_codec :: "FileContents codec"
  fsops :: "'f fs_ops"

record 'f agent =
  client :: sock
  agent_parser :: parser
  outgoing :: bytes
  handler :: "file_handler option"
  commands :: command_ids
  env :: "(command_ids \<Rightarrow> command_ids) list"
  files :: 'f

text \<open>The two constructors: for the port of the normal commands, and for termination.\<close>

definition new_agent :: "file_handler option \<Rightarrow> sock \<Rightarrow> command_ids \<Rightarrow> 'f \<Rightarrow> 'f agent" where
  "new_agent h s ids f =
     \<lparr>client = s, agent_parser = new_parser, outgoing = [], handler = h, commands = ids, env = [],
      files = f\<rparr>"

text \<open>The other agents use the shared command ids.\<close>

definition interfere :: "'f agent \<Rightarrow> 'f agent" where
  "interfere a =
     (case env a of [] \<Rightarrow> a | g # gs \<Rightarrow> a\<lparr>commands := g (commands a), env := gs\<rparr>)"

definition agent_Insert :: "u32 \<Rightarrow> 'f agent \<Rightarrow> 'f agent" where
  "agent_Insert i a = (let b = interfere a in b\<lparr>commands := Insert (ucast i) (commands b)\<rparr>)"

definition agent_Delete :: "u32 \<Rightarrow> 'f agent \<Rightarrow> 'f agent" where
  "agent_Delete i a = (let b = interfere a in b\<lparr>commands := Delete (ucast i) (commands b)\<rparr>)"

definition agent_Contains :: "u16 \<Rightarrow> 'f agent \<Rightarrow> bool \<times> 'f agent" where
  "agent_Contains i a = (let b = interfere a in (Contains i (commands b), b))"

definition agent_GenerateID :: "'f agent \<Rightarrow> (u32 \<times> 'f agent) option" where
  "agent_GenerateID a =
     (let b = interfere a
      in case GenerateID (commands b) of
           None \<Rightarrow> None
         | Some (i, ids) \<Rightarrow> Some (ucast i, b\<lparr>commands := ids\<rparr>))"

section \<open>Reading\<close>

abbreviation kClientBufferSize :: nat where
  "kClientBufferSize \<equiv> 1000"

definition ReadNextMessage ::
  "'f ftp_env \<Rightarrow> 'f agent \<Rightarrow> (client_state \<times> Request option \<times> 'f agent) outcome" where
  "ReadNextMessage e a =
     obind (fill_parser kClientBufferSize (agent_parser a) (client a)) (\<lambda>(st, p, s).
       case st of
         FillError \<Rightarrow> Ret (ERROR, None, a\<lparr>agent_parser := ResetParser p, client := s\<rparr>)
       | FillClosed \<Rightarrow> Ret (DISCONNECTED, None, a\<lparr>agent_parser := p, client := s\<rparr>)
       | FillDone \<Rightarrow>
           obind (GetMessage (request_codec e) p) (\<lambda>(m, p').
             let b = a\<lparr>agent_parser := p', client := s\<rparr>
             in case m of
                  None \<Rightarrow> Ret (ERROR, None, b)
                | Some message \<Rightarrow> Ret (ACTIVE, Some message, b)))"

partial_function (option) ReadFileContents_loop ::
  "'f ftp_env \<Rightarrow> u16 \<Rightarrow> receiver \<Rightarrow> 'f agent \<Rightarrow> (client_state \<times> bytes option \<times> 'f agent) outcome option"
where
  "ReadFileContents_loop e command_id r a =
     (if HasCompleteFile r then Some (Ret (ACTIVE, Some (fst (GetFileContents r)), a))
      else
        (case agent_Contains command_id a of (listed, b) \<Rightarrow>
           (case ReceiveNextChunk (contents_codec e) r (client b) of
              Ret (bytes_read, r', s) \<Rightarrow>
                let b' = b\<lparr>client := s\<rparr>
                in if bytes_read < 0 then Some (Ret (ERROR, None, b'))
                   else if bytes_read = 0 then Some (Ret (DISCONNECTED, None, b'))
                   else if \<not> listed then
                     (case CleanUp (contents_codec e) r' s of
                        None \<Rightarrow> None
                      | Some (Ret (ok, r'', s')) \<Rightarrow>
                          Some (Ret (if ok then ACTIVE else ERROR, None, b\<lparr>client := s'\<rparr>))
                      | Some Block \<Rightarrow> Some Block
                      | Some Crash \<Rightarrow> Some Crash)
                   else ReadFileContents_loop e command_id r' b'
            | Block \<Rightarrow> Some Block
            | Crash \<Rightarrow> Some Crash)))"

text \<open>The output parameter \<open>file_contents\<close> keeps its initial value, empty, unless it is assigned.\<close>

definition ReadFileContents ::
  "'f ftp_env \<Rightarrow> u32 \<Rightarrow> 'f agent \<Rightarrow> (client_state \<times> bytes option \<times> 'f agent) outcome option" where
  "ReadFileContents e command_id a = ReadFileContents_loop e (ucast command_id) new_receiver a"

section \<open>Sending\<close>

definition SendResponse :: "'f ftp_env \<Rightarrow> Response \<Rightarrow> 'f agent \<Rightarrow> bool \<times> 'f agent" where
  "SendResponse e response a =
     (case Serialize (response_codec e) response (outgoing a) of
        (ok, out) \<Rightarrow>
          if \<not> ok then (False, a\<lparr>outgoing := out\<rparr>)
          else (case sys_send out (client a) of
                  (Inl err, s) \<Rightarrow> (False, a\<lparr>outgoing := out, client := s\<rparr>)
                | (Inr n, s) \<Rightarrow> (True, a\<lparr>outgoing := out, client := s\<rparr>)))"

partial_function (option) SendFileContents_loop ::
  "'f ftp_env \<Rightarrow> u16 \<Rightarrow> bool \<Rightarrow> sender \<Rightarrow> 'f agent \<Rightarrow> (bool \<times> 'f agent) outcome option" where
  "SendFileContents_loop e command_id terminated sd a =
     (if SentCompleteFile sd then Some (Ret (True, a))
      else if terminated then Some (Ret (True, a))
      else
        (case SendNextChunk (contents_codec e) sd (client a) of
           Ret (bytes_sent, sd', s) \<Rightarrow>
             if bytes_sent = -1 then Some (Ret (False, a\<lparr>client := s\<rparr>))
             else (case agent_Contains command_id (a\<lparr>client := s\<rparr>) of (listed, b) \<Rightarrow>
                     SendFileContents_loop e command_id (\<not> listed) sd' b)
         | Block \<Rightarrow> Some Block
         | Crash \<Rightarrow> Some Crash))"

definition SendFileContents ::
  "'f ftp_env \<Rightarrow> bytes \<Rightarrow> u32 \<Rightarrow> 'f agent \<Rightarrow> (bool \<times> 'f agent) outcome option" where
  "SendFileContents e data command_id a =
     SendFileContents_loop e (ucast command_id) False (SetFileContents data new_sender) a"

section \<open>Request handlers\<close>

type_synonym 'f handled = "(client_state \<times> 'f agent) outcome option"

definition HandleGet :: "'f ftp_env \<Rightarrow> string \<Rightarrow> 'f agent \<Rightarrow> 'f handled" where
  "HandleGet e filename a =
     (case agent_GenerateID a of
        None \<Rightarrow> None
      | Some (i, a1) \<Rightarrow>
          let a2 = agent_Insert i a1;
              (ok, a3) = SendResponse e (GetResponse i) a2
          in case handler a3 of
               None \<Rightarrow> Some Crash
             | Some h \<Rightarrow>
                 (case SendFileContents e (FileHandler_Get (fsops e) filename h (files a3)) i a3 of
                    None \<Rightarrow> None
                  | Some (Ret (sent, a4)) \<Rightarrow>
                      Some (Ret (if sent then ACTIVE else ERROR, agent_Delete i a4))
                  | Some Block \<Rightarrow> Some Block
                  | Some Crash \<Rightarrow> Some Crash))"

definition HandlePut :: "'f ftp_env \<Rightarrow> string \<Rightarrow> 'f agent \<Rightarrow> 'f handled" where
  "HandlePut e filename a =
     (case agent_GenerateID a of
        None \<Rightarrow> None
      | Some (i, a1) \<Rightarrow>
          let a2 = agent_Insert i a1;
              (ok, a3) = SendResponse e (PutResponse i) a2
          in case ReadFileContents e i a3 of
               None \<Rightarrow> None
             | Some (Ret (st, fc, a4)) \<Rightarrow>
                 (case handler a4 of
                    None \<Rightarrow> Some Crash
                  | Some h \<Rightarrow>
                      (case FileHandler_Put (fsops e) filename
                              (case fc of None \<Rightarrow> [] | Some cs \<Rightarrow> cs) h (files a4) of
                         (wrote, f) \<Rightarrow>
                           if \<not> wrote then Some (Ret (ERROR, a4\<lparr>files := f\<rparr>))
                           else Some (Ret (ACTIVE, agent_Delete i (a4\<lparr>files := f\<rparr>)))))
             | Some Block \<Rightarrow> Some Block
             | Some Crash \<Rightarrow> Some Crash)"

definition respond :: "'f ftp_env \<Rightarrow> Response \<Rightarrow> 'f agent \<Rightarrow> 'f handled" where
  "respond e r a =
     (case SendResponse e r a of (ok, b) \<Rightarrow> Some (Ret (if ok then ACTIVE else ERROR, b)))"

definition HandleDelete :: "'f ftp_env \<Rightarrow> string \<Rightarrow> 'f agent \<Rightarrow> 'f handled" where
  "HandleDelete e filename a =
     (case handler a of
        None \<Rightarrow> Some Crash
      | Some h \<Rightarrow>
          (case FileHandler_Delete (fsops e) filename h (files a) of
             Ret (ok, f) \<Rightarrow>
               if \<not> ok then Some (Ret (ERROR, a\<lparr>files := f\<rparr>))
               else respond e EmptyResponse (a\<lparr>files := f\<rparr>)
           | Block \<Rightarrow> Some Block
           | Crash \<Rightarrow> Some Crash))"

definition HandleList :: "'f ftp_env \<Rightarrow> 'f agent \<Rightarrow> 'f handled" where
  "HandleList e a =
     (case handler a of
        None \<Rightarrow> Some Crash
      | Some h \<Rightarrow>
          (case FileHandler_List (fsops e) h (files a) of
             Ret names \<Rightarrow> respond e (ListResponse names) a
           | Block \<Rightarrow> Some Block
           | Crash \<Rightarrow> Some Crash))"

definition HandleChangeDir :: "'f ftp_env \<Rightarrow> bool \<Rightarrow> string \<Rightarrow> 'f agent \<Rightarrow> 'f handled" where
  "HandleChangeDir e go_up dir_name a =
     (case handler a of
        None \<Rightarrow> Some Crash
      | Some h \<Rightarrow>
          (case (if go_up then FileHandler_UpDir h else FileHandler_ChangeDir dir_name h) of
             (ok, h') \<Rightarrow>
               if \<not> ok then Some (Ret (ERROR, a\<lparr>handler := Some h'\<rparr>))
               else respond e EmptyResponse (a\<lparr>handler := Some h'\<rparr>)))"

definition HandleMakeDir :: "'f ftp_env \<Rightarrow> string \<Rightarrow> 'f agent \<Rightarrow> 'f handled" where
  "HandleMakeDir e dir_name a =
     (case handler a of
        None \<Rightarrow> Some Crash
      | Some h \<Rightarrow>
          (case FileHandler_MakeDir (fsops e) dir_name h (files a) of
             Ret (ok, f) \<Rightarrow>
               if \<not> ok then Some (Ret (ERROR, a\<lparr>files := f\<rparr>))
               else respond e EmptyResponse (a\<lparr>files := f\<rparr>)
           | Block \<Rightarrow> Some Block
           | Crash \<Rightarrow> Some Crash))"

definition HandlePwd :: "'f ftp_env \<Rightarrow> 'f agent \<Rightarrow> 'f handled" where
  "HandlePwd e a =
     (case handler a of
        None \<Rightarrow> Some Crash
      | Some h \<Rightarrow> respond e (PwdResponse (FileHandler_GetCurrentDir h)) a)"

definition HandleTerminate :: "u32 \<Rightarrow> 'f agent \<Rightarrow> 'f handled" where
  "HandleTerminate command_id a = Some (Ret (ACTIVE, agent_Delete command_id a))"

definition HandleQuit :: "'f agent \<Rightarrow> 'f handled" where
  "HandleQuit a = Some (Ret (DISCONNECTED, a))"

definition DispatchMessage :: "'f ftp_env \<Rightarrow> Request \<Rightarrow> 'f agent \<Rightarrow> 'f handled" where
  "DispatchMessage e message a =
     (case message of
        GetRequest filename \<Rightarrow> HandleGet e filename a
      | PutRequest filename \<Rightarrow> HandlePut e filename a
      | DeleteRequest filename \<Rightarrow> HandleDelete e filename a
      | ListRequest \<Rightarrow> HandleList e a
      | ChangeDirRequest go_up dir_name \<Rightarrow> HandleChangeDir e go_up dir_name a
      | MakeDirRequest dir_name \<Rightarrow> HandleMakeDir e dir_name a
      | PwdRequest \<Rightarrow> HandlePwd e a
      | QuitRequest \<Rightarrow> HandleQuit a
      | TerminateRequest command_id \<Rightarrow> HandleTerminate command_id a
      | FileContentsRequest fc \<Rightarrow> Some (Ret (ACTIVE, a))
      | NoRequest \<Rightarrow> Some (Ret (ERROR, a)))"

text \<open>The session: requests until the client leaves or fails; true if it left normally.\<close>

partial_function (option) Handle :: "'f ftp_env \<Rightarrow> 'f agent \<Rightarrow> (bool \<times> 'f agent) outcome option" where
  "Handle e a =
     (case ReadNextMessage e a of
        Ret (st, m, b) \<Rightarrow>
          (case m of
             None \<Rightarrow> Some (Ret (st \<noteq> ERROR, b))
           | Some message \<Rightarrow>
               (case DispatchMessage e message b of
                  None \<Rightarrow> None
                | Some (Ret (st', b')) \<Rightarrow>
                    if st' = ACTIVE then Handle e b' else Some (Ret (st' \<noteq> ERROR, b'))
                | Some Block \<Rightarrow> Some Block
                | Some Crash \<Rightarrow> Some Crash))
      | Block \<Rightarrow> Some Block
      | Crash \<Rightarrow> Some Crash)"

section \<open>Lemmas\<close>

definition small :: "'m codec \<Rightarrow> 'm \<Rightarrow> bool" where
  "small c m \<longleftrightarrow> ByteSizeLong c m < 2 ^ 31"

abbreviation wire_of :: "'m codec \<Rightarrow> 'm \<Rightarrow> bytes" where
  "wire_of c m \<equiv> frame (encode c m)"

text \<open>No other agent removes the id \<open>i\<close>: nobody terminates the command.\<close>

definition undisturbed :: "u16 \<Rightarrow> 'f agent \<Rightarrow> bool" where
  "undisturbed i a \<longleftrightarrow> (\<forall>g\<in>set (env a). \<forall>ids. Contains i ids \<longrightarrow> Contains i (g ids))"

lemma interfere_frame [simp]:
  "client (interfere a) = client a" "agent_parser (interfere a) = agent_parser a"
  "handler (interfere a) = handler a" "files (interfere a) = files a"
  "outgoing (interfere a) = outgoing a"
  by (simp_all add: interfere_def split: list.split)

lemma undisturbed_interfere:
  assumes "undisturbed i a"
  shows "undisturbed i (interfere a)" and "Contains i (commands a) \<Longrightarrow> Contains i (commands (interfere a))"
  using assms by (auto simp: undisturbed_def interfere_def split: list.split)

lemma undisturbed_simps [simp]:
  "undisturbed i (a\<lparr>client := s\<rparr>) = undisturbed i a"
  "undisturbed i (a\<lparr>commands := ids\<rparr>) = undisturbed i a"
  "undisturbed i (a\<lparr>outgoing := out\<rparr>) = undisturbed i a"
  by (simp_all add: undisturbed_def)

lemma agent_Insert_spec:
  assumes "undisturbed (ucast i) a"
  shows "undisturbed (ucast i) (agent_Insert i a)" and "Contains (ucast i) (commands (agent_Insert i a))"
  using undisturbed_interfere [OF assms] by (simp_all add: agent_Insert_def Let_def)

lemma agent_Delete_spec [simp]: "\<not> Contains (ucast i) (commands (agent_Delete i a))"
  by (simp add: agent_Delete_def Let_def)

lemma agent_ids_frame [simp]:
  "client (agent_Insert i a) = client a" "handler (agent_Insert i a) = handler a"
  "files (agent_Insert i a) = files a" "agent_parser (agent_Insert i a) = agent_parser a"
  "client (agent_Delete i a) = client a" "handler (agent_Delete i a) = handler a"
  "files (agent_Delete i a) = files a" "agent_parser (agent_Delete i a) = agent_parser a"
  by (simp_all add: agent_Insert_def agent_Delete_def Let_def)

lemma agent_GenerateID_frame:
  assumes "agent_GenerateID a = Some (i, b)"
  shows "client b = client a" "handler b = handler a" "files b = files a" "agent_parser b = agent_parser a"
  using assms by (auto simp: agent_GenerateID_def Let_def split: option.splits)

lemma agent_Contains_spec:
  assumes "undisturbed i a" and "Contains i (commands a)"
  shows "\<exists>b. agent_Contains i a = (True, b) \<and> undisturbed i b \<and> Contains i (commands b) \<and>
    client b = client a \<and> handler b = handler a \<and> files b = files a \<and> agent_parser b = agent_parser a"
  using undisturbed_interfere [OF assms(1)] assms(2) by (simp add: agent_Contains_def Let_def)

lemma SendResponse_frame:
  assumes "SendResponse e r a = (ok, b)"
  shows "rx (client b) = rx (client a)" "handler b = handler a" "files b = files a"
    "commands b = commands a" "env b = env a" "agent_parser b = agent_parser a"
  using assms
  by (auto simp: SendResponse_def sys_send_def split: prod.splits if_splits list.splits tx_event.splits)

lemma SendResponse_ok:
  assumes "codec_ok (response_codec e)" and "small (response_codec e) r" and "tx (client a) = []"
  shows "SendResponse e r a = (True, a\<lparr>outgoing := wire_of (response_codec e) r,
    client := (client a)\<lparr>wire := wire (client a) @ wire_of (response_codec e) r\<rparr>\<rparr>)"
  using assms by (simp add: SendResponse_def Serialize_frame small_def sys_send_def)

lemma SendFileContents_loop_stream:
  assumes "chunk_codec_ok (contents_codec e)"
  shows "accepting (client a) \<Longrightarrow> length (send_contents sd) < 2 ^ 32 \<Longrightarrow>
    unat (total_bytes_sent sd) < length (send_contents sd) \<Longrightarrow>
    f = drop (unat (total_bytes_sent sd)) (send_contents sd) \<Longrightarrow>
    undisturbed i a \<Longrightarrow> Contains i (commands a) \<Longrightarrow>
    \<exists>b. SendFileContents_loop e i False sd a = Some (Ret (True, b)) \<and>
      wire (client b) = wire (client a) @ chunk_stream (contents_codec e) f \<and>
      rx (client b) = rx (client a) \<and> handler b = handler a \<and> files b = files a \<and>
      agent_parser b = agent_parser a"
proof (induction f arbitrary: sd a rule: chunk_list.induct)
  case (1 f)
  let ?t = "unat (total_bytes_sent sd)"
  let ?m = "next_chunk (send_contents sd) ?t"
  let ?F = "wire_of (contents_codec e) ?m"
  let ?sd = "sd\<lparr>outgoing_message_buffer := ?F, total_bytes_sent := of_nat (?t + length (contents ?m))\<rparr>"
  have hd: "?m = next_chunk f 0" "contents ?m = take 1000 f"
    using "1.prems"(3,4) next_chunk_drop [of ?t "send_contents sd"] by (simp_all add: next_chunk_def)
  obtain s1 where s1: "SendNextChunk (contents_codec e) sd (client a) = Ret (int (length ?F), ?sd, s1)"
      "wire s1 = wire (client a) @ ?F" "accepting s1" "rx s1 = rx (client a)"
    using SendNextChunk_step [OF assms "1.prems"(1-3) refl] by blast
  obtain b where b: "agent_Contains i (a\<lparr>client := s1\<rparr>) = (True, b)" "undisturbed i b"
      "Contains i (commands b)" "client b = s1" "handler b = handler a" "files b = files a"
      "agent_parser b = agent_parser a"
    using agent_Contains_spec [of i "a\<lparr>client := s1\<rparr>"] "1.prems"(5,6) by auto
  have go: "\<not> SentCompleteFile sd" using "1.prems"(3) by (simp add: SentCompleteFile_def)
  have t': "unat (total_bytes_sent ?sd) = ?t + min 1000 (length f)"
    using "1.prems"(2-4) hd(2) unat_of_nat_u32 [of "?t + length (contents ?m)"]
    by (simp del: of_nat_add add: min.commute)
  have step: "SendFileContents_loop e i False sd a = SendFileContents_loop e i False ?sd b"
    using go s1(1) b(1) by (subst SendFileContents_loop.simps) simp
  show ?case
  proof (cases "length f \<le> 1000")
    case True
    then have "SentCompleteFile ?sd"
      using t' "1.prems"(3,4) by (simp add: SentCompleteFile_def)
    then have "SendFileContents_loop e i False ?sd b = Some (Ret (True, b))"
      by (subst SendFileContents_loop.simps) simp
    then show ?thesis
      using True step s1 b hd(1) by (simp add: chunk_stream_cons [of _ f])
  next
    case False
    have "drop (unat (total_bytes_sent ?sd)) (send_contents ?sd) = drop 1000 f"
      using t' False "1.prems"(4) by (simp add: add.commute)
    then have "\<exists>b'. SendFileContents_loop e i False ?sd b = Some (Ret (True, b')) \<and>
        wire (client b') = wire (client b) @ chunk_stream (contents_codec e) (drop 1000 f) \<and>
        rx (client b') = rx (client b) \<and> handler b' = handler b \<and> files b' = files b \<and>
        agent_parser b' = agent_parser b"
      using False t' "1.prems"(2-4) s1(3) b by (intro "1.IH") auto
    then show ?thesis
      using False step s1 b hd(1) by (auto simp: chunk_stream_cons [of _ f])
  qed
qed

lemma ReadFileContents_loop_stream:
  assumes "chunk_codec_ok (contents_codec e)"
  shows "wf_parser (fc_parser r) \<Longrightarrow> \<not> HasCompleteFile r \<Longrightarrow> f \<noteq> [] \<Longrightarrow>
    pending (fc_parser r) (client a) = chunk_stream (contents_codec e) f @ rest \<Longrightarrow>
    undisturbed i a \<Longrightarrow> Contains i (commands a) \<Longrightarrow>
    \<exists>b. ReadFileContents_loop e i r a = Some (Ret (ACTIVE, Some (file_contents r @ f), b)) \<and>
      wire (client b) = wire (client a) \<and> handler b = handler a \<and> files b = files a \<and>
      agent_parser b = agent_parser a"
proof (induction f arbitrary: r a rule: chunk_list.induct)
  case (1 f)
  let ?m = "next_chunk f 0"
  have m: "contents ?m = take 1000 f" "is_last ?m \<longleftrightarrow> length f \<le> 1000"
    by (simp_all add: next_chunk_def)
  define rest' where
    "rest' = (if length f \<le> 1000 then rest else chunk_stream (contents_codec e) (drop 1000 f) @ rest)"
  obtain b where b: "agent_Contains i a = (True, b)" "undisturbed i b"
      "Contains i (commands b)" "client b = client a" "handler b = handler a" "files b = files a"
      "agent_parser b = agent_parser a"
    using agent_Contains_spec [of i a] "1.prems"(5,6) by auto
  have "pending (fc_parser r) (client b) = wire_of (contents_codec e) ?m @ rest'"
    using "1.prems"(4) b(4) by (auto simp: chunk_stream_cons [of _ f] rest'_def)
  from ReceiveNextChunk_step [OF assms "1.prems"(1) _ this] obtain p1 s1
    where s1: "ReceiveNextChunk (contents_codec e) r (client b) = Ret (int (length (contents ?m)),
        r\<lparr>fc_parser := p1, file_contents := file_contents r @ contents ?m,
          complete_file := (is_last ?m \<or> complete_file r)\<rparr>, s1)"
      "wf_parser p1" "pending p1 s1 = rest'" "wire s1 = wire (client b)"
    using m(1) by auto
  let ?r = "r\<lparr>fc_parser := p1, file_contents := file_contents r @ contents ?m,
          complete_file := (is_last ?m \<or> complete_file r)\<rparr>"
  have pos: "0 < length (contents ?m)" using m(1) "1.prems"(3) by simp
  have step: "ReadFileContents_loop e i r a = ReadFileContents_loop e i ?r (b\<lparr>client := s1\<rparr>)"
    using "1.prems"(2) s1(1) b(1) pos by (subst ReadFileContents_loop.simps) simp
  show ?case
  proof (cases "length f \<le> 1000")
    case True
    then have "ReadFileContents_loop e i ?r (b\<lparr>client := s1\<rparr>) =
        Some (Ret (ACTIVE, Some (file_contents r @ f), b\<lparr>client := s1\<rparr>))"
      using m by (subst ReadFileContents_loop.simps) (simp add: HasCompleteFile_def GetFileContents_def)
    then show ?thesis using step s1 b by simp
  next
    case False
    have "\<exists>b'. ReadFileContents_loop e i ?r (b\<lparr>client := s1\<rparr>) =
          Some (Ret (ACTIVE, Some (file_contents ?r @ drop 1000 f), b')) \<and>
        wire (client b') = wire (client (b\<lparr>client := s1\<rparr>)) \<and> handler b' = handler (b\<lparr>client := s1\<rparr>) \<and>
        files b' = files (b\<lparr>client := s1\<rparr>) \<and> agent_parser b' = agent_parser (b\<lparr>client := s1\<rparr>)"
      using False s1 m "1.prems"(2) b by (intro "1.IH") (auto simp: rest'_def HasCompleteFile_def)
    then show ?thesis using False step s1 m b by auto
  qed
qed

section \<open>Sessions\<close>

text \<open>
  The specification of a session made of requests that are answered by one response: what
  the request does to the current directory and to the file system, and its answer.
\<close>

fun reply :: "'f fs_ops \<Rightarrow> Request \<Rightarrow> file_handler \<Rightarrow> 'f \<Rightarrow> (Response \<times> file_handler \<times> 'f) option" where
  "reply ops (DeleteRequest n) h f =
     (case FileHandler_Delete ops n h f of Ret (True, f') \<Rightarrow> Some (EmptyResponse, h, f') | _ \<Rightarrow> None)"
| "reply ops (MakeDirRequest n) h f =
     (case FileHandler_MakeDir ops n h f of Ret (True, f') \<Rightarrow> Some (EmptyResponse, h, f') | _ \<Rightarrow> None)"
| "reply ops ListRequest h f =
     (case FileHandler_List ops h f of Ret ns \<Rightarrow> Some (ListResponse ns, h, f) | _ \<Rightarrow> None)"
| "reply ops (ChangeDirRequest up n) h f =
     Some (EmptyResponse, snd (if up then FileHandler_UpDir h else FileHandler_ChangeDir n h), f)"
| "reply ops PwdRequest h f = Some (PwdResponse (current_dir h), h, f)"
| "reply ops _ h f = None"

fun session :: "'f fs_ops \<Rightarrow> Request list \<Rightarrow> file_handler \<Rightarrow> 'f \<Rightarrow> (Response list \<times> file_handler \<times> 'f) option"
where
  "session ops [] h f = Some ([], h, f)"
| "session ops (m # ms) h f =
     (case reply ops m h f of
        None \<Rightarrow> None
      | Some (r, h', f') \<Rightarrow>
          (case session ops ms h' f' of
             None \<Rightarrow> None | Some (rs, h'', f'') \<Rightarrow> Some (r # rs, h'', f'')))"

lemma DispatchMessage_reply:
  assumes "codec_ok (response_codec e)" and "small (response_codec e) r" and "tx (client a) = []"
    and "handler a = Some h" and "reply (fsops e) m h (files a) = Some (r, h', f')"
  shows "DispatchMessage e m a = Some (Ret (ACTIVE, a\<lparr>files := f', handler := Some h',
    outgoing := wire_of (response_codec e) r,
    client := (client a)\<lparr>wire := wire (client a) @ wire_of (response_codec e) r\<rparr>\<rparr>))"
  using assms(3-) SendResponse_ok [OF assms(1,2)]
  by (cases m)
    (auto simp: DispatchMessage_def HandleDelete_def HandleMakeDir_def HandleList_def
      HandleChangeDir_def HandlePwd_def respond_def FileHandler_GetCurrentDir_def
      FileHandler_ChangeDir_def FileHandler_UpDir_def
      split: outcome.splits bool.splits prod.splits)

lemma ReadNextMessage_next:
  assumes "codec_ok (request_codec e)" and "small (request_codec e) m" and "wf_parser (agent_parser a)"
    and "pending (agent_parser a) (client a) = wire_of (request_codec e) m @ rest"
  shows "\<exists>p s. ReadNextMessage e a = Ret (ACTIVE, Some m, a\<lparr>agent_parser := p, client := s\<rparr>) \<and>
    wf_parser p \<and> pending p s = rest \<and> wire s = wire (client a) \<and> tx s = tx (client a)"
proof -
  obtain p1 s1 p2 where "fill_parser kClientBufferSize (agent_parser a) (client a) = Ret (FillDone, p1, s1)"
      "GetMessage (request_codec e) p1 = Ret (Some m, p2)" "wf_parser p2" "pending p2 s1 = rest"
      "wire s1 = wire (client a)" "tx s1 = tx (client a)"
    using fill_GetMessage [OF assms(1) _ assms(3) _ _ assms(4), of kClientBufferSize] assms(2)
    by (auto simp: small_def)
  then show ?thesis by (auto simp: ReadNextMessage_def)
qed

lemma Handle_session_aux:
  assumes "codec_ok (request_codec e)" and "codec_ok (response_codec e)"
    and "small (request_codec e) QuitRequest"
  shows "\<forall>m\<in>set ms. small (request_codec e) m \<Longrightarrow> \<forall>r\<in>set rs. small (response_codec e) r \<Longrightarrow>
    wf_parser (agent_parser a) \<Longrightarrow> tx (client a) = [] \<Longrightarrow> handler a = Some h \<Longrightarrow>
    pending (agent_parser a) (client a) =
      concat (map (wire_of (request_codec e)) (ms @ [QuitRequest])) @ rest \<Longrightarrow>
    session (fsops e) ms h (files a) = Some (rs, h', f') \<Longrightarrow>
    \<exists>b. Handle e a = Some (Ret (True, b)) \<and> handler b = Some h' \<and> files b = f' \<and>
      wire (client b) = wire (client a) @ concat (map (wire_of (response_codec e)) rs)"
proof (induction ms arbitrary: a h rs)
  case Nil
  then obtain p s where "ReadNextMessage e a = Ret (ACTIVE, Some QuitRequest, a\<lparr>agent_parser := p, client := s\<rparr>)"
      "wire s = wire (client a)"
    using ReadNextMessage_next [OF assms(1,3), of a rest] by auto
  then show ?case
    using Nil by (subst Handle.simps) (simp add: DispatchMessage_def HandleQuit_def)
next
  case (Cons m ms)
  have "pending (agent_parser a) (client a) = wire_of (request_codec e) m @
      concat (map (wire_of (request_codec e)) (ms @ [QuitRequest])) @ rest"
    using Cons.prems(6) by simp
  from ReadNextMessage_next [OF assms(1) _ Cons.prems(3) this] obtain p s
    where r: "ReadNextMessage e a = Ret (ACTIVE, Some m, a\<lparr>agent_parser := p, client := s\<rparr>)"
      "wf_parser p" "pending p s = concat (map (wire_of (request_codec e)) (ms @ [QuitRequest])) @ rest"
      "wire s = wire (client a)" "tx s = tx (client a)"
    using Cons.prems(1) by auto
  obtain q h1 f1 qs where q: "reply (fsops e) m h (files a) = Some (q, h1, f1)"
      "session (fsops e) ms h1 f1 = Some (qs, h', f')" "rs = q # qs"
    using Cons.prems(7) by (auto split: option.splits)
  let ?a = "a\<lparr>agent_parser := p, client := s\<rparr>"
  let ?b = "?a\<lparr>files := f1, handler := Some h1, outgoing := wire_of (response_codec e) q,
    client := s\<lparr>wire := wire s @ wire_of (response_codec e) q\<rparr>\<rparr>"
  have "DispatchMessage e m ?a = Some (Ret (ACTIVE, ?b))"
    using DispatchMessage_reply [OF assms(2), of q ?a h m h1 f1] Cons.prems q r by simp
  then have step: "Handle e a = Handle e ?b"
    using r(1) by (subst Handle.simps) simp
  have "pending p (client ?b) = pending p s" by (simp add: pending_def)
  then have "\<exists>b. Handle e ?b = Some (Ret (True, b)) \<and> handler b = Some h' \<and> files b = f' \<and>
      wire (client b) = wire (client ?b) @ concat (map (wire_of (response_codec e)) qs)"
    using Cons.prems q r by (intro Cons.IH [of qs _ h1]) auto
  then show ?case using step r q by simp
qed

text \<open>A concrete environment and agents for the witnesses.\<close>

definition demo_env :: "(string \<rightharpoonup> bytes) ftp_env" where
  "demo_env =
     \<lparr>request_codec = table_codec [PwdRequest, ListRequest, QuitRequest],
      response_codec = table_codec [EmptyResponse, PwdResponse ''/srv'', ListResponse [''a.txt''],
        GetResponse 1, PutResponse 1],
      contents_codec = flag_codec, fsops = flat_fs ''/srv''\<rparr>"

definition demo_agent :: "rx_event list \<Rightarrow> (string \<rightharpoonup> bytes) agent" where
  "demo_agent es =
     new_agent (Some (new_FileHandler ''/srv''))
       \<lparr>rx = es, tx = [], wire = [], errno = NoErr\<rparr> new_command_ids [''/srv/a.txt'' \<mapsto> [5, 6]]"

lemma demo_codecs:
  "codec_ok (request_codec demo_env)" "codec_ok (response_codec demo_env)"
  "chunk_codec_ok (contents_codec demo_env)"
  by (simp_all add: demo_env_def table_codec_ok flag_codec_ok)

lemma demo_GenerateID:
  "agent_GenerateID (demo_agent es) =
     Some (1, (demo_agent es)\<lparr>commands := \<lparr>active = {}, last_id = 1\<rparr>\<rparr>)"
proof -
  have "GenerateID new_command_ids = Some (1, \<lparr>active = {}, last_id = 1\<rparr>)"
    by (subst GenerateID.simps) (simp add: new_command_ids_def Contains_def Let_def)
  then show ?thesis
    by (simp add: agent_GenerateID_def interfere_def demo_agent_def new_agent_def Let_def)
qed

lemmas demo_defs = demo_env_def demo_agent_def new_agent_def flat_fs_def table_codec_def small_def
  undisturbed_def FileHandler_Get_def FileHandler_Put_def path_append_def is_absolute_def
  has_filename_def new_FileHandler_def frame_def encode_def htonl_bytes_def flag_codec_def
  chunk_stream_def chunk_list.simps

section \<open>Properties\<close>

text \<open>
  A session is served in order. If the bytes a client sends, in whatever segments, are
  any requests that need one answer each, followed by QUIT, and all of them succeed, then
  \<open>Handle\<close> returns true, the client has been sent exactly the answers of the specification,
  in order, and the current directory and the file system are those of the specification.
\<close>

theorem Handle_serves_session:
  assumes "codec_ok (request_codec e)" and "codec_ok (response_codec e)"
    and "\<forall>m\<in>set (ms @ [QuitRequest]). small (request_codec e) m"
    and "\<forall>r\<in>set rs. small (response_codec e) r"
    and "wf_parser (agent_parser a)" and "tx (client a) = []" and "handler a = Some h"
    and "pending (agent_parser a) (client a) =
      concat (map (wire_of (request_codec e)) (ms @ [QuitRequest])) @ rest"
    and "session (fsops e) ms h (files a) = Some (rs, h', f')"
  shows "\<exists>b. Handle e a = Some (Ret (True, b)) \<and> handler b = Some h' \<and> files b = f' \<and>
    wire (client b) = wire (client a) @ concat (map (wire_of (response_codec e)) rs)"
  using Handle_session_aux [OF assms(1,2) _ _ assms(4-9)] assms(3) by simp

theorem Handle_serves_session_witness:
  "\<exists>b. Handle demo_env (demo_agent [RxData [0, 0], RxData [0, 1, 0, 0, 0, 0, 1, 1], RxData [0, 0, 0, 1, 2]]) =
      Some (Ret (True, b)) \<and> handler b = Some (new_FileHandler ''/srv'') \<and>
    files b = [''/srv/a.txt'' \<mapsto> [5, 6]] \<and> wire (client b) = [0, 0, 0, 1, 1, 0, 0, 0, 1, 2]"
proof -
  have "wf_parser (agent_parser (demo_agent es))" for es by (simp add: demo_agent_def new_agent_def)
  then show ?thesis
    using Handle_serves_session [OF demo_codecs(1,2), of "[PwdRequest, ListRequest]"
        "[PwdResponse ''/srv'', ListResponse [''a.txt'']]"
        "demo_agent [RxData [0, 0], RxData [0, 1, 0, 0, 0, 0, 1, 1], RxData [0, 0, 0, 1, 2]]"
        "new_FileHandler ''/srv''" "[]" "new_FileHandler ''/srv''" "[''/srv/a.txt'' \<mapsto> [5, 6]]"]
    by (simp add: demo_defs pending_def FileHandler_List_def)
qed

text \<open>
  GET sends the file. When nobody terminates the command, the client is sent the
  command id and then the chunks of the file, the session stays active, and the id is free
  again at the end. (The file is neither empty nor larger than the sender's counter.)
\<close>

lemma HandleGet_sends_file:
  assumes "codec_ok (response_codec e)" and "small (response_codec e) (GetResponse i)"
    and "chunk_codec_ok (contents_codec e)" and "tx (client a) = []" and "handler a = Some h"
    and "f = FileHandler_Get (fsops e) filename h (files a)" and "f \<noteq> []" and "length f < 2 ^ 32"
    and "agent_GenerateID a = Some (i, a1)" and "undisturbed (ucast i) a1"
  shows "\<exists>b. HandleGet e filename a = Some (Ret (ACTIVE, b)) \<and>
    wire (client b) = wire (client a) @ wire_of (response_codec e) (GetResponse i) @
      chunk_stream (contents_codec e) f \<and>
    \<not> Contains (ucast i) (commands b) \<and> handler b = handler a \<and> files b = files a"
proof -
  note fr = agent_GenerateID_frame [OF assms(9)]
  let ?a2 = "agent_Insert i a1" and ?R = "wire_of (response_codec e) (GetResponse i)"
  note ins = agent_Insert_spec [OF assms(10)]
  let ?a3 = "?a2\<lparr>outgoing := ?R, client := (client a)\<lparr>wire := wire (client a) @ ?R\<rparr>\<rparr>"
  have sent: "SendResponse e (GetResponse i) ?a2 = (True, ?a3)"
    using SendResponse_ok [OF assms(1,2), of ?a2] assms(4) fr by simp
  have "\<exists>b. SendFileContents_loop e (ucast i) False (SetFileContents f new_sender) ?a3 = Some (Ret (True, b)) \<and>
      wire (client b) = wire (client ?a3) @ chunk_stream (contents_codec e) f \<and>
      rx (client b) = rx (client ?a3) \<and> handler b = handler ?a3 \<and> files b = files ?a3 \<and>
      agent_parser b = agent_parser ?a3"
    using assms ins
    by (intro SendFileContents_loop_stream) (auto simp: accepting_def SetFileContents_def)
  then show ?thesis
    using sent assms(5,6,9) fr
    by (auto simp: HandleGet_def SendFileContents_def Let_def)
qed

lemma HandlePut_stream:
  assumes "codec_ok (response_codec e)" and "small (response_codec e) (PutResponse i)"
    and "chunk_codec_ok (contents_codec e)" and "tx (client a) = []" and "handler a = Some h"
    and "f \<noteq> []" and "rx_stream (rx (client a)) = chunk_stream (contents_codec e) f @ rest"
    and "agent_GenerateID a = Some (i, a1)" and "undisturbed (ucast i) a1"
  shows "\<exists>b. HandlePut e filename a = Some (Ret (ACTIVE, b)) \<and>
    files b = snd (FileHandler_Put (fsops e) filename f h (files a)) \<and>
    wire (client b) = wire (client a) @ wire_of (response_codec e) (PutResponse i) \<and>
    \<not> Contains (ucast i) (commands b) \<and> handler b = handler a"
proof -
  note fr = agent_GenerateID_frame [OF assms(8)]
  let ?a2 = "agent_Insert i a1" and ?R = "wire_of (response_codec e) (PutResponse i)"
  note ins = agent_Insert_spec [OF assms(9)]
  let ?a3 = "?a2\<lparr>outgoing := ?R, client := (client a)\<lparr>wire := wire (client a) @ ?R\<rparr>\<rparr>"
  have sent: "SendResponse e (PutResponse i) ?a2 = (True, ?a3)"
    using SendResponse_ok [OF assms(1,2), of ?a2] assms(4) fr by simp
  have "\<exists>b. ReadFileContents_loop e (ucast i) new_receiver ?a3 =
        Some (Ret (ACTIVE, Some (file_contents new_receiver @ f), b)) \<and>
      wire (client b) = wire (client ?a3) \<and> handler b = handler ?a3 \<and> files b = files ?a3 \<and>
      agent_parser b = agent_parser ?a3"
    using assms ins
    by (intro ReadFileContents_loop_stream)
      (auto simp: new_receiver_def HasCompleteFile_def pending_def)
  then show ?thesis
    using sent assms(5,8) fr
    by (auto simp: HandlePut_def ReadFileContents_def Let_def FileHandler_Put_def new_receiver_def)
qed

text \<open>
  PUT stores the file. When nobody terminates the command and the client sends the
  chunks of a file, in whatever segments, the file system is as after writing exactly that
  file, the session stays active, and the id is free again at the end.
\<close>

theorem HandlePut_stores_file:
  assumes "codec_ok (response_codec e)" and "small (response_codec e) (PutResponse i)"
    and "chunk_codec_ok (contents_codec e)" and "tx (client a) = []" and "handler a = Some h"
    and "f \<noteq> []" and "rx_stream (rx (client a)) = chunk_stream (contents_codec e) f @ rest"
    and "agent_GenerateID a = Some (i, a1)" and "undisturbed (ucast i) a1"
  shows "\<exists>b. HandlePut e filename a = Some (Ret (ACTIVE, b)) \<and>
    files b = snd (FileHandler_Put (fsops e) filename f h (files a)) \<and>
    wire (client b) = wire (client a) @ wire_of (response_codec e) (PutResponse i) \<and>
    \<not> Contains (ucast i) (commands b) \<and> handler b = handler a"
  by (rule HandlePut_stream [OF assms])

theorem HandlePut_stores_file_witness:
  "\<exists>b. HandlePut demo_env ''b'' (demo_agent [RxData [0, 0, 0, 3, 1], RxData [7, 8]]) =
      Some (Ret (ACTIVE, b)) \<and>
    files b ''/srv/b'' = Some [7, 8] \<and> \<not> Contains 1 (commands b)"
  using HandlePut_stores_file [OF demo_codecs(2) _ demo_codecs(3) _ _ _ _ demo_GenerateID,
      of "[RxData [0, 0, 0, 3, 1], RxData [7, 8]]" "new_FileHandler ''/srv''" "[7, 8]" "[]" "''b''"]
  by (auto simp: demo_defs)

text \<open>
  Termination stops a GET. When another agent removes the id of a running command, the
  sender stops after the chunk it was sending: the client gets that one chunk and nothing
  more, and the session stays usable.
\<close>

theorem SendFileContents_terminated:
  assumes "chunk_codec_ok (contents_codec e)" and "accepting (client a)" and "f \<noteq> []"
    and "length f < 2 ^ 32" and "env a = g # gs" and "\<not> Contains (ucast i) (g (commands a))"
  shows "\<exists>b. SendFileContents e f i a = Some (Ret (True, b)) \<and>
    wire (client b) = wire (client a) @ wire_of (contents_codec e) (next_chunk f 0) \<and>
    commands b = g (commands a)"
proof -
  let ?sd = "SetFileContents f new_sender"
  have sd: "send_contents ?sd = f" "total_bytes_sent ?sd = 0" by (simp_all add: SetFileContents_def)
  obtain n sd' s' where c: "SendNextChunk (contents_codec e) ?sd (client a) = Ret (int n, sd', s')"
      "wire s' = wire (client a) @ wire_of (contents_codec e) (next_chunk f 0)"
    using SendNextChunk_step [OF assms(1,2), of ?sd] assms(3,4) sd by auto
  let ?b = "a\<lparr>client := s', commands := g (commands a), env := gs\<rparr>"
  have "agent_Contains (ucast i) (a\<lparr>client := s'\<rparr>) = (False, ?b)"
    using assms(5,6) by (simp add: agent_Contains_def interfere_def Let_def)
  moreover have "\<not> SentCompleteFile ?sd" using assms(3) sd by (simp add: SentCompleteFile_def)
  ultimately have "SendFileContents e f i a = SendFileContents_loop e (ucast i) True sd' ?b"
    unfolding SendFileContents_def using c by (subst SendFileContents_loop.simps) simp
  also have "\<dots> = Some (Ret (True, ?b))" by (subst SendFileContents_loop.simps) simp
  finally show ?thesis using c by simp
qed

theorem SendFileContents_terminated_witness:
  "\<exists>b. SendFileContents demo_env [5, 6] 1
      ((demo_agent [])\<lparr>commands := \<lparr>active = {1}, last_id = 1\<rparr>, env := [Delete 1]\<rparr>) = Some (Ret (True, b)) \<and>
    wire (client b) = [] @ wire_of flag_codec (next_chunk [5, 6] 0) \<and>
    commands b = Delete 1 \<lparr>active = {1}, last_id = 1\<rparr>"
  using SendFileContents_terminated [OF demo_codecs(3),
      of "(demo_agent [])\<lparr>commands := \<lparr>active = {1}, last_id = 1\<rparr>, env := [Delete 1]\<rparr>" "[5, 6]" "Delete 1" "[]" 1]
  by (simp add: demo_agent_def new_agent_def accepting_def demo_env_def)

text \<open>
  A client that disconnects during a PUT destroys the file. \<open>HandleRequest\<close> ignores what
  \<open>ReadFileContents\<close> reports: when the peer shuts down before the first chunk, the handler
  writes an empty file over whatever was there and calls it a success.
\<close>

theorem HandlePut_disconnect_empties_file:
  assumes "rx (client a) = RxEof # es" and "handler a = Some h" and "agent_GenerateID a \<noteq> None"
  shows "\<exists>b. HandlePut e filename a = Some (Ret (ACTIVE, b)) \<and>
    files b = fs_write (fsops e) (path_append (current_dir h) filename) [] (files a)"
proof -
  obtain i a1 where g: "agent_GenerateID a = Some (i, a1)" using assms(3) by auto
  note fr = agent_GenerateID_frame [OF g]
  obtain ok a3 where r: "SendResponse e (PutResponse i) (agent_Insert i a1) = (ok, a3)"
    by (cases "SendResponse e (PutResponse i) (agent_Insert i a1)")
  note r' = SendResponse_frame [OF r]
  obtain listed b where b: "agent_Contains (ucast i) a3 = (listed, b)" "client b = client a3"
      "handler b = handler a3" "files b = files a3"
    by (auto simp: agent_Contains_def Let_def)
  have "ReceiveNextChunk (contents_codec e) new_receiver (client b) = Ret (0, new_receiver, client b)"
    using assms(1) r' fr b(2)
    by (simp add: ReceiveNextChunk_def fill_parser.simps [of _ new_parser] sys_recv_def new_receiver_def)
  then have "ReadFileContents e i a3 = Some (Ret (DISCONNECTED, None, b))"
    using b(1) unfolding ReadFileContents_def
    by (subst ReadFileContents_loop.simps) (simp add: HasCompleteFile_def new_receiver_def)
  then show ?thesis
    using g r b r' fr assms(2) by (simp add: HandlePut_def Let_def FileHandler_Put_def)
qed

theorem HandlePut_disconnect_empties_file_witness:
  "\<exists>b. HandlePut demo_env ''a.txt'' (demo_agent [RxEof]) = Some (Ret (ACTIVE, b)) \<and>
    files b = [''/srv/a.txt'' \<mapsto> []]"
  using HandlePut_disconnect_empties_file [of "demo_agent [RxEof]" "[]" "new_FileHandler ''/srv''"
      demo_env "''a.txt''"] demo_GenerateID
  by (simp add: demo_defs)

text \<open>
  The termination port crashes on ordinary requests. Its agents have no file handler, and
  the handlers of GET, DELETE, LIST, CD, MKDIR and PWD dereference the null pointer, which
  takes the whole server down; TERMINATE, QUIT and stray file contents are safe there.
\<close>

theorem termination_agent_crashes:
  assumes "handler a = None" and "agent_GenerateID a \<noteq> None"
  shows "(\<forall>message\<in>{GetRequest n, DeleteRequest n, ListRequest, ChangeDirRequest up n,
        MakeDirRequest n, PwdRequest}. DispatchMessage e message a = Some Crash) \<and>
    DispatchMessage e (TerminateRequest i) a = Some (Ret (ACTIVE, agent_Delete i a)) \<and>
    DispatchMessage e QuitRequest a = Some (Ret (DISCONNECTED, a)) \<and>
    DispatchMessage e (FileContentsRequest fc) a = Some (Ret (ACTIVE, a))"
proof -
  obtain j a1 where g: "agent_GenerateID a = Some (j, a1)" using assms(2) by auto
  obtain ok a3 where r: "SendResponse e (GetResponse j) (agent_Insert j a1) = (ok, a3)"
    by (cases "SendResponse e (GetResponse j) (agent_Insert j a1)")
  have "HandleGet e n a = Some Crash"
    using g r agent_GenerateID_frame [OF g] SendResponse_frame [OF r] assms(1)
    by (simp add: HandleGet_def Let_def)
  then show ?thesis
    using assms(1)
    by (simp add: DispatchMessage_def HandleDelete_def HandleList_def
        HandleChangeDir_def HandleMakeDir_def HandlePwd_def HandleQuit_def HandleTerminate_def)
qed

theorem termination_agent_crashes_witness:
  "DispatchMessage demo_env PwdRequest
     (new_agent None \<lparr>rx = [], tx = [], wire = [], errno = NoErr\<rparr> new_command_ids Map.empty) = Some Crash"
  (is "DispatchMessage _ _ ?a = _")
proof -
  have h: "handler ?a = None" by (simp add: new_agent_def)
  have "GenerateID new_command_ids \<noteq> None"
    by (subst GenerateID.simps) (simp add: new_command_ids_def Contains_def Let_def)
  then have "agent_GenerateID ?a \<noteq> None"
    by (auto simp: agent_GenerateID_def interfere_def new_agent_def Let_def split: option.splits)
  from termination_agent_crashes [OF h this, of "[]" False demo_env 0 "\<lparr>contents = [], is_last = False\<rparr>"]
  show ?thesis by blast
qed

text \<open>
  A response can be cut short without anyone noticing: \<open>SendResponse\<close> calls \<open>send()\<close> once
  and takes any number of bytes for success, so when the kernel accepts only \<open>k\<close> bytes the
  client is left with the first \<open>k\<close> bytes of the message and the agent goes on.
\<close>

theorem SendResponse_short_send:
  assumes "codec_ok (response_codec e)" and "small (response_codec e) r"
    and "tx (client a) = TxAccept k # es" and "k < length (wire_of (response_codec e) r)"
  shows "\<exists>b. SendResponse e r a = (True, b) \<and>
    wire (client b) = wire (client a) @ take k (wire_of (response_codec e) r)"
  using assms by (simp add: SendResponse_def Serialize_frame small_def sys_send_def)

theorem SendResponse_short_send_witness:
  "\<exists>b. SendResponse demo_env EmptyResponse
      ((demo_agent [])\<lparr>client := \<lparr>rx = [], tx = [TxAccept 2], wire = [], errno = NoErr\<rparr>\<rparr>) = (True, b) \<and>
    wire (client b) = [0, 0]"
  using SendResponse_short_send [OF demo_codecs(2), of EmptyResponse
      "(demo_agent [])\<lparr>client := \<lparr>rx = [], tx = [TxAccept 2], wire = [], errno = NoErr\<rparr>\<rparr>" 2 "[]"]
  by (simp add: demo_env_def small_def table_codec_def frame_def encode_def htonl_bytes_def)

end
