(* ===== verification/Ftp_Sessions.thy ===== *)
theory Ftp_Sessions
  imports Ftp_Agent
begin

text \<open>
  Sessions of the FTP agent that mix downloads with the requests that need one answer. The
  specification gives the bytes the client receives: responses, and after the response to a GET the
  chunks of the file. The ids of the downloads are chosen by the server and are an argument of the
  specification. Between any two accesses of the session to the shared ids the other agents may
  start commands of their own.
\<close>

section \<open>What a download leaves alone\<close>

definition same_input :: "sock \<Rightarrow> sock \<Rightarrow> bool" where
  "same_input s s' \<longleftrightarrow> rx s' = rx s \<and> (tx s = [] \<longrightarrow> tx s' = [])"

lemma same_input_simps [simp]: "same_input s s" "same_input s (s\<lparr>wire := bs\<rparr>)"
  by (simp_all add: same_input_def)

lemma same_input_trans: "same_input s s' \<Longrightarrow> same_input s' s'' \<Longrightarrow> same_input s s''"
  by (simp add: same_input_def)

lemma sys_send_input: "sys_send bs s = (r, s') \<Longrightarrow> same_input s s'"
  by (auto simp: sys_send_def same_input_def split: list.splits tx_event.splits)

lemma send_loop_input: "same_input s (snd (send_loop buf k s))"
proof (induction buf k s rule: send_loop.induct)
  case (1 buf k s)
  obtain r s1 where r: "sys_send (drop k buf) s = (r, s1)" by fastforce
  note s1 = sys_send_input [OF r]
  show ?case
  proof (cases "k < length buf \<and> (\<exists>n. r = Inr n \<and> n \<noteq> 0)")
    case True
    then obtain n where n: "r = Inr n" "n \<noteq> 0" "k < length buf" by blast
    then have "same_input s1 (snd (send_loop buf (k + n) s1))" using "1.IH" [of r s1 n] r by simp
    then show ?thesis using n r same_input_trans [OF s1] by (simp add: send_loop.simps [of buf k s])
  next
    case False
    then show ?thesis using r s1 by (auto simp: send_loop.simps [of buf k s] split: sum.splits)
  qed
qed

lemma send_loop_input_eq: "send_loop buf k s = (st, s') \<Longrightarrow> same_input s s'"
  using send_loop_input [of s buf k] by simp

lemma SendNextChunk_input:
  assumes "SendNextChunk c sd s = Ret (n, sd', s')"
  shows "same_input s s'"
proof -
  define size where "size = (of_nat (length (send_contents sd)) :: u64)"
  define total where "total = (ucast (total_bytes_sent sd) :: u64)"
  define k where "k = min kChunkSize (size - total)"
  note defs = size_def [symmetric] total_def [symmetric] k_def [symmetric]
  obtain chunk where sl: "slice (send_contents sd) (unat total) (unat total + unat k) = Ret chunk"
    using assms by (auto simp: SendNextChunk_def Let_def obind_eq_Ret defs)
  obtain ok out where ser: "Serialize c \<lparr>contents = chunk, is_last = (size \<le> total + kChunkSize)\<rparr> (outgoing_message_buffer sd) = (ok, out)"
    by fastforce
  obtain st s2 where l: "send_loop out 0 s = (st, s2)" by fastforce
  have "s' = (if ok then s2 else s)"
    using assms sl ser l by (cases st) (auto simp: SendNextChunk_def Let_def defs split: if_splits)
  then show ?thesis using send_loop_input_eq [OF l] by simp
qed

text \<open>The parts of an agent that a transfer to the client does not touch.\<close>

definition same_session :: "'f agent \<Rightarrow> 'f agent \<Rightarrow> bool" where
  "same_session a b \<longleftrightarrow>
     same_input (client a) (client b) \<and> set (env b) \<subseteq> set (env a) \<and> agent_parser b = agent_parser a"

lemma same_session_trans: "same_session a b \<Longrightarrow> same_session b d \<Longrightarrow> same_session a d"
  by (auto simp: same_session_def intro: same_input_trans)

lemma same_session_refl [simp]: "same_session a a"
  by (simp add: same_session_def)

lemma same_session_interfere [simp]: "same_session a (interfere a)"
  by (cases "env a") (auto simp: same_session_def interfere_def)

lemma same_session_ids [simp]:
  "same_session a (agent_Insert i a)" "same_session a (agent_Delete i a)"
  "same_session a (b\<lparr>commands := ids\<rparr>) = same_session a b"
  using same_session_interfere [of a] by (simp_all add: same_session_def agent_Insert_def agent_Delete_def Let_def)

text \<open>
  The other agents start commands, with ids in \<open>X\<close>, and end none. Between two states of an agent
  that has not touched the ids itself, no others were added.
\<close>

definition friendly :: "u16 set \<Rightarrow> 'f agent \<Rightarrow> bool" where
  "friendly X a \<longleftrightarrow> (\<forall>g \<in> set (env a). \<forall>ids. active ids \<subseteq> active (g ids) \<and> active (g ids) \<subseteq> active ids \<union> X)"

definition ids_from_others :: "'f agent \<Rightarrow> 'f agent \<Rightarrow> bool" where
  "ids_from_others a b \<longleftrightarrow>
     set (env b) \<subseteq> set (env a) \<and> (\<forall>X. friendly X a \<longrightarrow> active (commands b) \<subseteq> active (commands a) \<union> X)"

lemma friendly_env: "set (env b) \<subseteq> set (env a) \<Longrightarrow> friendly X a \<Longrightarrow> friendly X b"
  unfolding friendly_def by blast

lemma ids_from_others_trans: "ids_from_others a b \<Longrightarrow> ids_from_others b d \<Longrightarrow> ids_from_others a d"
  unfolding ids_from_others_def using friendly_env by (meson Un_least Un_upper2 subset_trans)

lemma ids_from_others_simps [simp]:
  "ids_from_others a a" "ids_from_others a (a\<lparr>client := x\<rparr>)" "ids_from_others a (interfere a)"
  by (auto simp: ids_from_others_def interfere_def friendly_def split: list.split)

lemma SendFileContents_loop_session:
  assumes "SendFileContents_loop e i terminated sd a = Some r"
  shows "r = Ret (ok, b) \<Longrightarrow> same_session a b \<and> ids_from_others a b"
  using assms
proof (induction arbitrary: ok b rule: SendFileContents_loop.raw_induct [rotated, consumes 1, case_names step])
  case (step loop e i terminated sd a r)
  show ?case
  proof (cases "SentCompleteFile sd \<or> terminated")
    case True
    then show ?thesis using step.hyps step.prems by (auto split: if_splits)
  next
    case False
    then obtain n sd' x where c: "SendNextChunk (contents_codec e) sd (client a) = Ret (n, sd', x)"
      using step.hyps step.prems by (auto split: outcome.splits)
    let ?a = "a\<lparr>client := x\<rparr>"
    have x: "same_session a ?a" using SendNextChunk_input [OF c] by (simp add: same_session_def)
    show ?thesis
    proof (cases "n = -1")
      case True
      then have "b = ?a" using step.hyps step.prems c False by simp
      then show ?thesis using x ids_from_others_simps(2) [of a x] by simp
    next
      case n: False
      obtain l d where l: "agent_Contains i ?a = (l, d)" by fastforce
      then have d: "d = interfere ?a" by (simp add: agent_Contains_def Let_def)
      moreover have "same_session d b \<and> ids_from_others d b" using step c n l False by simp
      moreover have "ids_from_others a d"
        using d ids_from_others_trans [of a ?a] ids_from_others_simps by blast
      ultimately show ?thesis
        using same_session_trans [OF same_session_trans [OF x same_session_interfere]] ids_from_others_trans by blast
    qed
  qed
qed

lemma SendResponse_session:
  assumes "SendResponse e r a = (ok, b)"
  shows "same_session a b" and "ids_from_others a b"
proof -
  have "same_input (client a) (client b)"
    using assms sys_send_input by (auto simp: SendResponse_def split: prod.splits if_splits sum.splits)
  then show "same_session a b" and "ids_from_others a b"
    using SendResponse_frame [OF assms] by (auto simp: same_session_def ids_from_others_def)
qed

lemma SendFileContents_session:
  assumes "SendFileContents e c i a = Some (Ret (ok, b))"
  shows "same_session a b" and "ids_from_others a b"
  using SendFileContents_loop_session [OF assms [unfolded SendFileContents_def] refl] by simp_all

lemma ids_from_others_active:
  "ids_from_others a b \<Longrightarrow> friendly X a \<Longrightarrow> active (commands b) \<subseteq> active (commands a) \<union> X"
  by (simp add: ids_from_others_def)

lemma same_session_friendly: "same_session a b \<Longrightarrow> friendly X a \<Longrightarrow> friendly X b"
  using friendly_env by (auto simp: same_session_def)

lemma friendly_undisturbed: "friendly X a \<Longrightarrow> undisturbed i a"
  unfolding friendly_def undisturbed_def Contains_def by blast

lemma agent_ids_active:
  assumes "friendly X a"
  shows "active (commands (agent_Insert i a)) \<subseteq> insert (ucast i) (active (commands a)) \<union> X"
    and "active (commands (agent_Delete i a)) \<subseteq> active (commands a) - {ucast i} \<union> X"
  using ids_from_others_active [OF ids_from_others_simps(3) assms]
  by (auto simp: agent_Insert_def agent_Delete_def Insert_def Delete_def Let_def)

lemma agent_GenerateID_friendly:
  assumes "friendly X a" and "active (commands a) \<union> X \<noteq> UNIV"
  shows "\<exists>i b. agent_GenerateID a = Some (ucast (i :: u16), b) \<and> same_session a b \<and>
    active (commands b) \<subseteq> active (commands a) \<union> X"
proof -
  have sub: "active (commands (interfere a)) \<subseteq> active (commands a) \<union> X"
    using ids_from_others_active [OF ids_from_others_simps(3) assms(1)] .
  then have "active (commands (interfere a)) \<noteq> UNIV" using assms(2) by blast
  from GenerateID_some [OF this] show ?thesis
    using sub same_session_interfere [of a] by (auto simp: agent_GenerateID_def Let_def)
qed

lemma HandleGet_session:
  assumes "HandleGet e n a = Some (Ret (st, b))" and "friendly X a" and "active (commands a) \<union> X \<noteq> UNIV"
  shows "same_session a b \<and> active (commands b) \<subseteq> active (commands a) \<union> X"
proof -
  obtain i a1 where g: "agent_GenerateID a = Some (ucast (i :: u16), a1)" "same_session a a1"
      "active (commands a1) \<subseteq> active (commands a) \<union> X"
    using agent_GenerateID_friendly [OF assms(2,3)] by blast
  let ?i = "ucast i :: u32" and ?a2 = "agent_Insert (ucast i) a1"
  obtain ok a3 where r: "SendResponse e (GetResponse ?i) ?a2 = (ok, a3)" by fastforce
  obtain h sent a4 where s: "SendFileContents e (FileHandler_Get (fsops e) n h (files a3)) ?i a3 = Some (Ret (sent, a4))"
    and b: "b = agent_Delete ?i a4"
    using assms(1) g r by (auto simp: HandleGet_def Let_def split: option.splits outcome.splits)
  note s3 = same_session_trans [OF same_session_trans [OF g(2) same_session_ids(1)] SendResponse_session(1) [OF r]]
  note s4 = same_session_trans [OF s3 SendFileContents_session(1) [OF s]]
  have fr: "friendly X a1" "friendly X ?a2" "friendly X a3" "friendly X a4"
    using same_session_friendly assms(2) g(2) s3 s4 same_session_trans [OF g(2) same_session_ids(1)] by blast+
  have "active (commands b) \<subseteq> active (commands a4) - {ucast ?i} \<union> X"
    using agent_ids_active(2) [OF fr(4)] b by simp
  moreover have "active (commands a4) \<subseteq> active (commands a3) \<union> X"
    using ids_from_others_active [OF SendFileContents_session(2) [OF s] fr(3)] .
  moreover have "active (commands a3) \<subseteq> active (commands ?a2) \<union> X"
    using ids_from_others_active [OF SendResponse_session(2) [OF r] fr(2)] .
  moreover have "active (commands ?a2) \<subseteq> insert (ucast ?i) (active (commands a1)) \<union> X"
    using agent_ids_active(1) [OF fr(1)] .
  ultimately have "active (commands b) \<subseteq> active (commands a) \<union> X" using g(3) by blast
  then show ?thesis using same_session_trans [OF s4 same_session_ids(2)] b by simp
qed

lemma HandleGet_served:
  assumes "codec_ok (response_codec e)" and "\<forall>i :: u16. small (response_codec e) (GetResponse (ucast i))"
    and "chunk_codec_ok (contents_codec e)" and "tx (client a) = []" and "handler a = Some h"
    and "c = FileHandler_Get (fsops e) n h (files a)" and "c \<noteq> []" and "length c < 2 ^ 32"
    and "friendly X a" and "active (commands a) \<union> X \<noteq> UNIV"
  shows "\<exists>i :: u16. \<exists>b. HandleGet e n a = Some (Ret (ACTIVE, b)) \<and>
    wire (client b) = wire (client a) @ wire_of (response_codec e) (GetResponse (ucast i)) @
      chunk_stream (contents_codec e) c \<and>
    handler b = handler a \<and> files b = files a \<and> same_session a b \<and>
    active (commands b) \<subseteq> active (commands a) \<union> X"
proof -
  obtain i a1 where g: "agent_GenerateID a = Some (ucast (i :: u16), a1)" "same_session a a1"
    using agent_GenerateID_friendly [OF assms(9,10)] by blast
  have "undisturbed (ucast (ucast i :: u32)) a1"
    using friendly_undisturbed same_session_friendly [OF g(2) assms(9)] .
  from HandleGet_sends_file [OF assms(1) _ assms(3-8) g(1) this] assms(2) obtain b where b:
    "HandleGet e n a = Some (Ret (ACTIVE, b))"
    "wire (client b) = wire (client a) @ wire_of (response_codec e) (GetResponse (ucast i)) @
      chunk_stream (contents_codec e) c" "handler b = handler a" "files b = files a"
    by blast
  then show ?thesis using HandleGet_session [OF b(1) assms(9,10)] by blast
qed

section \<open>The specification of a session\<close>

text \<open>
  \<open>serves e ms h f out h' f'\<close>: the requests \<open>ms\<close>, made in the current directory of \<open>h\<close> over the
  files \<open>f\<close>, can be answered by the bytes \<open>out\<close>. A request that needs one answer gets that answer;
  a GET gets a command id, whatever the server chooses, and the chunks of the file.
\<close>

inductive serves :: "'f ftp_env \<Rightarrow> Request list \<Rightarrow> file_handler \<Rightarrow> 'f \<Rightarrow> bytes \<Rightarrow> file_handler \<Rightarrow> 'f \<Rightarrow> bool"
  for e
where
  serves_nothing: "serves e [] h f [] h f"
| serves_reply: "reply (fsops e) m h f = Some (r, h1, f1) \<Longrightarrow> small (response_codec e) r \<Longrightarrow>
    serves e ms h1 f1 out h2 f2 \<Longrightarrow>
    serves e (m # ms) h f (wire_of (response_codec e) r @ out) h2 f2"
| serves_get: "c = FileHandler_Get (fsops e) n h f \<Longrightarrow> c \<noteq> [] \<Longrightarrow> length c < 2 ^ 32 \<Longrightarrow>
    serves e ms h f out h2 f2 \<Longrightarrow>
    serves e (GetRequest n # ms) h f
      (wire_of (response_codec e) (GetResponse (ucast (i :: u16))) @ chunk_stream (contents_codec e) c @ out) h2 f2"

text \<open>An agent that has the requests \<open>ms\<close> and QUIT before it.\<close>

definition facing :: "'f ftp_env \<Rightarrow> Request list \<Rightarrow> bytes \<Rightarrow> 'f agent \<Rightarrow> bool" where
  "facing e ms rest a \<longleftrightarrow> wf_parser (agent_parser a) \<and> tx (client a) = [] \<and>
     pending (agent_parser a) (client a) =
       concat (map (wire_of (request_codec e)) (ms @ [QuitRequest])) @ rest"

lemma facing_next:
  assumes "facing e (m # ms) rest a" and "codec_ok (request_codec e)" and "small (request_codec e) m"
  shows "\<exists>p s. ReadNextMessage e a = Ret (ACTIVE, Some m, a\<lparr>agent_parser := p, client := s\<rparr>) \<and>
    facing e ms rest (a\<lparr>agent_parser := p, client := s\<rparr>) \<and> wire s = wire (client a)"
proof -
  have "pending (agent_parser a) (client a) = wire_of (request_codec e) m @
      concat (map (wire_of (request_codec e)) (ms @ [QuitRequest])) @ rest"
    using assms(1) by (simp add: facing_def)
  from ReadNextMessage_next [OF assms(2,3) _ this] show ?thesis
    using assms(1) by (auto simp: facing_def)
qed

lemma same_session_facing: "same_session a b \<Longrightarrow> facing e ms rest a \<Longrightarrow> facing e ms rest b"
  by (auto simp: same_session_def facing_def same_input_def pending_def)

lemma Handle_serves_aux:
  assumes "serves e ms h f out0 h' f'"
    and "codec_ok (request_codec e)" and "codec_ok (response_codec e)" and "chunk_codec_ok (contents_codec e)"
    and "small (request_codec e) QuitRequest"
    and "\<forall>i :: u16. small (response_codec e) (GetResponse (ucast i))"
  shows "\<forall>m \<in> set ms. small (request_codec e) m \<Longrightarrow> facing e ms rest a \<Longrightarrow> handler a = Some h \<Longrightarrow>
    files a = f \<Longrightarrow> friendly X a \<Longrightarrow> active (commands a) \<union> X \<noteq> UNIV \<Longrightarrow>
    \<exists>b out. Handle e a = Some (Ret (True, b)) \<and> serves e ms h f out h' f' \<and> handler b = Some h' \<and>
      files b = f' \<and> wire (client b) = wire (client a) @ out"
  using assms(1)
proof (induction arbitrary: a rule: serves.induct)
  case (serves_nothing h f)
  then obtain p s where "ReadNextMessage e a = Ret (ACTIVE, Some QuitRequest, a\<lparr>agent_parser := p, client := s\<rparr>)"
      "wire s = wire (client a)"
    using ReadNextMessage_next [OF assms(2,5), of a rest] by (auto simp: facing_def)
  then show ?case
    using serves_nothing.prems(3,4)
    by (subst Handle.simps) (simp add: DispatchMessage_def HandleQuit_def serves.serves_nothing)
next
  case (serves_reply m h f r h1 f1 ms out h2 f2)
  then obtain p s where n: "ReadNextMessage e a = Ret (ACTIVE, Some m, a\<lparr>agent_parser := p, client := s\<rparr>)"
      "facing e ms rest (a\<lparr>agent_parser := p, client := s\<rparr>)" "wire s = wire (client a)"
    using facing_next [OF _ assms(2)] by (metis list.set_intros(1))
  let ?a = "a\<lparr>agent_parser := p, client := s\<rparr>"
  let ?b = "?a\<lparr>files := f1, handler := Some h1, outgoing := wire_of (response_codec e) r,
    client := s\<lparr>wire := wire s @ wire_of (response_codec e) r\<rparr>\<rparr>"
  have "DispatchMessage e m ?a = Some (Ret (ACTIVE, ?b))"
    using DispatchMessage_reply [OF assms(3), of r ?a h m h1 f1] serves_reply n(2) by (simp add: facing_def)
  then have step: "Handle e a = Handle e ?b" using n(1) by (subst Handle.simps) simp
  have "facing e ms rest ?b" using n(2) by (simp add: facing_def pending_def)
  moreover have "friendly X ?b" using serves_reply.prems(5) by (simp add: friendly_def)
  ultimately obtain b out' where "Handle e ?b = Some (Ret (True, b))" "serves e ms h1 f1 out' h2 f2"
      "handler b = Some h2" "files b = f2" "wire (client b) = wire (client ?b) @ out'"
    using serves_reply.IH [of ?b] serves_reply.prems by auto
  then show ?case
    using step n(3) serves.serves_reply [OF serves_reply.hyps(1,2)] by fastforce
next
  case (serves_get c n h f ms out h2 f2 i)
  then obtain p s where r: "ReadNextMessage e a = Ret (ACTIVE, Some (GetRequest n), a\<lparr>agent_parser := p, client := s\<rparr>)"
      "facing e ms rest (a\<lparr>agent_parser := p, client := s\<rparr>)" "wire s = wire (client a)"
    using facing_next [OF _ assms(2)] by (metis list.set_intros(1))
  let ?a = "a\<lparr>agent_parser := p, client := s\<rparr>"
  have fr: "friendly X ?a" using serves_get.prems(5) by (simp add: friendly_def)
  have tx: "tx (client ?a) = []" using r(2) by (simp add: facing_def)
  obtain j :: u16 and b where b: "HandleGet e n ?a = Some (Ret (ACTIVE, b))"
      "wire (client b) = wire s @ wire_of (response_codec e) (GetResponse (ucast j)) @
        chunk_stream (contents_codec e) c"
      "handler b = Some h" "files b = f" "same_session ?a b" "active (commands b) \<subseteq> active (commands a) \<union> X"
    using HandleGet_served [OF assms(3,6,4) tx _ _ _ _ fr, of h c n] serves_get by auto
  then have step: "Handle e a = Handle e b"
    using r(1) by (subst Handle.simps) (simp add: DispatchMessage_def)
  have "active (commands b) \<union> X \<noteq> UNIV" using b(6) serves_get.prems(6) by blast
  then obtain d out' where "Handle e b = Some (Ret (True, d))" "serves e ms h f out' h2 f2"
      "handler d = Some h2" "files d = f2" "wire (client d) = wire (client b) @ out'"
    using serves_get.IH [of b] serves_get.prems b same_session_facing [OF b(5) r(2)]
      same_session_friendly [OF b(5) fr] by auto
  then show ?case
    using step b(2) r(3) serves.serves_get [OF serves_get.hyps(1-3), of ms out' h2 f2 j] by auto
qed

text \<open>A response codec whose messages are command ids and one directory, for the witness.\<close>

definition ids_codec :: "Response codec" where
  "ids_codec =
     \<lparr>ByteSizeLong = (\<lambda>r. case r of GetResponse i \<Rightarrow> 4 | EmptyResponse \<Rightarrow> 1 | _ \<Rightarrow> 2 ^ 31),
      SerializeToArray = (\<lambda>r n. case r of GetResponse i \<Rightarrow> Some (htonl_bytes i) | EmptyResponse \<Rightarrow> Some [0] | _ \<Rightarrow> None),
      ParseFromArray = (\<lambda>bs n. if length bs = 4 then Some (GetResponse (ntohl_bytes bs)) else Some EmptyResponse)\<rparr>"

lemma ids_codec_ok: "codec_ok ids_codec" "small ids_codec (GetResponse i)" "small ids_codec EmptyResponse"
  by (auto simp: codec_ok_def ids_codec_def small_def split: Response.splits if_splits)
    (rule exI [of _ "[0]"]; simp)+

inductive_cases serves_nothingE: "serves e [] h f out h' f'"
inductive_cases serves_getE: "serves e (GetRequest n # ms) h f out h' f'"
inductive_cases serves_replyE: "serves e (ChangeDirRequest up n # ms) h f out h' f'"

definition sessions_env :: "(string \<rightharpoonup> bytes) ftp_env" where
  "sessions_env = demo_env\<lparr>request_codec := table_codec [GetRequest ''a.txt'', ChangeDirRequest True [], QuitRequest],
     response_codec := ids_codec\<rparr>"

section \<open>Properties\<close>



end
