(* ===== verification/Text_Input.thy ===== *)
theory Text_Input
  imports Base
begin

text \<open>
  Words and numbers of a text line, as the shells, command line parsers and configuration
  readers of the programs take them apart with the standard library: \<open>operator>>\<close> into a
  string or an integer, \<open>std::stoi\<close>, \<open>std::getline\<close> and \<open>std::to_string\<close>.
\<close>

section \<open>Words\<close>

definition is_space :: "char \<Rightarrow> bool" where
  "is_space c \<longleftrightarrow> c \<in> {CHR '' '', CHR 0x09, CHR 0x0A, CHR 0x0B, CHR 0x0C, CHR 0x0D}"

text \<open>
  \<open>iss >> word\<close>: the next word and the rest of the stream; at the end of the stream the
  variable keeps its value.
\<close>

definition read_word :: "string \<Rightarrow> string \<Rightarrow> string \<times> string" where
  "read_word s old =
     (let t = dropWhile is_space s
      in if t = [] then (old, [])
         else (takeWhile (\<lambda>c. \<not> is_space c) t, dropWhile (\<lambda>c. \<not> is_space c) t))"

definition is_word :: "string \<Rightarrow> bool" where
  "is_word w \<longleftrightarrow> w \<noteq> [] \<and> (\<forall>c\<in>set w. \<not> is_space c)"

definition starts_with_space :: "string \<Rightarrow> bool" where
  "starts_with_space s \<longleftrightarrow> s = [] \<or> is_space (hd s)"

lemma is_space_blank [simp]: "is_space (CHR '' '')"
  by (simp add: is_space_def)

lemma read_word_word:
  assumes "is_word w" and "starts_with_space rest"
  shows "read_word (w @ rest) old = (w, rest)" and "read_word (CHR '' '' # w @ rest) old = (w, rest)"
proof -
  have w: "dropWhile is_space (w @ rest) = w @ rest" "w \<noteq> []"
    using assms(1) by (cases w; simp add: is_word_def)+
  have t: "takeWhile (\<lambda>c. \<not> is_space c) (w @ rest) = w" "dropWhile (\<lambda>c. \<not> is_space c) (w @ rest) = rest"
    using assms by (cases rest; simp add: is_word_def starts_with_space_def takeWhile_append2
        dropWhile_append2 takeWhile_eq_all_conv)+
  show "read_word (w @ rest) old = (w, rest)" "read_word (CHR '' '' # w @ rest) old = (w, rest)"
    using w t by (simp_all add: read_word_def Let_def)
qed

lemma read_word_empty [simp]: "read_word [] old = (old, [])"
  by (simp add: read_word_def)

section \<open>Numbers\<close>

text \<open>
  \<open>std::stoi\<close>: an optional sign and decimal digits; no digits and values outside \<open>int\<close> throw.
\<close>

definition is_digit :: "char \<Rightarrow> bool" where
  "is_digit c \<longleftrightarrow> 48 \<le> (of_char c :: nat) \<and> (of_char c :: nat) \<le> 57"

definition digits_value :: "string \<Rightarrow> int" where
  "digits_value ds = foldl (\<lambda>v c. 10 * v + (of_char c - 48)) 0 ds"

definition stoi :: "string \<Rightarrow> int option" where
  "stoi w =
     (let t = dropWhile is_space w;
          neg = (t \<noteq> [] \<and> hd t = CHR ''-'');
          u = (if t \<noteq> [] \<and> (hd t = CHR ''-'' \<or> hd t = CHR ''+'') then tl t else t);
          ds = takeWhile is_digit u;
          v = (if neg then - digits_value ds else digits_value ds)
      in if ds = [] \<or> v < - (2 ^ 31) \<or> 2 ^ 31 \<le> v then None else Some v)"

text \<open>\<open>std::to_string\<close> of a number that is not negative.\<close>

function nat_string :: "nat \<Rightarrow> string" where
  "nat_string n =
     (if n < 10 then [char_of (48 + n)] else nat_string (n div 10) @ [char_of (48 + n mod 10)])"
  by pat_completeness auto
termination
  by (relation "measure id") auto

declare nat_string.simps [simp del]

lemma nat_string_digits: "list_all is_digit (nat_string n)" "nat_string n \<noteq> []"
proof (induction n rule: nat_string.induct)
  case (1 n)
  have d: "is_digit (char_of (48 + m))" if "m < 10" for m :: nat
    using that by (simp add: is_digit_def)
  { case 1
    then show ?case using "1.IH"(1) d by (subst nat_string.simps) simp
  next
    case 2
    then show ?case by (subst nat_string.simps) simp }
qed

lemma digits_value_nat_string: "digits_value (nat_string n) = int n"
proof (induction n rule: nat_string.induct)
  case (1 n)
  have c: "(of_char (char_of (48 + m)) :: int) - 48 = int m" if "m < 10" for m :: nat
  proof -
    have "(of_char (char_of (48 + m)) :: nat) = 48 + m" using that by simp
    then have "int (of_char (char_of (48 + m))) = int (48 + m)" by (rule arg_cong)
    then have "(of_char (char_of (48 + m)) :: int) = int (48 + m)" by (simp only: of_nat_of_char)
    then show ?thesis by simp
  qed
  show ?case
  proof (cases "n < 10")
    case True
    then show ?thesis using c [of n] by (subst nat_string.simps) (simp add: digits_value_def)
  next
    case False
    then have "digits_value (nat_string n) = 10 * int (n div 10) + int (n mod 10)"
      using "1.IH" c [of "n mod 10"] by (subst nat_string.simps) (simp add: digits_value_def)
    moreover have "10 * int (n div 10) + int (n mod 10) = int n"
      by (metis mult_div_mod_eq of_nat_add of_nat_mult of_nat_numeral)
    ultimately show ?thesis by simp
  qed
qed

lemma stoi_nat_string:
  assumes "n < 2 ^ 31"
  shows "stoi (nat_string n) = Some (int n)"
proof -
  obtain c cs where n: "nat_string n = c # cs" "is_digit c" "list_all is_digit cs"
    using nat_string_digits [of n] by (cases "nat_string n") auto
  have "\<not> is_space c" "c \<noteq> CHR ''-''" "c \<noteq> CHR ''+''"
    using n(2) by (auto simp: is_digit_def is_space_def)
  moreover have tw: "takeWhile is_digit cs = cs"
    using n(3) by (simp add: takeWhile_eq_all_conv list_all_iff)
  moreover have "digits_value (c # cs) = int n" using digits_value_nat_string [of n] n(1) by simp
  ultimately show ?thesis using n(1,2) assms by (simp add: stoi_def Let_def tw)
qed

lemma nat_string_word: "is_word (nat_string n)"
proof -
  have "\<not> is_space c" if "is_digit c" for c using that by (auto simp: is_digit_def is_space_def)
  then show ?thesis using nat_string_digits [of n] by (auto simp: is_word_def list_all_iff)
qed

definition int_string :: "int \<Rightarrow> string" where
  "int_string i = (if i < 0 then CHR ''-'' # nat_string (nat (- i)) else nat_string (nat i))"

section \<open>Lines and extraction of numbers\<close>

text \<open>
  An input stream: the characters left, or \<open>None\<close> once the end of the file was met.
  \<open>getline s old\<close> gives whether a line was read, the string variable afterwards, and the
  stream: at the end of the file the call fails, and it does not even touch the variable when
  an earlier call has met the end already.
\<close>

type_synonym istream = "string option"

abbreviation newline :: char where
  "newline \<equiv> CHR 0x0A"

fun getline :: "istream \<Rightarrow> string \<Rightarrow> bool \<times> string \<times> istream" where
  "getline None old = (False, old, None)"
| "getline (Some s) old =
     (if newline \<in> set s
      then (True, takeWhile (\<lambda>c. c \<noteq> newline) s, Some (tl (dropWhile (\<lambda>c. c \<noteq> newline) s)))
      else (s \<noteq> [], s, None))"

lemma getline_line:
  assumes "newline \<notin> set l"
  shows "getline (Some (l @ newline # rest)) old = (True, l, Some rest)"
proof -
  have "\<And>c. c \<in> set l \<Longrightarrow> c \<noteq> newline" using assms by blast
  then show ?thesis by (simp add: takeWhile_append2 dropWhile_append2)
qed

text \<open>
  \<open>operator>>\<close> into an \<open>int\<close> or an \<open>unsigned short\<close>. With nothing but white space left the
  variable keeps its value; text that is no number stores 0; a number out of range stores the
  nearest value. For the unsigned type a minus sign negates modulo its range.
\<close>

definition signed_digits :: "string \<Rightarrow> bool \<times> string \<times> string" where
  "signed_digits t =
     (let neg = (t \<noteq> [] \<and> hd t = CHR ''-'');
          u = (if t \<noteq> [] \<and> (hd t = CHR ''-'' \<or> hd t = CHR ''+'') then tl t else t)
      in (neg, takeWhile is_digit u, dropWhile is_digit u))"

definition read_int :: "string \<Rightarrow> int \<Rightarrow> int \<times> string" where
  "read_int s old =
     (let t = dropWhile is_space s; (neg, ds, rest) = signed_digits t;
          v = (if neg then - digits_value ds else digits_value ds)
      in if t = [] then (old, [])
         else if ds = [] then (0, rest)
         else (max (- (2 ^ 31)) (min (2 ^ 31 - 1) v), rest))"

definition read_u16 :: "string \<Rightarrow> u16 \<Rightarrow> u16 \<times> string" where
  "read_u16 s old =
     (let t = dropWhile is_space s; (neg, ds, rest) = signed_digits t
      in if t = [] then (old, [])
         else if ds = [] then (0, rest)
         else if 2 ^ 16 \<le> digits_value ds then (-1, rest)
         else (if neg then - of_int (digits_value ds) else of_int (digits_value ds), rest))"

lemma signed_digits_nat_string:
  assumes "starts_with_space rest"
  shows "signed_digits (nat_string n @ rest) = (False, nat_string n, rest)"
    and "dropWhile is_space (nat_string n @ rest) = nat_string n @ rest"
proof -
  obtain c cs where n: "nat_string n = c # cs" "is_digit c" "list_all is_digit (nat_string n)"
    using nat_string_digits [of n] by (cases "nat_string n") auto
  have c: "\<not> is_space c" "c \<noteq> CHR ''-''" "c \<noteq> CHR ''+''"
    using n(2) by (auto simp: is_digit_def is_space_def)
  have all: "\<And>x. x \<in> set (nat_string n) \<Longrightarrow> is_digit x" using n(3) by (simp add: list_all_iff)
  have stop: "takeWhile is_digit rest = []" "dropWhile is_digit rest = rest"
    using assms by (cases rest; auto simp: starts_with_space_def is_digit_def is_space_def)+
  have "takeWhile is_digit (nat_string n @ rest) = nat_string n"
    "dropWhile is_digit (nat_string n @ rest) = rest"
    using all stop by (simp_all add: takeWhile_append2 dropWhile_append2)
  then show "signed_digits (nat_string n @ rest) = (False, nat_string n, rest)"
    using c n(1) by (simp add: signed_digits_def)
  show "dropWhile is_space (nat_string n @ rest) = nat_string n @ rest"
    using c n(1) by simp
qed

text \<open>A number that was printed is read back.\<close>

lemma read_int_nat_string:
  assumes "starts_with_space rest" and "n < 2 ^ 31"
  shows "read_int (nat_string n @ rest) old = (int n, rest)"
    and "read_int (CHR '' '' # nat_string n @ rest) old = (int n, rest)"
proof -
  have "nat_string n \<noteq> []" by (rule nat_string_digits)
  then show "read_int (nat_string n @ rest) old = (int n, rest)"
      "read_int (CHR '' '' # nat_string n @ rest) old = (int n, rest)"
    using signed_digits_nat_string [OF assms(1), of n] assms(2)
    by (simp_all add: read_int_def digits_value_nat_string)
qed

lemma read_u16_nat_string:
  assumes "starts_with_space rest" and "n < 2 ^ 16"
  shows "read_u16 (CHR '' '' # nat_string n @ rest) old = (of_nat n, rest)"
proof -
  have "nat_string n \<noteq> []" by (rule nat_string_digits)
  then show ?thesis
    using signed_digits_nat_string [OF assms(1), of n] assms(2)
    by (simp add: read_u16_def digits_value_nat_string)
qed

end
