(* ===== verification/Socket_Setup.thy ===== *)
theory Socket_Setup
  imports Sockets
begin

text \<open>
  Opening connections and listening sockets, and the loops that send or receive whatever the
  timeouts. The programs carry four copies of the function that connects to a server
  (\<open>client_util\<close>, \<open>message_passing\<close>, \<open>participant_util\<close> and the registrar of the coordinator)
  and four of the one that opens a listening socket; here each copy is a definition of its
  own, and the theorems compare them. The results of the system calls are inputs, the
  descriptors of the process are a table. A descriptor that is opened and not closed on an
  error path stays in the table.
\<close>

section \<open>Addresses and descriptors\<close>

record sockaddr_in =
  sin_family :: nat
  s_addr :: u32
  sin_port :: u16

abbreviation (input) AF_INET :: nat where
  "AF_INET \<equiv> 2"

abbreviation (input) INADDR_ANY :: u32 where
  "INADDR_ANY \<equiv> 0"

text \<open>The network byte order of a 16-bit number, on a little-endian host.\<close>

definition htons :: "u16 \<Rightarrow> u16" where
  "htons p = push_bit 8 p OR drop_bit 8 p"

lemma htons_htons [simp]: "htons (htons p) = p"
  by (rule bit_word_eqI) (auto simp: htons_def bit_simps)

definition MakeAddress :: "u16 \<Rightarrow> sockaddr_in" where
  "MakeAddress p = \<lparr>sin_family = AF_INET, s_addr = INADDR_ANY, sin_port = htons p\<rparr>"

text \<open>The copies of the other programs.\<close>

definition client_util_MakeAddress :: "u16 \<Rightarrow> sockaddr_in" where
  "client_util_MakeAddress p = \<lparr>sin_family = AF_INET, s_addr = INADDR_ANY, sin_port = htons p\<rparr>"

definition participant_util_MakeAddress :: "u16 \<Rightarrow> sockaddr_in" where
  "participant_util_MakeAddress p = \<lparr>sin_family = AF_INET, s_addr = INADDR_ANY, sin_port = htons p\<rparr>"

definition registrar_MakeAddress :: "u16 \<Rightarrow> sockaddr_in" where
  "registrar_MakeAddress p = \<lparr>sin_family = AF_INET, s_addr = INADDR_ANY, sin_port = htons p\<rparr>"

definition ServerTask_MakeAddress :: "u16 \<Rightarrow> sockaddr_in" where
  "ServerTask_MakeAddress p = \<lparr>sin_family = AF_INET, s_addr = INADDR_ANY, sin_port = htons p\<rparr>"

text \<open>The driver of the coordinator takes its port as an \<open>int\<close>, which \<open>htons\<close> cuts to 16 bits.\<close>

definition CoordinatorDriver_MakeAddress :: "int \<Rightarrow> sockaddr_in" where
  "CoordinatorDriver_MakeAddress p =
     \<lparr>sin_family = AF_INET, s_addr = INADDR_ANY, sin_port = htons (of_int p)\<rparr>"

lemma MakeAddress_copies [simp]:
  "client_util_MakeAddress = MakeAddress" "participant_util_MakeAddress = MakeAddress"
  "registrar_MakeAddress = MakeAddress" "ServerTask_MakeAddress = MakeAddress"
  "CoordinatorDriver_MakeAddress i = MakeAddress (of_int i)"
  by (simp_all add: fun_eq_iff MakeAddress_def client_util_MakeAddress_def participant_util_MakeAddress_def
      registrar_MakeAddress_def ServerTask_MakeAddress_def CoordinatorDriver_MakeAddress_def)

record fd_state =
  peer :: "sockaddr_in option"
  bound_to :: "sockaddr_in option"
  backlog :: "nat option"
  rcv_timeout :: "nat option"
  reuse_port :: bool

type_synonym fd_table = "int \<rightharpoonup> fd_state"

definition new_fd :: fd_state where
  "new_fd = \<lparr>peer = None, bound_to = None, backlog = None, rcv_timeout = None, reuse_port = False\<rparr>"

text \<open>\<open>upd_fd f g t\<close> changes the state of descriptor \<open>f\<close>, if it is open.\<close>

definition upd_fd :: "int \<Rightarrow> (fd_state \<Rightarrow> fd_state) \<Rightarrow> fd_table \<Rightarrow> fd_table" where
  "upd_fd f g t = (case t f of None \<Rightarrow> t | Some d \<Rightarrow> t(f \<mapsto> g d))"

definition sys_socket :: "int \<Rightarrow> fd_table \<Rightarrow> fd_table" where
  "sys_socket r t = (if r < 0 then t else t(r \<mapsto> new_fd))"

lemma upd_fd_same [simp]: "upd_fd f g (t(f \<mapsto> d)) = t(f \<mapsto> g d)"
  by (simp add: upd_fd_def)

lemma upd_fd_closed [simp]: "t f = None \<Longrightarrow> upd_fd f g t = t"
  by (simp add: upd_fd_def)

section \<open>Connecting\<close>

text \<open>
  What the calls of one attempt return: \<open>socket()\<close>, the address that \<open>inet_pton()\<close> finds for a
  host name (\<open>None\<close> where it returns 0 or less), \<open>connect()\<close>.
\<close>

record connect_calls =
  socket_ret :: int
  pton :: "string \<Rightarrow> u32 option"
  connect_ret :: int

abbreviation (input) kSocketTimeout :: nat where
  "kSocketTimeout \<equiv> 1"

text \<open>
  The result, the caller's address structure (\<open>inet_pton\<close> writes into it through a cast that
  drops \<open>const\<close>), and the descriptors.
\<close>

definition client_util_SetUpSocket ::
  "connect_calls \<Rightarrow> sockaddr_in \<Rightarrow> string \<Rightarrow> fd_table \<Rightarrow> int \<times> sockaddr_in \<times> fd_table" where
  "client_util_SetUpSocket k address hostname t =
     (let sock = socket_ret k; t1 = sys_socket sock t
      in if sock < 0 then (-1, address, t1)
         else case pton k hostname of
                None \<Rightarrow> (-1, address, t1)
              | Some a \<Rightarrow>
                  let address' = address\<lparr>s_addr := a\<rparr>;
                      t2 = upd_fd sock (rcv_timeout_update (\<lambda>_. Some kSocketTimeout)) t1
                  in if connect_ret k < 0 then (-1, address', t2)
                     else (sock, address', upd_fd sock (peer_update (\<lambda>_. Some address')) t2))"

definition message_passing_SetUpSocket ::
  "connect_calls \<Rightarrow> sockaddr_in \<Rightarrow> string \<Rightarrow> fd_table \<Rightarrow> int \<times> sockaddr_in \<times> fd_table" where
  "message_passing_SetUpSocket k address hostname t =
     (if socket_ret k < 0 then (-1, address, t)
      else
        let sock = socket_ret k; t1 = sys_socket sock t
        in case pton k hostname of
             None \<Rightarrow> (-1, address, t1)
           | Some a \<Rightarrow>
               let address' = address\<lparr>s_addr := a\<rparr>;
                   t2 = upd_fd sock (rcv_timeout_update (\<lambda>_. Some kSocketTimeout)) t1
               in if connect_ret k < 0 then (-1, address', t2)
                  else (sock, address', upd_fd sock (peer_update (\<lambda>_. Some address')) t2))"

definition participant_util_SetUpSocket ::
  "connect_calls \<Rightarrow> sockaddr_in \<Rightarrow> string \<Rightarrow> fd_table \<Rightarrow> int \<times> sockaddr_in \<times> fd_table" where
  "participant_util_SetUpSocket k address hostname t =
     (let sock = socket_ret k; t1 = sys_socket sock t
      in if sock < 0 then (-1, address, t1)
         else case pton k hostname of
                None \<Rightarrow> (-1, address, t1)
              | Some a \<Rightarrow>
                  let address' = address\<lparr>s_addr := a\<rparr>
                  in if connect_ret k < 0 then (-1, address', t1)
                     else (sock, address', upd_fd sock (peer_update (\<lambda>_. Some address')) t1))"

definition registrar_SetUpSocket ::
  "connect_calls \<Rightarrow> sockaddr_in \<Rightarrow> string \<Rightarrow> fd_table \<Rightarrow> int \<times> sockaddr_in \<times> fd_table" where
  "registrar_SetUpSocket k address hostname t =
     (if socket_ret k < 0 then (-1, address, t)
      else
        let sock = socket_ret k; t1 = sys_socket sock t
        in case pton k hostname of
             None \<Rightarrow> (-1, address, t1)
           | Some a \<Rightarrow>
               let address' = address\<lparr>s_addr := a\<rparr>
               in if connect_ret k < 0 then (-1, address', t1)
                  else (sock, address', upd_fd sock (peer_update (\<lambda>_. Some address')) t1))"

text \<open>
  The retry loop of the registrar, over the calls of the successive attempts; each attempt uses
  the same address structure.
\<close>

fun registrar_SetUpSocketRetry ::
  "nat \<Rightarrow> connect_calls list \<Rightarrow> sockaddr_in \<Rightarrow> string \<Rightarrow> fd_table \<Rightarrow> int \<times> fd_table" where
  "registrar_SetUpSocketRetry (Suc n) (k # ks) address hostname t =
     (case registrar_SetUpSocket k address hostname t of
        (f, address', t') \<Rightarrow>
          if f < 0 then registrar_SetUpSocketRetry n ks address' hostname t' else (f, t'))"
| "registrar_SetUpSocketRetry n ks address hostname t = (-1, t)"

text \<open>What all four copies promise.\<close>

locale connector =
  fixes open_to :: "connect_calls \<Rightarrow> sockaddr_in \<Rightarrow> string \<Rightarrow> fd_table \<Rightarrow> int \<times> sockaddr_in \<times> fd_table"
  assumes no_socket: "socket_ret k < 0 \<Longrightarrow> open_to k a h t = (-1, a, t)"
    and bad_host: "0 \<le> socket_ret k \<Longrightarrow> pton k h = None \<Longrightarrow>
      open_to k a h t = (-1, a, t(socket_ret k \<mapsto> new_fd))"
    and refused: "0 \<le> socket_ret k \<Longrightarrow> pton k h = Some ip \<Longrightarrow> connect_ret k < 0 \<Longrightarrow>
      \<exists>d. open_to k a h t = (-1, a\<lparr>s_addr := ip\<rparr>, t(socket_ret k \<mapsto> d)) \<and> peer d = None"
    and accepted: "0 \<le> socket_ret k \<Longrightarrow> pton k h = Some ip \<Longrightarrow> 0 \<le> connect_ret k \<Longrightarrow>
      \<exists>d. open_to k a h t = (socket_ret k, a\<lparr>s_addr := ip\<rparr>, t(socket_ret k \<mapsto> d)) \<and>
        peer d = Some (a\<lparr>s_addr := ip\<rparr>)"
begin

text \<open>The call succeeds exactly when every system call does, and then the peer is the host asked for.\<close>

lemma success_iff:
  "0 \<le> fst (open_to k a h t) \<longleftrightarrow> 0 \<le> socket_ret k \<and> pton k h \<noteq> None \<and> 0 \<le> connect_ret k"
proof (cases "socket_ret k < 0")
  case False
  then show ?thesis
    using bad_host [of k h a t] refused [of k h _ a t] accepted [of k h _ a t]
    by (cases "pton k h"; cases "connect_ret k < 0") fastforce+
qed (simp add: no_socket)

lemma success_peer:
  assumes "open_to k (MakeAddress p) h t = (f, a', t')" and "0 \<le> f"
  shows "\<exists>ip d. pton k h = Some ip \<and> t' = t(f \<mapsto> d) \<and>
    peer d = Some \<lparr>sin_family = AF_INET, s_addr = ip, sin_port = htons p\<rparr>"
proof -
  have ok: "0 \<le> socket_ret k" "pton k h \<noteq> None" "0 \<le> connect_ret k"
    using assms success_iff [of k "MakeAddress p" h t] by auto
  then obtain ip where "pton k h = Some ip" by blast
  then show ?thesis
    using accepted [OF ok(1) _ ok(3), of h ip "MakeAddress p" t] assms(1) by (auto simp: MakeAddress_def)
qed

text \<open>A failure after \<open>socket()\<close> succeeded leaves the descriptor open.\<close>

lemma failure_leaks:
  assumes "0 \<le> socket_ret k" and "pton k h = None \<or> connect_ret k < 0"
  shows "\<exists>a' t'. open_to k a h t = (-1, a', t') \<and> dom t' = insert (socket_ret k) (dom t)"
  using assms bad_host [of k h a t] refused [of k h _ a t] by (cases "pton k h") fastforce+

lemma others_kept:
  assumes "f \<noteq> socket_ret k"
  shows "snd (snd (open_to k a h t)) f = t f"
proof (cases "socket_ret k < 0")
  case False
  then show ?thesis
    using assms bad_host [of k h a t] refused [of k h _ a t] accepted [of k h _ a t]
    by (cases "pton k h"; cases "connect_ret k < 0") fastforce+
qed (simp add: no_socket)

end

lemmas SetUpSocket_defs =
  client_util_SetUpSocket_def message_passing_SetUpSocket_def participant_util_SetUpSocket_def
  registrar_SetUpSocket_def sys_socket_def

interpretation client_util: connector client_util_SetUpSocket
  by unfold_locales (auto simp: SetUpSocket_defs new_fd_def Let_def)

interpretation message_passing: connector message_passing_SetUpSocket
  by unfold_locales (auto simp: SetUpSocket_defs new_fd_def Let_def)

interpretation participant_util: connector participant_util_SetUpSocket
  by unfold_locales (auto simp: SetUpSocket_defs new_fd_def Let_def)

interpretation registrar: connector registrar_SetUpSocket
  by unfold_locales (auto simp: SetUpSocket_defs new_fd_def Let_def)

section \<open>Listening\<close>

record listen_calls =
  lsocket_ret :: int
  setsockopt_ret :: int
  bind_ret :: int
  listen_ret :: int

text \<open>
  The body that the four copies share; they differ in the length of the queue. The test of the
  descriptor is \<open>== 0\<close>; the options \<open>SO_REUSEADDR | SO_REUSEPORT\<close> are or-ed into the number of
  \<open>SO_REUSEPORT\<close>.
\<close>

definition listener_socket :: "nat \<Rightarrow> listen_calls \<Rightarrow> sockaddr_in \<Rightarrow> fd_table \<Rightarrow> int \<times> fd_table" where
  "listener_socket queue_size k address t =
     (let server_fd = lsocket_ret k; t1 = sys_socket server_fd t
      in if server_fd = 0 then (-1, t1)
         else
           let t2 = (if setsockopt_ret k \<noteq> 0 then t1 else upd_fd server_fd (reuse_port_update (\<lambda>_. True)) t1)
           in if bind_ret k < 0 then (-1, t2)
              else
                let t3 = upd_fd server_fd (bound_to_update (\<lambda>_. Some address)) t2
                in if listen_ret k < 0 then (-1, t3)
                   else (server_fd, upd_fd server_fd (backlog_update (\<lambda>_. Some queue_size)) t3))"

definition message_passing_SetUpListenerSocket ::
  "listen_calls \<Rightarrow> sockaddr_in \<Rightarrow> fd_table \<Rightarrow> int \<times> fd_table" where
  "message_passing_SetUpListenerSocket = listener_socket 1"

definition participant_util_SetUpListenerSocket ::
  "listen_calls \<Rightarrow> sockaddr_in \<Rightarrow> fd_table \<Rightarrow> int \<times> fd_table" where
  "participant_util_SetUpListenerSocket = listener_socket 5"

definition CoordinatorDriver_SetUpSocket ::
  "listen_calls \<Rightarrow> sockaddr_in \<Rightarrow> fd_table \<Rightarrow> int \<times> fd_table" where
  "CoordinatorDriver_SetUpSocket = listener_socket 5"

definition ServerTask_SetUpSocket ::
  "listen_calls \<Rightarrow> sockaddr_in \<Rightarrow> fd_table \<Rightarrow> int \<times> fd_table" where
  "ServerTask_SetUpSocket = listener_socket 5"

definition CoordinatorDriver_CreateSocket :: "listen_calls \<Rightarrow> int \<Rightarrow> fd_table \<Rightarrow> int \<times> fd_table" where
  "CoordinatorDriver_CreateSocket k p t =
     CoordinatorDriver_SetUpSocket k (CoordinatorDriver_MakeAddress p) t"

text \<open>
  A listening socket is open, bound to the address and listening. The documented failure of
  \<open>bind()\<close> on a descriptor that is not open makes up for the wrong test of \<open>socket()\<close>.
\<close>

lemma listener_socket_success:
  assumes "lsocket_ret k < 0 \<Longrightarrow> bind_ret k < 0" and "listener_socket n k a t = (f, t')" and "0 \<le> f"
  shows "\<exists>d. t' = t(f \<mapsto> d) \<and> bound_to d = Some a \<and> backlog d = Some n"
  using assms by (auto simp: listener_socket_def sys_socket_def Let_def split: if_splits)

text \<open>On failure the descriptor, if there was one, stays open.\<close>

lemma listener_socket_failure:
  assumes "0 \<le> lsocket_ret k" and "bind_ret k < 0 \<or> listen_ret k < 0 \<or> lsocket_ret k = 0"
  shows "\<exists>t'. listener_socket n k a t = (-1, t') \<and> dom t' = insert (lsocket_ret k) (dom t)"
  using assms by (auto simp: listener_socket_def sys_socket_def Let_def)

section \<open>Sending and receiving for ever\<close>

function ReceiveForever :: "nat \<Rightarrow> sock \<Rightarrow> (io_result \<times> sock) outcome" where
  "ReceiveForever n s =
     obind (sys_recv n s) (\<lambda>(r, s').
       if r = IoErr \<and> is_timeout (errno s') then ReceiveForever n s' else Ret (r, s'))"
  by pat_completeness auto
termination
  by (relation "measure (\<lambda>(n, s). rx_size (rx s))") (auto dest: sys_recv_err_progress)

declare ReceiveForever.simps [simp del]

text \<open>
  The result of \<open>send()\<close> is added to the 32-bit count whatever it is, except for the two
  cases that return.
\<close>

partial_function (option) SendForever_loop :: "bytes \<Rightarrow> u32 \<Rightarrow> sock \<Rightarrow> (int \<times> sock) option" where
  "SendForever_loop buf sent s =
     (if unat sent < length buf
      then case sys_send (drop (unat sent) buf) s of
             (Inl e, s') \<Rightarrow>
               if \<not> is_timeout e then Some (-1, s') else SendForever_loop buf (sent - 1) s'
           | (Inr n, s') \<Rightarrow>
               if n = 0 then Some (0, s') else SendForever_loop buf (sent + of_nat n) s'
      else Some (sint sent, s))"

definition SendForever :: "bytes \<Rightarrow> sock \<Rightarrow> (int \<times> sock) option" where
  "SendForever buf s = SendForever_loop buf 0 s"

lemma ReceiveForever_IoBytes:
  "ReceiveForever n s = Ret (IoBytes bs, s') \<Longrightarrow> bs \<noteq> [] \<Longrightarrow> rx_size (rx s') < rx_size (rx s)"
proof (induction n s rule: ReceiveForever.induct)
  case (1 n s)
  obtain r s1 where r: "sys_recv n s = Ret (r, s1)"
      "(if r = IoErr \<and> is_timeout (errno s1) then ReceiveForever n s1 else Ret (r, s1)) = Ret (IoBytes bs, s')"
    using "1.prems"(1) by (auto simp: ReceiveForever.simps [of n s] outcome_simps)
  show ?case
  proof (cases "r = IoErr \<and> is_timeout (errno s1)")
    case True
    then have "rx_size (rx s') < rx_size (rx s1)" using "1.IH" [OF r(1) refl True] r(2) "1.prems"(2) by simp
    then show ?thesis using True r(1) sys_recv_err_progress [of n s s1] by simp
  next
    case False
    then show ?thesis using r "1.prems"(2) sys_recv_progress [of n s bs s1] by (simp split: if_splits)
  qed
qed

lemma SendForever_loop_accepting:
  assumes "length buf < 2 ^ 31"
  shows "accepting s \<Longrightarrow> k \<le> length buf \<Longrightarrow>
    \<exists>s'. SendForever_loop buf (of_nat k) s = Some (int (length buf), s') \<and>
      wire s' = wire s @ drop k buf \<and> accepting s' \<and> rx s' = rx s"
proof (induction "length buf - k" arbitrary: k s rule: less_induct)
  case less
  have k: "unat (of_nat k :: u32) = k" using less.prems(2) assms by (intro unat_of_nat_u32) simp
  show ?case
  proof (cases "k < length buf")
    case True
    then obtain n s1 where n: "sys_send (drop k buf) s = (Inr n, s1)" "0 < n"
        "n \<le> length (drop k buf)" "wire s1 = wire s @ take n (drop k buf)" "accepting s1" "rx s1 = rx s"
      using sys_send_accepting [OF less.prems(1), of "drop k buf"] by auto
    have "\<exists>s'. SendForever_loop buf (of_nat (k + n)) s1 = Some (int (length buf), s') \<and>
        wire s' = wire s1 @ drop (k + n) buf \<and> accepting s' \<and> rx s' = rx s1"
      using n True by (intro less.hyps) auto
    then obtain s' where s': "SendForever_loop buf (of_nat k + of_nat n) s1 = Some (int (length buf), s')"
        "wire s' = wire s1 @ drop (k + n) buf" "accepting s'" "rx s' = rx s1"
      by auto
    have "take n (drop k buf) @ drop (k + n) buf = drop k buf"
      by (metis add.commute append_take_drop_id drop_drop)
    then show ?thesis
      using True n s' k by (subst SendForever_loop.simps) simp
  next
    case False
    then have "k = length buf" using less.prems(2) by simp
    then show ?thesis
      using less.prems(1) k sint_of_nat_u32 [OF assms] by (subst SendForever_loop.simps) simp
  qed
qed

section \<open>Properties\<close>


text \<open>
  Every failed attempt of the registrar that got as far as a descriptor leaves it open: after
  three refused attempts it reports failure with three descriptors lost.
\<close>

theorem registrar_retry_leaks:
  assumes "\<forall>k\<in>{k1, k2, k3}. 0 \<le> socket_ret k \<and> pton k h = Some ip \<and> connect_ret k < 0"
  shows "\<exists>t'. registrar_SetUpSocketRetry 3 [k1, k2, k3] (MakeAddress p) h t = (-1, t') \<and>
    dom t' = {socket_ret k1, socket_ret k2, socket_ret k3} \<union> dom t"
  using assms by (auto simp: numeral_3_eq_3 registrar_SetUpSocket_def sys_socket_def Let_def)

theorem registrar_retry_leaks_witness:
  "\<exists>t'. registrar_SetUpSocketRetry 3
      [\<lparr>socket_ret = 4, pton = (\<lambda>_. Some 7), connect_ret = -1\<rparr>,
       \<lparr>socket_ret = 5, pton = (\<lambda>_. Some 7), connect_ret = -1\<rparr>,
       \<lparr>socket_ret = 6, pton = (\<lambda>_. Some 7), connect_ret = -1\<rparr>] (MakeAddress 80) ''h'' Map.empty = (-1, t') \<and>
    dom t' = {4, 5, 6}"
  using registrar_retry_leaks [of "\<lparr>socket_ret = 4, pton = (\<lambda>_. Some 7), connect_ret = -1\<rparr>"
      "\<lparr>socket_ret = 5, pton = (\<lambda>_. Some 7), connect_ret = -1\<rparr>"
      "\<lparr>socket_ret = 6, pton = (\<lambda>_. Some 7), connect_ret = -1\<rparr>" "''h''" 7 80 Map.empty]
  by simp

text \<open>
  \<open>SendForever\<close> delivers a buffer when every \<open>send()\<close> takes some of it, and reports its
  length. But a timeout is added to the count as \<open>-1\<close>: at the start it makes the call fail with
  nothing sent, and after \<open>j\<close> bytes it makes the last of them go out twice.
\<close>

theorem SendForever_timeout_repeats:
  assumes "length buf < 2 ^ 31" and "accepting s" and "0 < j" and "j < length buf"
    and "is_timeout e"
  shows "(\<exists>s'. SendForever buf s = Some (int (length buf), s') \<and> wire s' = wire s @ buf) \<and>
    (\<exists>s'. SendForever buf (s\<lparr>tx := [TxErr e]\<rparr>) = Some (-1, s') \<and> wire s' = wire s) \<and>
    (\<exists>s'. SendForever buf (s\<lparr>tx := [TxAccept j, TxErr e]\<rparr>) = Some (int (length buf), s') \<and>
      wire s' = wire s @ take j buf @ drop (j - 1) buf)"
proof -
  note simps = SendForever_def SendForever_loop.simps [of buf]
  have one: "\<exists>s'. SendForever buf s = Some (int (length buf), s') \<and> wire s' = wire s @ buf"
    using SendForever_loop_accepting [OF assms(1,2), of 0] by (auto simp: SendForever_def)
  have j: "unat (of_nat j :: u32) = j" using assms by (intro unat_of_nat_u32) simp
  have jm: "(of_nat j - 1 :: u32) = of_nat (j - 1)" using assms(3) by (simp add: of_nat_diff)
  have "length buf \<le> unat (-1 :: u32)" using assms(1) by (simp add: unsigned_minus_1_eq_mask mask_eq_exp_minus_1)
  then have two: "SendForever buf (s\<lparr>tx := [TxErr e]\<rparr>) = Some (-1, s\<lparr>tx := [], errno := e\<rparr>)"
    using assms(3-5) unfolding SendForever_def
    by (subst SendForever_loop.simps) (auto simp: sys_send_def SendForever_loop.simps [of buf "-1"])
  let ?s = "s\<lparr>wire := wire s @ take j buf, tx := [], errno := e\<rparr>"
  have "SendForever_loop buf (of_nat j) (s\<lparr>tx := [TxErr e], wire := wire s @ take j buf\<rparr>) =
      SendForever_loop buf (of_nat (j - 1)) ?s"
    using assms(4,5) j jm by (subst SendForever_loop.simps) (simp add: sys_send_def)
  moreover have "SendForever buf (s\<lparr>tx := [TxAccept j, TxErr e]\<rparr>) =
      SendForever_loop buf (of_nat j) (s\<lparr>tx := [TxErr e], wire := wire s @ take j buf\<rparr>)"
    using assms(3,4) unfolding SendForever_def
    by (subst SendForever_loop.simps) (auto simp: sys_send_def min_def)
  moreover have "\<exists>s'. SendForever_loop buf (of_nat (j - 1)) ?s = Some (int (length buf), s') \<and>
      wire s' = wire ?s @ drop (j - 1) buf \<and> accepting s' \<and> rx s' = rx ?s"
    using assms by (intro SendForever_loop_accepting) (auto simp: accepting_def)
  ultimately show ?thesis using one two by auto
qed

theorem SendForever_timeout_repeats_witness:
  "\<exists>s'. SendForever [7, 8, 9] \<lparr>rx = [], tx = [TxAccept 2, TxErr EAGAIN], wire = [], errno = NoErr\<rparr> =
      Some (3, s') \<and> wire s' = [7, 8, 8, 9]"
  using SendForever_timeout_repeats [of "[7, 8, 9]" "\<lparr>rx = [], tx = [], wire = [], errno = NoErr\<rparr>" 2 EAGAIN]
  by (simp add: accepting_def is_timeout_def)

end
