(* ===== verification/Ftp_Client.thy ===== *)
theory Ftp_Client
  imports Text_Input Socket_Setup Pool_Task Ftp_Agent
begin

text \<open>
  Model of the FTP client, \<open>project1_2/client\<close>: the command line parser, the socket helpers
  of \<open>client_util\<close>, the upload, download and terminate tasks, and the shell of \<open>client.cpp\<close>.

  The shell and its background tasks are a transition system: the shell takes a line when it
  is at its prompt, and waits for one task where the code calls \<open>WaitForCompletion(task)\<close>;
  each task runs one \<open>RunAtomic()\<close> at a time. The local file system is the parameter of
  \<open>File_Handler\<close>.
\<close>

section \<open>InputParser\<close>

datatype ReqType = GETF | PUTF | DEL | LS | CD | MKDIR | PWD | QUIT | TERMINATE

fun command_type :: "string \<Rightarrow> ReqType option" where
  "command_type w =
     (if w = ''get'' then Some GETF else if w = ''put'' then Some PUTF
      else if w = ''delete'' then Some DEL else if w = ''ls'' then Some LS
      else if w = ''cd'' then Some CD else if w = ''mkdir'' then Some MKDIR
      else if w = ''pwd'' then Some PWD else if w = ''quit'' then Some QUIT
      else if w = ''terminate'' then Some TERMINATE else None)"

text \<open>
  \<open>req\<close> is \<open>None\<close> when the member \<open>req_\<close> holds no value of the enumeration. The constructor
  does not initialize \<open>req_\<close> when it rejects the command; what the member holds then is the
  parameter \<open>indeterminate\<close>.
\<close>

record input_parser =
  is_valid :: bool
  is_forking :: bool
  req :: "ReqType option"
  fn :: string
  dn :: string
  cid :: string
  put_contents :: bytes

definition new_InputParser ::
  "ReqType option \<Rightarrow> 'f fs_ops \<Rightarrow> string \<Rightarrow> 'f \<Rightarrow> string \<Rightarrow> input_parser" where
  "new_InputParser indeterminate ops current_path f cmd =
     (let ip = \<lparr>is_valid = True, is_forking = False, req = indeterminate, fn = [], dn = [], cid = [],
                put_contents = []\<rparr>;
          (word, iss) = read_word cmd []
      in case command_type word of
           None \<Rightarrow> ip\<lparr>is_valid := False\<rparr>
         | Some r \<Rightarrow>
             let (ip1, iss1) =
                   (case r of
                      PUTF \<Rightarrow> (let (w, i) = read_word iss []
                               in (ip\<lparr>fn := w, put_contents :=
                                     FileHandler_Get ops w (new_FileHandler current_path) f\<rparr>, i))
                    | GETF \<Rightarrow> (let (w, i) = read_word iss [] in (ip\<lparr>fn := w\<rparr>, i))
                    | DEL \<Rightarrow> (let (w, i) = read_word iss [] in (ip\<lparr>fn := w\<rparr>, i))
                    | CD \<Rightarrow> (let (w, i) = read_word iss [] in (ip\<lparr>dn := w\<rparr>, i))
                    | MKDIR \<Rightarrow> (let (w, i) = read_word iss [] in (ip\<lparr>dn := w\<rparr>, i))
                    | TERMINATE \<Rightarrow> (let (w, i) = read_word iss [] in (ip\<lparr>cid := w\<rparr>, i))
                    | _ \<Rightarrow> (ip, iss));
                 (word', iss2) = read_word iss1 word
             in ip1\<lparr>req := Some r, is_forking := (word' = ''&'')\<rparr>)"

definition GetContentsMessage :: "input_parser \<Rightarrow> FileContents" where
  "GetContentsMessage ip = \<lparr>contents = put_contents ip, is_last = False\<rparr>"

text \<open>Nobody catches the exceptions of \<open>stoi\<close>.\<close>

definition CreateReq :: "input_parser \<Rightarrow> Request outcome" where
  "CreateReq ip =
     (case req ip of
        None \<Rightarrow> Ret NoRequest
      | Some GETF \<Rightarrow> Ret (GetRequest (fn ip))
      | Some PUTF \<Rightarrow> Ret (PutRequest (fn ip))
      | Some DEL \<Rightarrow> Ret (DeleteRequest (fn ip))
      | Some LS \<Rightarrow> Ret ListRequest
      | Some CD \<Rightarrow> Ret (ChangeDirRequest (dn ip = ''..'') (dn ip))
      | Some MKDIR \<Rightarrow> Ret (MakeDirRequest (dn ip))
      | Some PWD \<Rightarrow> Ret PwdRequest
      | Some QUIT \<Rightarrow> Ret QuitRequest
      | Some TERMINATE \<Rightarrow>
          (case stoi (cid ip) of None \<Rightarrow> Crash | Some v \<Rightarrow> Ret (TerminateRequest (of_int v))))"

section \<open>client_util\<close>

definition SaveIncomingFile :: "'f fs_ops \<Rightarrow> bytes \<Rightarrow> string \<Rightarrow> 'f \<Rightarrow> 'f" where
  "SaveIncomingFile ops cs name f = fs_write ops name cs f"

section \<open>Tasks\<close>

definition UploadTask_RunAtomic ::
  "FileContents codec \<Rightarrow> sender \<Rightarrow> sock \<Rightarrow> (status \<times> sender \<times> sock) outcome" where
  "UploadTask_RunAtomic c sd s =
     (if SentCompleteFile sd then Ret (DONE, sd, s)
      else obind (SendNextChunk c sd s) (\<lambda>(kSendResult, sd', s').
        Ret (if kSendResult < 0 then if is_timeout (errno s') then RUNNING else FAILED
             else if kSendResult = 0 then DONE else RUNNING, sd', s')))"

definition DownloadTask_RunAtomic ::
  "FileContents codec \<Rightarrow> 'f fs_ops \<Rightarrow> string \<Rightarrow> receiver \<Rightarrow> sock \<Rightarrow> 'f \<Rightarrow>
   (status \<times> receiver \<times> sock \<times> 'f) outcome" where
  "DownloadTask_RunAtomic c ops filename r s f =
     (if \<not> HasCompleteFile r
      then obind (ReceiveNextChunk c r s) (\<lambda>(bytes_read, r', s').
        Ret (if bytes_read < 0
             then if is_timeout (errno s') then (RUNNING, r', s', f) else (FAILED, Reset r', s', f)
             else if bytes_read = 0 then (DONE, r', s', f) else (RUNNING, r', s', f)))
      else case GetFileContents r of
             (cs, r') \<Rightarrow> Ret (DONE, r', s, SaveIncomingFile ops cs filename f))"

definition TerminateTask_RunAtomic ::
  "Request codec \<Rightarrow> u32 \<Rightarrow> sock \<Rightarrow> status \<times> sock" where
  "TerminateTask_RunAtomic c command_id s =
     (case sys_send (snd (Serialize c (TerminateRequest command_id) [])) s of
        (Inl e, s') \<Rightarrow> (FAILED, s')
      | (Inr n, s') \<Rightarrow> (DONE, s'))"

section \<open>Client\<close>

datatype ctask = Upload sender | Download string receiver | Terminate u32 sock

text \<open>
  A task of the client's pool: \<open>RunTask\<close> publishes the status that \<open>SetUp()\<close> or the last
  iteration returned (or CANCELLED), iterates the task while that is RUNNING, then cleans it
  up. The status is published before the clean-up.
\<close>

datatype task_phase = Publishing status | Iterating | Cleaning | Finished

record task_entry =
  body :: ctask
  task_status :: status
  phase :: task_phase

datatype shell_pc = Prompt | WaitTask nat | Left

record 'f client =
  connected :: bool
  outgoing_msg_buf :: bytes
  client_parser :: parser
  csock :: sock
  terminate_sock :: sock
  cout :: "string list"
  tasks :: "task_entry list"
  cancelled :: "nat set"
  get_task :: "nat option"
  put_task :: "nat option"
  r_old :: Request
  local_files :: 'f
  pc :: shell_pc

definition SendReq :: "'f client \<Rightarrow> (bool \<times> 'f client) option" where
  "SendReq k =
     (if \<not> connected k then Some (False, k)
      else case SendForever (outgoing_msg_buf k) (csock k) of
             None \<Rightarrow> None
           | Some (n, s) \<Rightarrow>
               if n < 0 then Some (False, k\<lparr>csock := s\<rparr>)
               else Some (True, k\<lparr>csock := s, outgoing_msg_buf := []\<rparr>))"

function WaitForMessage_loop :: "parser \<Rightarrow> sock \<Rightarrow> (parser \<times> sock) outcome" where
  "WaitForMessage_loop p s =
     (if HasCompleteMessage p then Ret (p, s)
      else obind (ReceiveForever 4096 s) (\<lambda>(r, s').
        case r of
          IoErr \<Rightarrow> Ret (p, s')
        | IoBytes bs \<Rightarrow>
            if bs = [] then Ret (p, s')
            else obind (AddNewData p bs) (\<lambda>p'. WaitForMessage_loop p' s')))"
  by pat_completeness auto
termination
  by (relation "measure (\<lambda>(p, s). rx_size (rx s))") (auto dest: ReceiveForever_IoBytes)

declare WaitForMessage_loop.simps [simp del]

definition WaitForMessage :: "'f client \<Rightarrow> (bool \<times> 'f client) outcome" where
  "WaitForMessage k =
     obind (WaitForMessage_loop (ResetParser (client_parser k)) (csock k)) (\<lambda>(p, s).
       Ret (connected k, k\<lparr>client_parser := p, csock := s\<rparr>))"

fun list_output :: "nat \<Rightarrow> string list \<Rightarrow> string" where
  "list_output step [] = []"
| "list_output step (name # names) =
     name @ (if step mod 3 = 0 \<and> names \<noteq> [] then [CHR 0x0A] else ''   '') @
     list_output (Suc step) names"

fun response_output :: "Response option \<Rightarrow> string" where
  "response_output (Some (ListResponse names)) = list_output 1 names"
| "response_output (Some (PwdResponse dir)) = dir"
| "response_output (Some (PutResponse i)) = ''command_id: '' @ nat_string (unat i)"
| "response_output (Some (GetResponse i)) = ''command_id: '' @ nat_string (unat i)"
| "response_output _ = []"

definition HandleResponse :: "Response codec \<Rightarrow> 'f client \<Rightarrow> 'f client outcome" where
  "HandleResponse c k =
     obind (GetMessage c (client_parser k)) (\<lambda>(msg, p).
       Ret (k\<lparr>client_parser := p, cout := cout k @ [response_output msg]\<rparr>))"

definition add_task :: "ctask \<Rightarrow> 'f client \<Rightarrow> 'f client" where
  "add_task t k =
     k\<lparr>tasks := tasks k @ [\<lparr>body = t, task_status = RUNNING, phase = Publishing RUNNING\<rparr>]\<rparr>"

text \<open>One round of \<open>FtpShell\<close>: a line of input, up to the next prompt or wait.\<close>

definition shell_terminate :: "u32 \<Rightarrow> 'f client \<Rightarrow> 'f client outcome" where
  "shell_terminate command_id k =
     (let k1 = add_task (Terminate command_id (terminate_sock k)) k
      in case r_old k of
           GetRequest n \<Rightarrow>
             (case get_task k of
                None \<Rightarrow> Crash
              | Some i \<Rightarrow> Ret (k1\<lparr>cancelled := insert i (cancelled k), pc := WaitTask i\<rparr>))
         | PutRequest n \<Rightarrow>
             (case put_task k of
                None \<Rightarrow> Crash
              | Some i \<Rightarrow> Ret (k1\<lparr>cancelled := insert i (cancelled k), pc := WaitTask i\<rparr>))
         | _ \<Rightarrow> Ret k1)"

definition shell_transfer :: "FileContents codec \<Rightarrow> input_parser \<Rightarrow> Request \<Rightarrow> 'f client \<Rightarrow> 'f client" where
  "shell_transfer c ip r k =
     (let i = length (tasks k); wait = (if is_forking ip then Prompt else WaitTask i)
      in case r of
           PutRequest n \<Rightarrow>
             (let out = snd (Serialize c (GetContentsMessage ip) (outgoing_msg_buf k))
              in (add_task (Upload (SetFileContents out new_sender)) k)
                   \<lparr>outgoing_msg_buf := out, put_task := Some i, pc := wait\<rparr>)
         | GetRequest n \<Rightarrow>
             (add_task (Download (fn ip) new_receiver) k)\<lparr>get_task := Some i, pc := wait, r_old := r\<rparr>
         | _ \<Rightarrow> k)"

definition shell_line ::
  "ReqType option \<Rightarrow> 'f ftp_env \<Rightarrow> string \<Rightarrow> string \<Rightarrow> 'f client \<Rightarrow> 'f client outcome option" where
  "shell_line indeterminate e current_path input k =
     (let ip = new_InputParser indeterminate (fsops e) current_path (local_files k) input
      in case CreateReq ip of
           Block \<Rightarrow> Some Block
         | Crash \<Rightarrow> Some Crash
         | Ret r \<Rightarrow>
             if \<not> is_valid ip then Some (Ret (k\<lparr>cout := cout k @ [''Invalid command, try again.'']\<rparr>))
             else (case r of
                     TerminateRequest i \<Rightarrow> Some (shell_terminate i k)
                   | QuitRequest \<Rightarrow> Some (Ret (k\<lparr>connected := False, pc := Left\<rparr>))
                   | _ \<Rightarrow>
                       (case SendReq (k\<lparr>outgoing_msg_buf :=
                                snd (Serialize (request_codec e) r (outgoing_msg_buf k))\<rparr>) of
                          None \<Rightarrow> None
                        | Some (sent, k1) \<Rightarrow>
                            Some (obind (WaitForMessage k1) (\<lambda>(got, k2).
                                  obind (HandleResponse (response_codec e) k2) (\<lambda>k3.
                                    Ret (shell_transfer (contents_codec e) ip r k3)))))))"

text \<open>One step of task \<open>i\<close>: the update of its status, an iteration, or its clean-up.\<close>

definition task_iterate :: "'f ftp_env \<Rightarrow> ctask \<Rightarrow> 'f client \<Rightarrow> (status \<times> ctask \<times> 'f client) outcome" where
  "task_iterate e t k =
     (case t of
        Upload sd \<Rightarrow>
          obind (UploadTask_RunAtomic (contents_codec e) sd (csock k)) (\<lambda>(st, sd', s).
            Ret (st, Upload sd', k\<lparr>csock := s\<rparr>))
      | Download n r \<Rightarrow>
          obind (DownloadTask_RunAtomic (contents_codec e) (fsops e) n r (csock k) (local_files k))
            (\<lambda>(st, r', s, f). Ret (st, Download n r', k\<lparr>csock := s, local_files := f\<rparr>))
      | Terminate i s \<Rightarrow>
          (case TerminateTask_RunAtomic (request_codec e) i s of
             (st, s') \<Rightarrow> Ret (st, Terminate i s', k)))"

definition task_step :: "'f ftp_env \<Rightarrow> nat \<Rightarrow> 'f client \<Rightarrow> 'f client outcome option" where
  "task_step e i k =
     (if length (tasks k) \<le> i then Some (Ret k)
      else
        let t = tasks k ! i
        in case phase t of
             Publishing st \<Rightarrow>
               let st' = (if i \<in> cancelled k then CANCELLED else st)
               in Some (Ret (k\<lparr>tasks := (tasks k)[i := t\<lparr>task_status := st',
                      phase := (if st' = RUNNING then Iterating else Cleaning)\<rparr>]\<rparr>))
           | Iterating \<Rightarrow>
               Some (obind (task_iterate e (body t) k) (\<lambda>(st, b, k').
                 Ret (k'\<lparr>tasks := (tasks k)[i := t\<lparr>body := b, phase := Publishing st\<rparr>]\<rparr>)))
           | Cleaning \<Rightarrow>
               (case body t of
                  Download n r \<Rightarrow>
                    (case Chunked_Files.CleanUp (contents_codec e) r (csock k) of
                       None \<Rightarrow> None
                     | Some Block \<Rightarrow> Some Block
                     | Some Crash \<Rightarrow> Some Crash
                     | Some (Ret (ok, r', s)) \<Rightarrow>
                         Some (Ret (k\<lparr>csock := s, tasks := (tasks k)[i := t\<lparr>body := Download n r',
                                   phase := Finished\<rparr>]\<rparr>)))
                | _ \<Rightarrow> Some (Ret (k\<lparr>tasks := (tasks k)[i := t\<lparr>phase := Finished\<rparr>]\<rparr>)))
           | Finished \<Rightarrow> Some (Ret k))"

text \<open>\<open>WaitForCompletion(task)\<close> returns when the published status is not RUNNING.\<close>

definition shell_wake :: "'f client \<Rightarrow> 'f client" where
  "shell_wake k =
     (case pc k of
        WaitTask i \<Rightarrow>
          if i < length (tasks k) \<and> task_status (tasks k ! i) \<noteq> RUNNING then k\<lparr>pc := Prompt\<rparr> else k
      | _ \<Rightarrow> k)"

section \<open>Lemmas on sending and receiving\<close>

lemma UploadTask_step:
  assumes "chunk_codec_ok c" and "accepting s" and "length (send_contents sd) < 2 ^ 32"
    and "unat (total_bytes_sent sd) < length (send_contents sd)"
  shows "\<exists>sd' s'. UploadTask_RunAtomic c sd s = Ret (RUNNING, sd', s') \<and>
    SendNextChunk c sd s = Ret (int (length (frame (encode c
      (next_chunk (send_contents sd) (unat (total_bytes_sent sd)))))), sd', s')"
  using SendNextChunk_step [OF assms refl] assms(4)
  by (auto simp: UploadTask_RunAtomic_def SentCompleteFile_def frame_def)

text \<open>The iterations of a task until it is no longer running; \<open>n\<close> bounds their number.\<close>

fun run_upload :: "FileContents codec \<Rightarrow> nat \<Rightarrow> sender \<Rightarrow> sock \<Rightarrow> (status \<times> sender \<times> sock) outcome" where
  "run_upload c 0 sd s = Ret (RUNNING, sd, s)"
| "run_upload c (Suc n) sd s =
     obind (UploadTask_RunAtomic c sd s) (\<lambda>(st, sd', s').
       if st = RUNNING then run_upload c n sd' s' else Ret (st, sd', s'))"

fun run_download ::
  "FileContents codec \<Rightarrow> 'f fs_ops \<Rightarrow> string \<Rightarrow> nat \<Rightarrow> receiver \<Rightarrow> sock \<Rightarrow> 'f \<Rightarrow>
   (status \<times> receiver \<times> sock \<times> 'f) outcome" where
  "run_download c ops name 0 r s f = Ret (RUNNING, r, s, f)"
| "run_download c ops name (Suc n) r s f =
     obind (DownloadTask_RunAtomic c ops name r s f) (\<lambda>(st, r', s', f').
       if st = RUNNING then run_download c ops name n r' s' f' else Ret (st, r', s', f'))"

lemma run_upload_stream:
  assumes "chunk_codec_ok c"
  shows "accepting s \<Longrightarrow> length (send_contents sd) < 2 ^ 32 \<Longrightarrow>
    unat (total_bytes_sent sd) < length (send_contents sd) \<Longrightarrow>
    f = drop (unat (total_bytes_sent sd)) (send_contents sd) \<Longrightarrow> length (chunk_list f) < n \<Longrightarrow>
    \<exists>sd' s'. run_upload c n sd s = Ret (DONE, sd', s') \<and> wire s' = wire s @ chunk_stream c f"
proof (induction f arbitrary: n sd s rule: chunk_list.induct)
  case (1 f)
  let ?t = "unat (total_bytes_sent sd)"
  let ?m = "next_chunk (send_contents sd) ?t"
  let ?sd = "sd\<lparr>outgoing_message_buffer := frame (encode c ?m),
    total_bytes_sent := of_nat (?t + length (contents ?m))\<rparr>"
  obtain k where n: "n = Suc (Suc k)" "length (chunk_list f) \<le> Suc k"
    using "1.prems"(5) by (cases n; cases "n - 1") auto
  have hd: "?m = next_chunk f 0" "contents ?m = take 1000 f"
    using "1.prems"(3,4) next_chunk_drop [of ?t "send_contents sd"] by (simp_all add: next_chunk_def)
  obtain s1 where s1: "UploadTask_RunAtomic c sd s = Ret (RUNNING, ?sd, s1)"
      "wire s1 = wire s @ frame (encode c ?m)" "accepting s1"
    using SendNextChunk_step [OF assms "1.prems"(1-3) refl] UploadTask_step [OF assms "1.prems"(1-3)]
    by auto
  have t': "unat (total_bytes_sent ?sd) = ?t + min 1000 (length f)"
    using "1.prems"(2-4) hd(2) unat_of_nat_u32 [of "?t + length (contents ?m)"]
    by (simp del: of_nat_add add: min.commute)
  have step: "run_upload c n sd s = run_upload c (Suc k) ?sd s1" using s1(1) n(1) by simp
  show ?case
  proof (cases "length f \<le> 1000")
    case True
    then have "UploadTask_RunAtomic c ?sd s1 = Ret (DONE, ?sd, s1)"
      using t' "1.prems"(3,4) by (simp add: UploadTask_RunAtomic_def SentCompleteFile_def)
    then show ?thesis
      using True step s1(2) hd(1) by (auto simp: chunk_stream_cons [of c f])
  next
    case False
    have "drop (unat (total_bytes_sent ?sd)) (send_contents ?sd) = drop 1000 f"
      using t' False "1.prems"(4) by (simp add: add.commute)
    moreover have "length (chunk_list (drop 1000 f)) < Suc k"
      using n(2) False by (simp add: chunk_list_cons [of f])
    ultimately have "\<exists>sd' s'. run_upload c (Suc k) ?sd s1 = Ret (DONE, sd', s') \<and>
        wire s' = wire s1 @ chunk_stream c (drop 1000 f)"
      using False t' "1.prems"(2-4) s1(3) by (intro "1.IH") auto
    then show ?thesis
      using False step s1(2) hd(1) by (auto simp: chunk_stream_cons [of c f])
  qed
qed

lemma run_download_stream:
  assumes "chunk_codec_ok c"
  shows "wf_parser (fc_parser r) \<Longrightarrow> \<not> HasCompleteFile r \<Longrightarrow> cs \<noteq> [] \<Longrightarrow>
    length (chunk_list cs) < n \<Longrightarrow> pending (fc_parser r) s = chunk_stream c cs @ rest \<Longrightarrow>
    \<exists>r' s'. run_download c ops name n r s f =
      Ret (DONE, r', s', SaveIncomingFile ops (file_contents r @ cs) name f)"
proof (induction cs arbitrary: n r s rule: chunk_list.induct)
  case (1 cs)
  let ?m = "next_chunk cs 0"
  obtain k where n: "n = Suc (Suc k)" "length (chunk_list cs) \<le> Suc k"
    using "1.prems"(4) by (cases n; cases "n - 1") auto
  have m: "contents ?m = take 1000 cs" "is_last ?m \<longleftrightarrow> length cs \<le> 1000"
    by (simp_all add: next_chunk_def)
  define rest' where "rest' = (if length cs \<le> 1000 then rest else chunk_stream c (drop 1000 cs) @ rest)"
  have "pending (fc_parser r) s = frame (encode c ?m) @ rest'"
    using "1.prems"(5) by (auto simp: chunk_stream_cons [of c cs] rest'_def)
  from ReceiveNextChunk_step [OF assms "1.prems"(1) _ this] obtain p1 s1
    where s1: "ReceiveNextChunk c r s = Ret (int (length (contents ?m)),
        r\<lparr>fc_parser := p1, file_contents := file_contents r @ contents ?m,
          complete_file := (is_last ?m \<or> complete_file r)\<rparr>, s1)"
      "wf_parser p1" "pending p1 s1 = rest'"
    using m(1) by auto
  let ?r = "r\<lparr>fc_parser := p1, file_contents := file_contents r @ contents ?m,
          complete_file := (is_last ?m \<or> complete_file r)\<rparr>"
  have "0 < length (contents ?m)" using m(1) "1.prems"(3) by simp
  then have "DownloadTask_RunAtomic c ops name r s f = Ret (RUNNING, ?r, s1, f)"
    using s1(1) "1.prems"(2) by (simp add: DownloadTask_RunAtomic_def)
  then have step: "run_download c ops name n r s f = run_download c ops name (Suc k) ?r s1 f"
    using n(1) by simp
  show ?case
  proof (cases "length cs \<le> 1000")
    case True
    then show ?thesis
      using step m by (simp add: DownloadTask_RunAtomic_def HasCompleteFile_def GetFileContents_def)
  next
    case False
    have "\<exists>r' s'. run_download c ops name (Suc k) ?r s1 f =
        Ret (DONE, r', s', SaveIncomingFile ops (file_contents ?r @ drop 1000 cs) name f)"
      using False s1 m "1.prems"(2) n(2)
      by (intro "1.IH") (auto simp: rest'_def HasCompleteFile_def chunk_list_cons [of cs])
    then show ?thesis using step m by simp
  qed
qed

section \<open>Lemmas on the command line\<close>

definition command_line :: "string \<Rightarrow> string \<Rightarrow> bool \<Rightarrow> string" where
  "command_line verb arg fork = verb @ '' '' @ arg @ (if fork then '' &'' else [])"

lemma command_line_words:
  assumes "is_word arg" and "is_word verb" and "verb \<noteq> ''&''"
  shows "read_word (command_line verb arg fork) [] = (verb, '' '' @ arg @ (if fork then '' &'' else []))"
    and "read_word ('' '' @ arg @ (if fork then '' &'' else [])) old = (arg, if fork then '' &'' else [])"
    and "(fst (read_word (if fork then '' &'' else []) verb) = ''&'') = fork"
proof -
  have amp: "read_word (CHR '' '' # ''&'') v = (''&'', [])" for v
    using read_word_word(2) [of "''&''" "[]"] by (simp add: is_word_def starts_with_space_def is_space_def)
  show "read_word (command_line verb arg fork) [] = (verb, '' '' @ arg @ (if fork then '' &'' else []))"
    using read_word_word(1) [OF assms(2)] by (simp add: command_line_def starts_with_space_def)
  show "read_word ('' '' @ arg @ (if fork then '' &'' else [])) old = (arg, if fork then '' &'' else [])"
    using read_word_word(2) [OF assms(1)] by (simp add: starts_with_space_def)
  show "(fst (read_word (if fork then '' &'' else []) verb) = ''&'') = fork"
    using amp assms(3) by simp
qed

lemma CreateReq_terminate:
  assumes "unat i < 2 ^ 31"
  shows "CreateReq (new_InputParser j ops cp f (command_line ''terminate'' (nat_string (unat i)) fork)) =
      Ret (TerminateRequest i)"
    and "is_valid (new_InputParser j ops cp f (command_line ''terminate'' (nat_string (unat i)) fork))"
proof -
  have w: "is_word ''terminate''" by (simp add: is_word_def is_space_def)
  have "stoi (nat_string (unat i)) = Some (int (unat i))" using assms by (rule stoi_nat_string)
  then show "CreateReq (new_InputParser j ops cp f (command_line ''terminate'' (nat_string (unat i)) fork)) =
      Ret (TerminateRequest i)"
    "is_valid (new_InputParser j ops cp f (command_line ''terminate'' (nat_string (unat i)) fork))"
    using w by (simp_all add: new_InputParser_def CreateReq_def Let_def split_beta
        command_line_words(1,2) [OF nat_string_word, simplified])
qed

section \<open>Properties\<close>

text \<open>
  A command typed with a file or directory name becomes the request for it, with the
  ampersand recognised: \<open>get\<close>, \<open>put\<close>, \<open>delete\<close>, \<open>cd\<close> and \<open>mkdir\<close> followed by any word, and
  \<open>cd ..\<close> goes up.
\<close>

theorem InputParser_commands:
  assumes "is_word arg"
  shows "CreateReq (new_InputParser j ops cp f (command_line ''get'' arg fork)) = Ret (GetRequest arg) \<and>
    CreateReq (new_InputParser j ops cp f (command_line ''put'' arg fork)) = Ret (PutRequest arg) \<and>
    CreateReq (new_InputParser j ops cp f (command_line ''delete'' arg fork)) = Ret (DeleteRequest arg) \<and>
    CreateReq (new_InputParser j ops cp f (command_line ''cd'' arg fork)) =
      Ret (ChangeDirRequest (arg = ''..'') arg) \<and>
    CreateReq (new_InputParser j ops cp f (command_line ''mkdir'' arg fork)) = Ret (MakeDirRequest arg) \<and>
    (\<forall>verb\<in>{''get'', ''put'', ''delete'', ''cd'', ''mkdir''}.
       is_valid (new_InputParser j ops cp f (command_line verb arg fork)) \<and>
       is_forking (new_InputParser j ops cp f (command_line verb arg fork)) = fork)"
proof -
  have w: "is_word ''get''" "is_word ''put''" "is_word ''delete''" "is_word ''cd''" "is_word ''mkdir''"
    by (simp_all add: is_word_def is_space_def)
  show ?thesis
    using w by (simp add: new_InputParser_def CreateReq_def Let_def split_beta
        command_line_words(1,2) [OF assms, simplified] command_line_words(3) [OF assms])
qed

theorem InputParser_commands_witness:
  "CreateReq (new_InputParser None (flat_fs ''/srv'') ''/srv'' Map.empty ''get a.txt &'') =
     Ret (GetRequest ''a.txt'') \<and>
   is_forking (new_InputParser None (flat_fs ''/srv'') ''/srv'' Map.empty ''get a.txt &'')"
  using InputParser_commands [of "''a.txt''" None "flat_fs ''/srv''" "''/srv''" Map.empty True]
  by (simp add: is_word_def is_space_def command_line_def)

text \<open>
  The id that the client prints for a command can be typed back: \<open>terminate\<close> with the
  decimal digits of an id below \<open>2 ^ 31\<close> is the request to terminate that id. Without an id
  the exception of \<open>stoi\<close> ends the client.
\<close>

theorem terminate_id_roundtrip:
  assumes "unat i < 2 ^ 31"
  shows "CreateReq (new_InputParser j ops cp f (command_line ''terminate'' (nat_string (unat i)) fork)) =
      Ret (TerminateRequest i) \<and>
    CreateReq (new_InputParser j ops cp f ''terminate'') = Crash"
proof -
  have w: "is_word ''terminate''" by (simp add: is_word_def is_space_def)
  have "read_word ''terminate'' [] = (''terminate'', [])"
    using read_word_word(1) [OF w, of "[]" "[]"] by (simp add: starts_with_space_def)
  then have "CreateReq (new_InputParser j ops cp f ''terminate'') = Crash"
    by (simp add: new_InputParser_def CreateReq_def Let_def stoi_def)
  then show ?thesis using CreateReq_terminate [OF assms] by simp
qed

theorem terminate_id_roundtrip_witness:
  "CreateReq (new_InputParser None (flat_fs ''/srv'') ''/srv'' Map.empty
      (command_line ''terminate'' (nat_string (unat (12 :: u32))) False)) = Ret (TerminateRequest 12) \<and>
   CreateReq (new_InputParser None (flat_fs ''/srv'') ''/srv'' Map.empty ''terminate'') = Crash"
  by (rule terminate_id_roundtrip) simp

text \<open>
  An invalid command may end the client. The shell builds the request before it looks
  at \<open>IsValid\<close>, from a member that the parser has not initialized: if that happens to hold
  TERMINATE the client dies in \<open>stoi\<close>; otherwise the command is reported as invalid.
\<close>

theorem invalid_command_depends:
  assumes "command_type (fst (read_word input [])) = None"
  shows "shell_line j e cp input k =
    (if j = Some TERMINATE then Some Crash
     else Some (Ret (k\<lparr>cout := cout k @ [''Invalid command, try again.'']\<rparr>)))"
proof -
  have "new_InputParser j (fsops e) cp (local_files k) input =
      \<lparr>is_valid = False, is_forking = False, req = j, fn = [], dn = [], cid = [], put_contents = []\<rparr>"
    using assms by (simp add: new_InputParser_def Let_def split_beta)
  then show ?thesis
    by (auto simp: shell_line_def CreateReq_def stoi_def Let_def split: option.split ReqType.split)
qed

text \<open>
  A download that arrives in order is saved: the iterations of \<open>DownloadTask\<close> on a socket
  that delivers the chunks of a file, in any segments, end with DONE and the file written
  under the requested name.
\<close>

lemma download_saves_file:
  assumes "chunk_codec_ok c" and "cs \<noteq> []" and "rx_stream (rx s) = chunk_stream c cs @ rest"
    and "length (chunk_list cs) < n"
  shows "\<exists>r' s'. run_download c ops name n new_receiver s f = Ret (DONE, r', s', fs_write ops name cs f)"
  using run_download_stream [OF assms(1), of new_receiver cs n s rest ops name f] assms
  by (auto simp: new_receiver_def HasCompleteFile_def pending_def SaveIncomingFile_def)

text \<open>
  \<open>put\<close> does not send the file. The shell serializes the file as one \<open>FileContents\<close>
  message, length prefix included, and gives those bytes to \<open>UploadTask\<close>, which cuts them into
  chunks and wraps them once more; what reaches the wire, and the server's disk, is the
  serialized message and not the file.
\<close>

lemma put_uploads_wrapped_file:
  assumes "chunk_codec_ok c" and "length (put_contents ip) \<le> 1000" and "accepting s"
  shows "\<exists>sd sd' s'. body (last (tasks (shell_transfer c ip (PutRequest name) k))) = Upload sd \<and>
    run_upload c 3 sd s = Ret (DONE, sd', s') \<and>
    wire s' = wire s @ chunk_stream c (frame (encode c \<lparr>contents = put_contents ip, is_last = False\<rparr>))"
proof -
  let ?m = "\<lparr>contents = put_contents ip, is_last = False\<rparr>"
  let ?F = "frame (encode c ?m)"
  note codec = chunk_codecD(1) [OF assms(1)] chunk_codecD(2,3) [OF assms(1), of ?m]
  have ser: "snd (Serialize c ?m buf) = ?F" for buf
    using Serialize_frame [OF codec(1,2)] assms(2) by simp
  have len: "length ?F \<le> 1028" "?F \<noteq> []" using codec(3) assms(2) by (auto simp: frame_def htonl_bytes_def)
  have "length (chunk_list ?F) < 3"
    using len(1) by (auto simp: chunk_list_cons [of ?F] chunk_list_cons [of "drop 1000 ?F"])
  then have "\<exists>sd' s'. run_upload c 3 (SetFileContents ?F new_sender) s = Ret (DONE, sd', s') \<and>
      wire s' = wire s @ chunk_stream c ?F"
    using len by (intro run_upload_stream [OF assms(1,3)]) (auto simp: SetFileContents_def)
  then show ?thesis
    by (auto simp: shell_transfer_def add_task_def GetContentsMessage_def ser Let_def)
qed

theorem invalid_command_depends_witness:
  "shell_line (Some TERMINATE) demo_env ''/srv'' ''frobnicate''
     \<lparr>connected = True, outgoing_msg_buf = [], client_parser = new_parser,
      csock = \<lparr>rx = [], tx = [], wire = [], errno = NoErr\<rparr>,
      terminate_sock = \<lparr>rx = [], tx = [], wire = [], errno = NoErr\<rparr>, cout = [], tasks = [],
      cancelled = {}, get_task = None, put_task = None, r_old = NoRequest,
      local_files = Map.empty, pc = Prompt\<rparr> = Some Crash"
  by (subst invalid_command_depends) (simp_all add: read_word_def is_space_def)

text \<open>
  The beginning of a download can be lost. The server sends the answer to GET and the
  first chunk back to back; if both arrive in one segment, the shell's own parser swallows the
  chunk behind the answer, while the download task reads the socket with a parser of its own
  and finds nothing there.
\<close>

theorem get_chunks_behind_response_lost:
  assumes "codec_ok (response_codec e)" and "small (response_codec e) r" and "wf_parser (client_parser k)"
    and "rx (csock k) = [RxData (wire_of (response_codec e) r @ d)]" and "d \<noteq> []"
    and "length (wire_of (response_codec e) r @ d) \<le> 4096"
  shows "\<exists>k2 k3. WaitForMessage k = Ret (connected k, k2) \<and>
    HandleResponse (response_codec e) k2 = Ret k3 \<and> cout k3 = cout k @ [response_output (Some r)] \<and>
    unread (client_parser k3) = d \<and>
    DownloadTask_RunAtomic (contents_codec e) ops name new_receiver (csock k3) f = Block"
proof -
  let ?D = "wire_of (response_codec e) r @ d" and ?p = "ResetParser (client_parser k)"
  let ?s = "(csock k)\<lparr>rx := []\<rparr>"
  have fresh: "wf_parser ?p" "\<not> HasCompleteMessage ?p" "overflow_message_data ?p = []"
    using wf_ResetParser [OF assms(3)] by (simp, simp_all add: HasCompleteMessage_def ResetParser_def)
  obtain p1 where p1: "AddNewData ?p ?D = Ret p1" "wf_parser p1" "unread p1 = ?D"
    using AddNewData_refines [OF fresh(1), of ?D] fresh(3) assms(6) by auto
  have "length (encode (response_codec e) r) < 2 ^ 32"
    using codec_okD(2) [OF assms(1)] assms(2) by (simp add: small_def)
  then have split: "split_frame (unread p1) = Some (encode (response_codec e) r, d)"
    using p1(3) by (simp add: split_frame_frame)
  then have complete: "HasCompleteMessage p1" using wf_complete_iff [OF p1(2)] by simp
  have "sys_recv 4096 (csock k) = Ret (IoBytes ?D, ?s)"
    using assms(4-6) by (intro sys_recv_segment) auto
  then have "ReceiveForever 4096 (csock k) = Ret (IoBytes ?D, ?s)"
    by (simp add: ReceiveForever.simps [of 4096 "csock k"])
  moreover have "WaitForMessage_loop p1 ?s = Ret (p1, ?s)"
    using complete by (simp add: WaitForMessage_loop.simps [of p1])
  ultimately have "WaitForMessage_loop ?p (csock k) = Ret (p1, ?s)"
    using fresh(2) p1(1) assms(5) by (subst WaitForMessage_loop.simps) simp
  then have w: "WaitForMessage k = Ret (connected k, k\<lparr>client_parser := p1, csock := ?s\<rparr>)"
    by (simp add: WaitForMessage_def)
  obtain p2 where g: "GetMessage (response_codec e) p1 = Ret (Some r, p2)" "unread p2 = d"
    using GetMessage_encoded [OF p1(2) assms(1) _ split] assms(2) by (auto simp: small_def)
  have "ReceiveNextChunk (contents_codec e) new_receiver ?s = Block"
    by (simp add: ReceiveNextChunk_def new_receiver_def fill_parser.simps [of _ new_parser] sys_recv_def)
  then have "DownloadTask_RunAtomic (contents_codec e) ops name new_receiver ?s f = Block"
    by (simp add: DownloadTask_RunAtomic_def HasCompleteFile_def new_receiver_def)
  then show ?thesis using w g by (simp add: HandleResponse_def)
qed

theorem get_chunks_behind_response_lost_witness:
  "\<exists>k2 k3. WaitForMessage
     \<lparr>connected = True, outgoing_msg_buf = [], client_parser = new_parser,
      csock = \<lparr>rx = [RxData [0, 0, 0, 1, 3, 0, 0, 0, 3, 1, 5, 6]], tx = [], wire = [], errno = NoErr\<rparr>,
      terminate_sock = \<lparr>rx = [], tx = [], wire = [], errno = NoErr\<rparr>, cout = [], tasks = [],
      cancelled = {}, get_task = None, put_task = None, r_old = NoRequest,
      local_files = Map.empty, pc = Prompt\<rparr> = Ret (True, k2) \<and>
    HandleResponse (response_codec demo_env) k2 = Ret k3 \<and>
    unread (client_parser k3) = [0, 0, 0, 3, 1, 5, 6] \<and>
    DownloadTask_RunAtomic (contents_codec demo_env) (fsops demo_env) ''a'' new_receiver (csock k3)
      Map.empty = Block"
  using get_chunks_behind_response_lost [OF demo_codecs(2), of "GetResponse 1"
      "\<lparr>connected = True, outgoing_msg_buf = [], client_parser = new_parser,
      csock = \<lparr>rx = [RxData [0, 0, 0, 1, 3, 0, 0, 0, 3, 1, 5, 6]], tx = [], wire = [], errno = NoErr\<rparr>,
      terminate_sock = \<lparr>rx = [], tx = [], wire = [], errno = NoErr\<rparr>, cout = [], tasks = [],
      cancelled = {}, get_task = None, put_task = None, r_old = NoRequest,
      local_files = Map.empty, pc = Prompt\<rparr>" "[0, 0, 0, 3, 1, 5, 6]" "fsops demo_env" "''a''" Map.empty]
  by (auto simp: demo_env_def table_codec_def small_def frame_def encode_def htonl_bytes_def)

text \<open>
  After \<open>terminate\<close> the shell does not wait for the download to let go of the socket. The
  pool publishes the status of a cancelled task before its clean-up, so
  \<open>WaitForCompletion(get_task)\<close> can return while the clean-up, which reads from the same
  socket as the shell's next request, is still to come.
\<close>

theorem wait_returns_before_cleanup:
  assumes "i < length (tasks k)" and "phase (tasks k ! i) = Publishing st" and "i \<in> cancelled k"
    and "pc k = WaitTask i"
  shows "\<exists>k'. task_step e i k = Some (Ret k') \<and> pc (shell_wake k') = Prompt \<and>
    phase (tasks (shell_wake k') ! i) = Cleaning"
  using assms by (simp add: task_step_def shell_wake_def Let_def)

theorem wait_returns_before_cleanup_witness:
  "\<exists>k'. task_step demo_env 0
     \<lparr>connected = True, outgoing_msg_buf = [], client_parser = new_parser,
      csock = \<lparr>rx = [], tx = [], wire = [], errno = NoErr\<rparr>,
      terminate_sock = \<lparr>rx = [], tx = [], wire = [], errno = NoErr\<rparr>, cout = [],
      tasks = [\<lparr>body = Download ''a'' new_receiver, task_status = RUNNING, phase = Publishing RUNNING\<rparr>],
      cancelled = {0}, get_task = Some 0, put_task = None, r_old = GetRequest ''a'',
      local_files = Map.empty, pc = WaitTask 0\<rparr> = Some (Ret k') \<and>
    pc (shell_wake k') = Prompt \<and> phase (tasks (shell_wake k') ! 0) = Cleaning"
  by (rule wait_returns_before_cleanup) simp_all

end
