(* ===== verification/Ftp_Server.thy ===== *)
theory Ftp_Server
  imports Socket_Setup Pool_Task Ftp_Agent
begin

text \<open>
  Model of the tasks around the agents of the FTP server: \<open>server_tasks/server_task.cpp\<close>,
  \<open>nport_task.cpp\<close>, \<open>tport_task.cpp\<close>, \<open>agent_task.cpp\<close>, and the service loop of \<open>server.cpp\<close>. The two
  listening tasks differ in the agents they start: those of the normal port share the file
  access managers, those of the termination port have none and so get no file handler. The
  results of \<open>accept()\<close> are an input; with none left the call waits.
\<close>

section \<open>Listening tasks\<close>

datatype port_kind = NPort | TPort

record agent_task =
  at_client_fd :: int
  has_managers :: bool

record server_task =
  st_kind :: port_kind
  st_port :: u16
  st_server_fd :: int
  st_agents :: "agent_task list"

definition new_NPortTask :: "u16 \<Rightarrow> server_task" where
  "new_NPortTask p = \<lparr>st_kind = NPort, st_port = p, st_server_fd = -1, st_agents = []\<rparr>"

definition new_TPortTask :: "u16 \<Rightarrow> server_task" where
  "new_TPortTask p = \<lparr>st_kind = TPort, st_port = p, st_server_fd = -1, st_agents = []\<rparr>"

definition FtpServerTask_SetUp ::
  "listen_calls \<Rightarrow> server_task \<Rightarrow> fd_table \<Rightarrow> status \<times> server_task \<times> fd_table" where
  "FtpServerTask_SetUp k t fds =
     (case ServerTask_SetUpSocket k (ServerTask_MakeAddress (st_port t)) fds of
        (f, fds') \<Rightarrow> (if f < 0 then FAILED else RUNNING, t\<lparr>st_server_fd := f\<rparr>, fds'))"

fun NPortTask_Listen :: "int list \<Rightarrow> server_task \<Rightarrow> (status \<times> server_task) outcome" where
  "NPortTask_Listen [] t = Block"
| "NPortTask_Listen (client_fd # rs) t =
     (if client_fd < 0 then Ret (FAILED, t)
      else NPortTask_Listen rs
             (t\<lparr>st_agents := st_agents t @ [\<lparr>at_client_fd = client_fd, has_managers = True\<rparr>]\<rparr>))"

fun TPortTask_Listen :: "int list \<Rightarrow> server_task \<Rightarrow> (status \<times> server_task) outcome" where
  "TPortTask_Listen [] t = Block"
| "TPortTask_Listen (client_fd # rs) t =
     (if client_fd < 0 then Ret (FAILED, t)
      else TPortTask_Listen rs
             (t\<lparr>st_agents := st_agents t @ [\<lparr>at_client_fd = client_fd, has_managers = False\<rparr>]\<rparr>))"

text \<open>\<open>RunAtomic\<close> calls the virtual \<open>Listen\<close>; on a socket that is not open \<open>accept()\<close> fails.\<close>

definition FtpServerTask_RunAtomic :: "int list \<Rightarrow> server_task \<Rightarrow> (status \<times> server_task) outcome" where
  "FtpServerTask_RunAtomic rs t =
     (case st_kind t of NPort \<Rightarrow> NPortTask_Listen rs t | TPort \<Rightarrow> TPortTask_Listen rs t)"

section \<open>Agent tasks\<close>

text \<open>
  \<open>SetUp\<close> makes the agent: with a file handler in the working directory \<open>cwd\<close> exactly if the
  task was given the access managers. \<open>RunAtomic\<close> serves the whole session.
\<close>

definition AgentTask_SetUp ::
  "string \<Rightarrow> (int \<Rightarrow> sock) \<Rightarrow> command_ids \<Rightarrow> 'f \<Rightarrow> agent_task \<Rightarrow> status \<times> 'f agent" where
  "AgentTask_SetUp cwd socks ids f t =
     (RUNNING,
      if has_managers t then new_agent (Some (new_FileHandler cwd)) (socks (at_client_fd t)) ids f
      else new_agent None (socks (at_client_fd t)) ids f)"

definition AgentTask_RunAtomic :: "'f ftp_env \<Rightarrow> 'f agent \<Rightarrow> (status \<times> 'f agent) outcome option" where
  "AgentTask_RunAtomic e a =
     map_option (\<lambda>r. obind r (\<lambda>(ok, a'). Ret (if ok then DONE else FAILED, a'))) (Handle e a)"

section \<open>The service\<close>

text \<open>
  The loop of \<open>FtpService\<close>: the statuses of the two tasks each time they are looked at, after
  each return of \<open>WaitForCompletion()\<close>. It returns when neither is running; it waits when the
  list ends before.
\<close>

fun FtpService_loop :: "(status \<times> status) list \<Rightarrow> unit outcome" where
  "FtpService_loop [] = Block"
| "FtpService_loop ((n, t) # ss) = (if n = RUNNING \<or> t = RUNNING then FtpService_loop ss else Ret ())"

section \<open>Properties\<close>

lemma Listen_agents:
  "\<forall>f\<in>set fs. 0 \<le> f \<Longrightarrow> f' < 0 \<Longrightarrow> NPortTask_Listen (fs @ f' # rs) t =
     Ret (FAILED, t\<lparr>st_agents := st_agents t @ map (\<lambda>f. \<lparr>at_client_fd = f, has_managers = True\<rparr>) fs\<rparr>)"
  "\<forall>f\<in>set fs. 0 \<le> f \<Longrightarrow> f' < 0 \<Longrightarrow> TPortTask_Listen (fs @ f' # rs) t =
     Ret (FAILED, t\<lparr>st_agents := st_agents t @ map (\<lambda>f. \<lparr>at_client_fd = f, has_managers = False\<rparr>) fs\<rparr>)"
  by (induction fs arbitrary: t) simp_all

text \<open>
  C26. The FTP server from the accepted connection to the end of the session. The task of the
  normal port starts one agent task per connection, in order, until \<open>accept()\<close> fails, which ends
  the task. The task of each connection gets an agent with a file handler, and if its client
  sends requests that the specification of a session answers, and then quits, it ends with the
  status DONE, the specified responses on the wire and the specified files.
\<close>

theorem ftp_server_serves_client:
  assumes "codec_ok (request_codec e)" and "codec_ok (response_codec e)"
    and "\<forall>m\<in>set (ms @ [QuitRequest]). small (request_codec e) m" and "\<forall>r\<in>set rs. small (response_codec e) r"
    and "\<forall>f\<in>set fs. 0 \<le> f" and "f' < 0" and "i < length fs"
    and "tx (socks (fs ! i)) = []"
    and "rx_stream (rx (socks (fs ! i))) = concat (map (wire_of (request_codec e)) (ms @ [QuitRequest])) @ rest"
    and "session (fsops e) ms (new_FileHandler cwd) f = Some (rs, h', files')"
  shows "\<exists>t a b. FtpServerTask_RunAtomic (fs @ f' # others) (new_NPortTask p) = Ret (FAILED, t) \<and>
    length (st_agents t) = length fs \<and>
    AgentTask_SetUp cwd socks ids f (st_agents t ! i) = (RUNNING, a) \<and>
    AgentTask_RunAtomic e a = Some (Ret (DONE, b)) \<and>
    wire (client b) = wire (socks (fs ! i)) @ concat (map (wire_of (response_codec e)) rs) \<and>
    files b = files'"
proof -
  let ?a = "new_agent (Some (new_FileHandler cwd)) (socks (fs ! i)) ids f"
  have q: "small (request_codec e) QuitRequest" "\<forall>m\<in>set ms. small (request_codec e) m" using assms(3) by auto
  have "pending (agent_parser ?a) (client ?a) = concat (map (wire_of (request_codec e)) (ms @ [QuitRequest])) @ rest"
    using assms(9) by (simp add: new_agent_def pending_def)
  then obtain b where "Handle e ?a = Some (Ret (True, b))"
      "wire (client b) = wire (client ?a) @ concat (map (wire_of (response_codec e)) rs)" "files b = files'"
    using Handle_session_aux [OF assms(1,2) q(1,2) assms(4), of ?a "new_FileHandler cwd" rest h' files'] assms(8,10)
    by (auto simp: new_agent_def)
  then show ?thesis
    using Listen_agents(1) [OF assms(5,6), of others "new_NPortTask p"] assms(7)
    by (simp add: FtpServerTask_RunAtomic_def new_NPortTask_def AgentTask_SetUp_def AgentTask_RunAtomic_def new_agent_def)
qed

theorem ftp_server_serves_client_witness:
  "\<exists>t a b. FtpServerTask_RunAtomic ([7, 8] @ -1 # []) (new_NPortTask 21) = Ret (FAILED, t) \<and>
    length (st_agents t) = length [7, 8 :: int] \<and>
    AgentTask_SetUp ''/srv'' (\<lambda>_. \<lparr>rx = [RxData [0, 0], RxData [0, 1, 0, 0, 0, 0, 1, 2]], tx = [], wire = [],
      errno = NoErr\<rparr>) new_command_ids [''/srv/a.txt'' \<mapsto> [5, 6]] (st_agents t ! 1) = (RUNNING, a) \<and>
    AgentTask_RunAtomic demo_env a = Some (Ret (DONE, b)) \<and> wire (client b) = [0, 0, 0, 1, 1]"
  using ftp_server_serves_client [OF demo_codecs(1,2), where ms = "[PwdRequest]" and rs = "[PwdResponse ''/srv'']"
      and fs = "[7, 8]" and f' = "-1" and i = 1 and rest = "[]" and cwd = "''/srv''" and others = "[]" and p = 21
      and socks = "\<lambda>_. \<lparr>rx = [RxData [0, 0], RxData [0, 1, 0, 0, 0, 0, 1, 2]], tx = [], wire = [], errno = NoErr\<rparr>"
      and f = "[''/srv/a.txt'' \<mapsto> [5, 6]]" and h' = "new_FileHandler ''/srv''"
      and files' = "[''/srv/a.txt'' \<mapsto> [5, 6]]" and ids = new_command_ids]
  by (auto simp: small_def demo_env_def table_codec_def frame_def encode_def htonl_bytes_def new_FileHandler_def
      FileHandler_GetCurrentDir_def)

text \<open>
  A client of the termination port can end the server. Its agent has no file handler, and any
  of the requests that need one (here: delete, list, change directory, make directory, print the
  working directory) as the first request dereferences the null pointer.
\<close>

theorem terminate_port_crashes:
  assumes "codec_ok (request_codec e)" and "small (request_codec e) m"
    and "m \<in> {DeleteRequest x, ListRequest, ChangeDirRequest up x, MakeDirRequest x, PwdRequest}"
    and "0 \<le> fd" and "rx_stream (rx (socks fd)) = wire_of (request_codec e) m @ rest"
  shows "\<exists>t a. FtpServerTask_RunAtomic [fd, -1] (new_TPortTask p) = Ret (FAILED, t) \<and>
    AgentTask_SetUp cwd socks ids f (hd (st_agents t)) = (RUNNING, a) \<and> AgentTask_RunAtomic e a = Some Crash"
proof -
  let ?a = "new_agent None (socks fd) ids f"
  obtain p' s where "ReadNextMessage e ?a = Ret (ACTIVE, Some m, ?a\<lparr>agent_parser := p', client := s\<rparr>)"
    using ReadNextMessage_next [OF assms(1,2), of ?a rest] assms(5) by (auto simp: new_agent_def pending_def)
  then have "Handle e ?a = Some Crash"
    using assms(3) by (subst Handle.simps)
      (auto simp: DispatchMessage_def HandleDelete_def HandleList_def HandleChangeDir_def HandleMakeDir_def
        HandlePwd_def new_agent_def)
  then show ?thesis
    using assms(4) by (simp add: FtpServerTask_RunAtomic_def new_TPortTask_def AgentTask_SetUp_def AgentTask_RunAtomic_def)
qed

theorem terminate_port_crashes_witness:
  "\<exists>t a. FtpServerTask_RunAtomic [5, -1] (new_TPortTask 21) = Ret (FAILED, t) \<and>
    AgentTask_SetUp ''/srv'' (\<lambda>_. \<lparr>rx = [RxData [0, 0, 0, 1, 0]], tx = [], wire = [], errno = NoErr\<rparr>) new_command_ids
      Map.empty (hd (st_agents t)) = (RUNNING, a) \<and> AgentTask_RunAtomic demo_env a = Some Crash"
  by (rule terminate_port_crashes [OF demo_codecs(1), of PwdRequest "[]" False _ _ "[]"])
    (simp_all add: small_def demo_env_def table_codec_def frame_def encode_def htonl_bytes_def)

text \<open>
  The service goes on while one of the two ports is served, and returns as soon as both tasks
  have ended.
\<close>

theorem ftp_service_outlives_one_port:
  "FtpService_loop (replicate n (FAILED, RUNNING) @ (FAILED, FAILED) # ss) = Ret () \<and>
   FtpService_loop (replicate n (RUNNING, FAILED)) = Block"
  by (induction n) simp_all

end
