(* ===== verification/Ftp_System.thy ===== *)
theory Ftp_System
  imports Ftp_Client Ftp_Server
begin

text \<open>
  The client and the server of the file transfer as programs: how \<open>client_main.cpp\<close> and
  \<open>server_main.cpp\<close> read their arguments, how the client opens its connections (\<open>Client::Connect\<close>,
  \<open>TerminateTask::SetUp\<close>), and what the two sides do together when a command is terminated.
\<close>

section \<open>Arguments\<close>

text \<open>
  \<open>strtol(s, nullptr, 10)\<close> with its 64-bit result: 0 where there is no number, the nearest value
  where the number is out of range.
\<close>

definition strtol :: "string \<Rightarrow> int" where
  "strtol s =
     (case signed_digits (dropWhile is_space s) of
        (neg, ds, rest) \<Rightarrow>
          max (- (2 ^ 63)) (min (2 ^ 63 - 1) (if neg then - digits_value ds else digits_value ds)))"

lemma strtol_nat_string: "n < 2 ^ 63 \<Longrightarrow> strtol (nat_string n) = int n"
  using signed_digits_nat_string [of "[]" n]
  by (simp add: strtol_def starts_with_space_def digits_value_nat_string)

text \<open>
  The server program: exit code 1, or the two tasks that \<open>FtpService\<close> adds to its pool. The
  numbers are cut to 16 bits when they are passed as ports.
\<close>

definition server_main :: "string list \<Rightarrow> int + server_task \<times> server_task" where
  "server_main argv =
     (if length argv \<noteq> 3 then Inl 1
      else
        let nPort = strtol (argv ! 1)
        in if nPort = 0 then Inl 1
           else
             let tPort = strtol (argv ! 2)
             in if tPort = 0 then Inl 1
                else Inr (new_NPortTask (of_int nPort), new_TPortTask (of_int tPort)))"

section \<open>Connections of the client\<close>

record ftp_connection =
  ftp_fd :: int
  ftp_hostname :: string
  ftp_nport :: u16
  ftp_tport :: u16
  ftp_connected :: bool

definition FtpClient_Connect ::
  "connect_calls \<Rightarrow> string \<Rightarrow> u16 \<Rightarrow> u16 \<Rightarrow> fd_table \<Rightarrow> bool \<times> ftp_connection \<times> fd_table" where
  "FtpClient_Connect k hostname nport tport t =
     (case client_util_SetUpSocket k (client_util_MakeAddress nport) hostname t of
        (f, a, t') \<Rightarrow>
          (f \<noteq> -1,
           \<lparr>ftp_fd = f, ftp_hostname = hostname, ftp_nport = nport, ftp_tport = tport, ftp_connected = (f \<noteq> -1)\<rparr>,
           t'))"

text \<open>The terminate task reports success even when it has no connection.\<close>

definition TerminateTask_SetUp :: "connect_calls \<Rightarrow> ftp_connection \<Rightarrow> fd_table \<Rightarrow> status \<times> int \<times> fd_table" where
  "TerminateTask_SetUp k c t =
     (case client_util_SetUpSocket k (client_util_MakeAddress (ftp_tport c)) (ftp_hostname c) t of
        (f, a, t') \<Rightarrow> (RUNNING, f, t'))"

definition TerminateTask_CleanUp :: "int \<Rightarrow> fd_table \<Rightarrow> fd_table" where
  "TerminateTask_CleanUp f t = t(f := None)"

text \<open>The client program up to its shell: what it prints and its exit code, or the connection.\<close>

definition client_main ::
  "connect_calls \<Rightarrow> string list \<Rightarrow> fd_table \<Rightarrow> (string \<times> int + ftp_connection) \<times> fd_table" where
  "client_main k argv t =
     (if length argv \<noteq> 4
      then (Inl (newline # ''Incorrect # of inputs. Server IP address, Command Port #, and Terminate Port # expected'', 1), t)
      else
        let nPort = strtol (argv ! 2); tPort = strtol (argv ! 3)
        in case FtpClient_Connect k (argv ! 1) (of_int nPort) (of_int tPort) t of
             (ok, c, t') \<Rightarrow>
               if \<not> ok then (Inl (''Failed to connect to '' @ argv ! 1 @ '':'' @ int_string nPort, 1), t')
               else (Inr c, t'))"

section \<open>Properties\<close>

text \<open>
  Client and server meet at the ports given on their command lines. For two port numbers in
  decimal notation the server starts a task that listens on each; a client started with the same
  numbers, whose system calls succeed, has its connection at the first port of the host it was
  given, and a terminate task of that client connects to the second.
\<close>

theorem client_meets_server:
  assumes "0 < n" and "n < 2 ^ 16" and "0 < m" and "m < 2 ^ 16"
    and "0 < lsocket_ret ln" and "0 \<le> bind_ret ln" and "0 \<le> listen_ret ln"
    and "0 < lsocket_ret lt" and "0 \<le> bind_ret lt" and "0 \<le> listen_ret lt"
    and "0 \<le> socket_ret k" and "pton k h = Some ip" and "0 \<le> connect_ret k"
    and "0 \<le> socket_ret k'" and "pton k' h = Some ip" and "0 \<le> connect_ret k'"
  shows "\<exists>np tp np' tp' dn dt c t1 d t2 f d' s1 s2.
    server_main [prog, nat_string n, nat_string m] = Inr (np, tp) \<and>
    FtpServerTask_SetUp ln np s0 = (RUNNING, np', s1) \<and> s1 (st_server_fd np') = Some dn \<and>
    FtpServerTask_SetUp lt tp s1 = (RUNNING, tp', s2) \<and> s2 (st_server_fd tp') = Some dt \<and>
    client_main k [prog', h, nat_string n, nat_string m] t = (Inr c, t1) \<and> t1 (ftp_fd c) = Some d \<and>
    TerminateTask_SetUp k' c t1 = (RUNNING, f, t2) \<and> t2 f = Some d' \<and>
    bound_to dn = Some (MakeAddress (of_nat n)) \<and> bound_to dt = Some (MakeAddress (of_nat m)) \<and>
    peer d = Some ((MakeAddress (of_nat n))\<lparr>s_addr := ip\<rparr>) \<and>
    peer d' = Some ((MakeAddress (of_nat m))\<lparr>s_addr := ip\<rparr>)"
proof -
  have num: "strtol (nat_string n) = int n" "strtol (nat_string m) = int m"
    using assms(2,4) by (simp_all add: strtol_nat_string)
  obtain d where d: "client_util_SetUpSocket k (MakeAddress (of_nat n)) h t =
      (socket_ret k, (MakeAddress (of_nat n))\<lparr>s_addr := ip\<rparr>, t(socket_ret k \<mapsto> d))"
      "peer d = Some ((MakeAddress (of_nat n))\<lparr>s_addr := ip\<rparr>)"
    using client_util.accepted [OF assms(11-13)] by blast
  obtain d' where d': "client_util_SetUpSocket k' (MakeAddress (of_nat m)) h (t(socket_ret k \<mapsto> d)) =
      (socket_ret k', (MakeAddress (of_nat m))\<lparr>s_addr := ip\<rparr>, t(socket_ret k \<mapsto> d, socket_ret k' \<mapsto> d'))"
      "peer d' = Some ((MakeAddress (of_nat m))\<lparr>s_addr := ip\<rparr>)"
    using client_util.accepted [OF assms(14-16)] by blast
  have k: "socket_ret k \<noteq> -1" using assms(11) by simp
  show ?thesis
    using num assms(1,3,5-10) d d' k
    by (simp add: server_main_def client_main_def FtpClient_Connect_def TerminateTask_SetUp_def
        FtpServerTask_SetUp_def new_NPortTask_def new_TPortTask_def ServerTask_SetUpSocket_def
        listener_socket_def sys_socket_def Let_def)
qed

theorem client_meets_server_witness:
  "\<exists>np tp c t1 d. server_main [''server'', nat_string 21, nat_string 22] = Inr (np, tp) \<and>
    client_main \<lparr>socket_ret = 5, pton = (\<lambda>_. Some 7), connect_ret = 0\<rparr>
      [''client'', ''h'', nat_string 21, nat_string 22] Map.empty = (Inr c, t1) \<and>
    t1 (ftp_fd c) = Some d \<and> peer d = Some ((MakeAddress 21)\<lparr>s_addr := 7\<rparr>)"
  using client_meets_server [of 21 22 "\<lparr>lsocket_ret = 3, setsockopt_ret = 0, bind_ret = 0, listen_ret = 0\<rparr>"
      "\<lparr>lsocket_ret = 4, setsockopt_ret = 0, bind_ret = 0, listen_ret = 0\<rparr>"
      "\<lparr>socket_ret = 5, pton = (\<lambda>_. Some 7), connect_ret = 0\<rparr>" "''h''" 7
      "\<lparr>socket_ret = 6, pton = (\<lambda>_. Some 7), connect_ret = 0\<rparr>" "''server''" Map.empty "''client''" Map.empty]
  by (simp del: One_nat_def) blast

lemma Handle_terminate:
  assumes "codec_ok (request_codec e)" and "small (request_codec e) (TerminateRequest i)"
    and "closes (rx s)" and "rx_stream (rx s) = wire_of (request_codec e) (TerminateRequest i)"
  shows "\<exists>b. Handle e (new_agent None s ids f) = Some (Ret (True, b)) \<and> commands b = Delete (ucast i) ids \<and>
    wire (client b) = wire s"
proof -
  let ?a = "new_agent None s ids f" and ?m = "TerminateRequest i"
  have pend: "pending (agent_parser ?a) (client ?a) = wire_of (request_codec e) ?m @ []"
    using assms(4) by (simp add: new_agent_def pending_def)
  have wf: "wf_parser (agent_parser ?a)" by (simp add: new_agent_def)
  obtain p1 s1 p2 where f: "fill_parser kClientBufferSize (agent_parser ?a) (client ?a) = Ret (FillDone, p1, s1)"
      "GetMessage (request_codec e) p1 = Ret (Some ?m, p2)" "wf_parser p2" "pending p2 s1 = []" "wire s1 = wire s"
    using fill_GetMessage [OF assms(1) _ wf _ _ pend, of kClientBufferSize] assms(2)
    by (auto simp: small_def new_agent_def)
  have "closes (rx s1)" using fill_parser_closes [OF f(1)] assms(3) by (simp add: new_agent_def)
  moreover have u: "rx_stream (rx s1) = []" "unread p2 = []" using f(4) by (simp_all add: pending_def)
  ultimately obtain s2 where s2: "sys_recv kClientBufferSize s1 = Ret (IoBytes [], s2)"
    using sys_recv_closed by blast
  have "\<not> HasCompleteMessage p2"
    using wf_complete_iff [OF f(3)] u(2) by (auto simp: split_frame_def)
  then have "fill_parser kClientBufferSize p2 s1 = Ret (FillClosed, p2, s2)"
    using s2 by (subst fill_parser.simps) simp
  moreover have "wire s2 = wire s" using sys_recv_frame [OF s2] f(5) by simp
  ultimately show ?thesis
    using f(1,2)
    apply (subst Handle.simps)
    apply (simp add: ReadNextMessage_def DispatchMessage_def HandleTerminate_def)
    apply (subst Handle.simps)
    apply (simp add: ReadNextMessage_def agent_Delete_def interfere_def new_agent_def Let_def)
    done
qed

text \<open>
  C21. Terminating a command, from the keyboard to the shared set of ids. The user types
  \<open>terminate\<close> with an id while a get runs in the background: the shell starts a terminate task
  and cancels the get. The task puts the request on its connection. On the server the task of
  the termination port starts an agent for that connection; if it receives what the client has
  sent, in any segments, and then the end of the stream, it ends with DONE, its answer is empty,
  and the set of active ids has lost exactly the id that was typed.
\<close>

theorem terminate_end_to_end:
  assumes "codec_ok (request_codec e)" and "small (request_codec e) (TerminateRequest (ucast i))"
    and "r_old k = GetRequest n" and "get_task k = Some j"
    and "tx (terminate_sock k) = []" and "wire (terminate_sock k) = []" and "0 \<le> f"
    and "closes (rx (socks f))"
    and "rx_stream (rx (socks f)) = wire (snd (TerminateTask_RunAtomic (request_codec e) (ucast i) (terminate_sock k)))"
  shows "\<exists>k' s' t a b.
    shell_line ind e cp (command_line ''terminate'' (nat_string (unat i)) fork) k = Some (Ret k') \<and>
    body (last (tasks k')) = Terminate (ucast i) (terminate_sock k) \<and> j \<in> cancelled k' \<and>
    TerminateTask_RunAtomic (request_codec e) (ucast i) (terminate_sock k) = (DONE, s') \<and>
    FtpServerTask_RunAtomic [f, -1] (new_TPortTask p) = Ret (FAILED, t) \<and>
    AgentTask_SetUp cwd socks ids fs (hd (st_agents t)) = (RUNNING, a) \<and>
    AgentTask_RunAtomic e a = Some (Ret (DONE, b)) \<and>
    wire (client b) = wire (socks f) \<and> commands b = Delete i ids"
proof -
  have "unat i < 2 ^ 16" using unsigned_less [of i, where 'a = nat] by simp
  then have i: "unat (ucast i :: u32) = unat i" "unat i < 2 ^ 31"
    by (simp_all add: unsigned_ucast_eq take_bit_nat_eq_self)
  have ucast_back: "ucast (ucast i :: u32) = i" by (rule bit_word_eqI) (simp add: bit_simps)
  have w: "snd (Serialize (request_codec e) (TerminateRequest (ucast i)) []) =
      wire_of (request_codec e) (TerminateRequest (ucast i))"
    using Serialize_frame [OF assms(1)] assms(2) by (simp add: small_def)
  have "rx_stream (rx (socks f)) = wire_of (request_codec e) (TerminateRequest (ucast i))"
    using assms(5,6,9) w by (simp add: TerminateTask_RunAtomic_def sys_send_def)
  then obtain b where "Handle e (new_agent None (socks f) ids fs) = Some (Ret (True, b))"
      "commands b = Delete i ids" "wire (client b) = wire (socks f)"
    using Handle_terminate [OF assms(1,2,8), of ids fs] ucast_back by auto
  moreover have "\<exists>k'. shell_line ind e cp (command_line ''terminate'' (nat_string (unat i)) fork) k = Some (Ret k') \<and>
      body (last (tasks k')) = Terminate (ucast i) (terminate_sock k) \<and> j \<in> cancelled k'"
    using CreateReq_terminate [of "ucast i" ind "fsops e" cp "local_files k" fork, unfolded i, OF i(2)] assms(3,4)
    by (simp add: shell_line_def shell_terminate_def add_task_def Let_def)
  ultimately show ?thesis
    using assms(5,7)
    by (simp add: TerminateTask_RunAtomic_def sys_send_def FtpServerTask_RunAtomic_def new_TPortTask_def
        AgentTask_SetUp_def AgentTask_RunAtomic_def)
qed

definition demo_terminate_env :: "(string \<rightharpoonup> bytes) ftp_env" where
  "demo_terminate_env = demo_env\<lparr>request_codec := table_codec [TerminateRequest 1]\<rparr>"

definition demo_getting :: "(string \<rightharpoonup> bytes) client" where
  "demo_getting =
     \<lparr>client.connected = True, outgoing_msg_buf = [], client_parser = new_parser,
      csock = \<lparr>rx = [], tx = [], wire = [], errno = NoErr\<rparr>,
      terminate_sock = \<lparr>rx = [], tx = [], wire = [], errno = NoErr\<rparr>, cout = [],
      tasks = [\<lparr>body = Download ''a'' new_receiver, task_status = RUNNING, phase = Iterating\<rparr>],
      cancelled = {}, get_task = Some 0, put_task = None, r_old = GetRequest ''a'', local_files = Map.empty, pc = Prompt\<rparr>"

theorem terminate_end_to_end_witness:
  "\<exists>k' t a b.
    shell_line None demo_terminate_env ''/home'' (command_line ''terminate'' (nat_string (unat (1 :: u16))) False)
      demo_getting = Some (Ret k') \<and> 0 \<in> cancelled k' \<and>
    FtpServerTask_RunAtomic [5, -1] (new_TPortTask 22) = Ret (FAILED, t) \<and>
    AgentTask_SetUp ''/srv'' (\<lambda>_. \<lparr>rx = [RxData [0, 0], RxData [0, 1, 0], RxEof], tx = [], wire = [], errno = NoErr\<rparr>)
      (Insert 1 new_command_ids) Map.empty (hd (st_agents t)) = (RUNNING, a) \<and>
    AgentTask_RunAtomic demo_terminate_env a = Some (Ret (DONE, b)) \<and>
    commands b = Delete 1 (Insert 1 new_command_ids)"
proof -
  have "codec_ok (request_codec demo_terminate_env)" by (simp add: demo_terminate_env_def table_codec_ok)
  from terminate_end_to_end [OF this, of 1 demo_getting "''a''" 0 5
      "\<lambda>_. \<lparr>rx = [RxData [0, 0], RxData [0, 1, 0], RxEof], tx = [], wire = [], errno = NoErr\<rparr>" None "''/home''" False 22
      "''/srv''" "Insert 1 new_command_ids" Map.empty]
  show ?thesis
    by (simp add: demo_terminate_env_def demo_getting_def small_def table_codec_def TerminateTask_RunAtomic_def
        sys_send_def Serialize_def resize_def htonl_bytes_def) blast
qed

end
