(* ===== verification/Message_Passing.thy ===== *)
theory Message_Passing
  imports Blocking_Queue Pool_Task Wire_Protocol
begin

text \<open>
  Model of \<open>common/message_passing\<close>: nodes that exchange whole messages over stream sockets.
  A \<open>ReceiverTask\<close> per connection moves segments from its socket into the node's receive
  queue, marked with the endpoint; \<open>Node::DoReceive\<close> puts messages together from the queue.
  A \<open>SenderTask\<close> per connection moves serialized messages from a send queue to its socket.
  The queues are those of \<open>Blocking_Queue\<close>; a task's \<open>RunAtomic()\<close> is one step.

  For the server the send queues are objects with an identity, shared between the map from
  endpoints to queues and the sender tasks, and sockets are found through their descriptors:
  what goes wrong with a descriptor that is closed and reused depends on it.
\<close>

section \<open>Messages of the queues\<close>

record Endpoint =
  hostname :: string
  port :: u16

record ReceiveQueueMessage =
  rmessage :: bytes
  endpoint :: Endpoint
  rstatus :: int

record SendQueueMessage =
  message_id :: u64
  smessage :: bytes
  send_async :: bool

section \<open>Node\<close>

record node =
  receive_queue :: "ReceiveQueueMessage bqueue"
  un_processed_messages :: "ReceiveQueueMessage list"

definition new_node :: node where
  "new_node = \<lparr>receive_queue = new_queue 0, un_processed_messages = []\<rparr>"

text \<open>
  The two ways to pop the queue: \<open>Receive()\<close> without a timeout waits for ever, with a
  timeout it gives up.
\<close>

definition pop_queue ::
  "bool \<Rightarrow> ReceiveQueueMessage bqueue \<Rightarrow> (ReceiveQueueMessage option \<times> ReceiveQueueMessage bqueue) outcome"
where
  "pop_queue timed q =
     (if timed then Ret (PopTimed q) else obind (Pop q) (\<lambda>(x, q'). Ret (Some x, q')))"

text \<open>The next message: a saved one if there is any, otherwise from the queue.\<close>

definition next_response ::
  "bool \<Rightarrow> ReceiveQueueMessage list \<Rightarrow> ReceiveQueueMessage bqueue \<Rightarrow>
   (ReceiveQueueMessage option \<times> ReceiveQueueMessage list \<times> ReceiveQueueMessage bqueue) outcome"
where
  "next_response timed local q =
     (case local of
        m # ms \<Rightarrow> Ret (Some m, ms, q)
      | [] \<Rightarrow> obind (pop_queue timed q) (\<lambda>(m, q'). Ret (m, [], q')))"

lemma next_response_Some:
  "next_response timed local q = Ret (Some m, local', q') \<Longrightarrow> local @ queue q = m # local' @ queue q'"
  by (cases "queue q")
    (auto simp: next_response_def pop_queue_def Pop_def split: if_splits list.splits)

text \<open>
  The loop of \<open>DoReceive\<close>: the parser, the local queue of saved messages, the member that
  collects messages of other endpoints, the endpoint that is being read, the receive queue.
\<close>

function DoReceive_loop ::
  "bool \<Rightarrow> parser \<Rightarrow> ReceiveQueueMessage list \<Rightarrow> ReceiveQueueMessage list \<Rightarrow> Endpoint option \<Rightarrow>
   ReceiveQueueMessage bqueue \<Rightarrow>
   (bool \<times> parser \<times> ReceiveQueueMessage list \<times> Endpoint option \<times> ReceiveQueueMessage bqueue) outcome"
where
  "DoReceive_loop timed p local saved reading q =
     (if HasCompleteMessage p then Ret (True, p, saved, reading, q)
      else
        obind (next_response timed local q) (\<lambda>(m, local', q').
          case m of
            None \<Rightarrow> Ret (False, p, saved, reading, q')
          | Some response \<Rightarrow>
              if reading \<noteq> None \<and> reading \<noteq> Some (endpoint response)
              then DoReceive_loop timed p local' (saved @ [response]) reading q'
              else if rstatus response \<le> 0
              then Ret (False, p, saved, Some (endpoint response), q')
              else obind (AddNewData p (rmessage response)) (\<lambda>p'.
                     DoReceive_loop timed p' local' saved (Some (endpoint response)) q')))"
  by pat_completeness auto
termination
  by (relation "measure (\<lambda>(timed, p, local, saved, reading, q). length (local @ queue q))")
    (auto dest!: next_response_Some arg_cong [where f = length])

declare DoReceive_loop.simps [simp del]

text \<open>
  \<open>DoReceive\<close>: the message, if one was received and parsed; the endpoint, if it was set; the
  node. \<open>connected\<close> is the result of \<open>EnsureConnected()\<close>.
\<close>

definition DoReceive ::
  "'m codec \<Rightarrow> bool \<Rightarrow> bool \<Rightarrow> node \<Rightarrow> ('m option \<times> Endpoint option \<times> node) outcome" where
  "DoReceive c timed connected n =
     (if \<not> connected then Ret (None, None, n)
      else
        obind (DoReceive_loop timed new_parser (un_processed_messages n) [] None (receive_queue n))
          (\<lambda>(ok, p, saved, reading, q).
            if \<not> ok then Ret (None, None, n\<lparr>receive_queue := q, un_processed_messages := saved\<rparr>)
            else
              let saved' = (if HasOverflow p
                    then saved @ [\<lparr>rmessage = GetOverflow p, endpoint = the reading,
                                   rstatus = sint (of_nat (length (GetOverflow p)) :: u32)\<rparr>]
                    else saved)
              in obind (GetMessage c p) (\<lambda>(m, p').
                   Ret (m, reading, n\<lparr>receive_queue := q, un_processed_messages := saved'\<rparr>))))"

section \<open>Tasks\<close>

abbreviation kReceiveChunkSize :: nat where
  "kReceiveChunkSize \<equiv> 1024"

definition ReceiverTask_RunAtomic ::
  "Endpoint \<Rightarrow> sock \<Rightarrow> ReceiveQueueMessage bqueue \<Rightarrow> (status \<times> sock \<times> ReceiveQueueMessage bqueue) outcome"
where
  "ReceiverTask_RunAtomic ep s q =
     obind (sys_recv kReceiveChunkSize s) (\<lambda>(r, s').
       case r of
         IoErr \<Rightarrow>
           if is_timeout (errno s') then Ret (RUNNING, s', q)
           else obind (Push \<lparr>rmessage = [], endpoint = ep, rstatus = -1\<rparr> q) (\<lambda>q'. Ret (FAILED, s', q'))
       | IoBytes bs \<Rightarrow>
           obind (Push \<lparr>rmessage = bs, endpoint = ep, rstatus = int (length bs)\<rparr> q) (\<lambda>q'.
             Ret (if bs = [] then FAILED else RUNNING, s', q')))"

text \<open>
  The sender reports the result of a synchronous send through its callback, which stores it
  under the id of the message.
\<close>

definition SenderTask_RunAtomic ::
  "SendQueueMessage bqueue \<Rightarrow> sock \<Rightarrow> (u64 \<rightharpoonup> int) \<Rightarrow>
   (status \<times> SendQueueMessage bqueue \<times> sock \<times> (u64 \<rightharpoonup> int)) outcome" where
  "SenderTask_RunAtomic q s send_results =
     (case PopTimed q of
        (None, q') \<Rightarrow> Ret (RUNNING, q', s, send_results)
      | (Some m, q') \<Rightarrow>
          (case sys_send (smessage m) s of
             (Inl e, s') \<Rightarrow>
               if is_timeout e
               then obind (Push m q') (\<lambda>q''. Ret (RUNNING, q'', s', send_results))
               else Ret (RUNNING, q', s',
                      if send_async m then send_results else send_results(message_id m \<mapsto> -1))
           | (Inr n, s') \<Rightarrow>
               Ret (RUNNING, q', s',
                 if send_async m then send_results else send_results(message_id m \<mapsto> int n))))"

section \<open>Receiving from one endpoint\<close>

text \<open>The bytes in a list of queue messages, and that all of them are data from one endpoint.\<close>

definition payload :: "ReceiveQueueMessage list \<Rightarrow> bytes" where
  "payload ms = concat (map rmessage ms)"

definition data_from :: "Endpoint \<Rightarrow> ReceiveQueueMessage list \<Rightarrow> bool" where
  "data_from ep ms \<longleftrightarrow>
     (\<forall>m\<in>set ms. endpoint m = ep \<and> 0 < rstatus m \<and> length (rmessage m) < 2 ^ 31)"

lemma payload_simps [simp]:
  "payload [] = []" "payload (m # ms) = rmessage m @ payload ms"
  "payload (ms @ ms') = payload ms @ payload ms'"
  by (simp_all add: payload_def)

lemma data_from_simps [simp]:
  "data_from ep []"
  "data_from ep (m # ms) \<longleftrightarrow>
     (endpoint m = ep \<and> 0 < rstatus m \<and> length (rmessage m) < 2 ^ 31) \<and> data_from ep ms"
  "data_from ep (ms @ ms') \<longleftrightarrow> data_from ep ms \<and> data_from ep ms'"
  by (auto simp: data_from_def)

lemma add_incomplete:
  assumes "wf_parser p" and "\<not> HasCompleteMessage p" and "length d < 2 ^ 31"
  shows "\<exists>p'. AddNewData p d = Ret p' \<and> wf_parser p' \<and> unread p' = unread p @ d \<and>
    length (overflow_message_data p') < 2 ^ 31"
proof -
  have none: "overflow_message_data p = []" using wf_incomplete_no_overflow [OF assms(1,2)] .
  then obtain p' where "AddNewData p d = Ret p'" "wf_parser p'" "unread p' = unread p @ d"
    using AddNewData_refines [OF assms(1), of d] assms(3) by auto
  then show ?thesis using backlog_AddNewData [OF assms(1), of p' d] none assms(3) by auto
qed

lemma DoReceive_loop_queue:
  assumes "wf_parser p" and "data_from ep (queue q)" and "reading = None \<or> reading = Some ep"
    and "split_frame (unread p @ payload (queue q)) = Some (b, rest)"
    and "length (overflow_message_data p) < 2 ^ 31"
  shows "\<exists>p' reading' q'. DoReceive_loop timed p [] saved reading q = Ret (True, p', saved, reading', q') \<and>
    wf_parser p' \<and> HasCompleteMessage p' \<and>
    unread p' @ payload (queue q') = unread p @ payload (queue q) \<and> data_from ep (queue q') \<and>
    length (overflow_message_data p') < 2 ^ 31 \<and>
    (reading' = Some ep \<or> HasCompleteMessage p \<and> reading' = reading)"
  using assms
proof (induction "length (queue q)" arbitrary: p reading q rule: less_induct)
  case less
  show ?case
  proof (cases "HasCompleteMessage p")
    case True
    then show ?thesis using less.prems by (subst DoReceive_loop.simps) simp
  next
    case False
    then have "split_frame (unread p) = None" using wf_complete_iff [OF less.prems(1)] by blast
    then obtain m ms where q: "queue q = m # ms"
      using less.prems(4) by (cases "queue q") auto
    then have m: "endpoint m = ep" "0 < rstatus m" "length (rmessage m) < 2 ^ 31" "data_from ep ms"
      using less.prems(2) by auto
    let ?q = "q\<lparr>queue := ms\<rparr>"
    have nxt: "next_response timed [] q = Ret (Some m, [], ?q)"
      using q by (simp add: next_response_def pop_queue_def Pop_def)
    obtain p1 where p1: "AddNewData p (rmessage m) = Ret p1" "wf_parser p1"
        "unread p1 = unread p @ rmessage m" "length (overflow_message_data p1) < 2 ^ 31"
      using add_incomplete [OF less.prems(1) False m(3)] by blast
    have step: "DoReceive_loop timed p [] saved reading q = DoReceive_loop timed p1 [] saved (Some ep) ?q"
      using False nxt m p1(1) less.prems(3) by (subst DoReceive_loop.simps) auto
    have "\<exists>p' reading' q'. DoReceive_loop timed p1 [] saved (Some ep) ?q = Ret (True, p', saved, reading', q') \<and>
        wf_parser p' \<and> HasCompleteMessage p' \<and>
        unread p' @ payload (queue q') = unread p1 @ payload (queue ?q) \<and> data_from ep (queue q') \<and>
        length (overflow_message_data p') < 2 ^ 31 \<and>
        (reading' = Some ep \<or> HasCompleteMessage p1 \<and> reading' = Some ep)"
      using less.prems(4) q m(4) p1 by (intro less.hyps) auto
    then show ?thesis using step p1(3) q by auto
  qed
qed

lemma DoReceive_loop_complete:
  assumes "length (un_processed_messages n) \<le> 1"
    and "data_from ep (un_processed_messages n @ queue (receive_queue n))"
    and "split_frame (payload (un_processed_messages n @ queue (receive_queue n))) = Some (bs, rest)"
  shows "\<exists>p' q'. DoReceive_loop timed new_parser (un_processed_messages n) [] None (receive_queue n) =
      Ret (True, p', [], Some ep, q') \<and>
    wf_parser p' \<and> HasCompleteMessage p' \<and> data_from ep (queue q') \<and>
    unread p' @ payload (queue q') = payload (un_processed_messages n @ queue (receive_queue n)) \<and>
    length (overflow_message_data p') < 2 ^ 31"
proof (cases "un_processed_messages n")
  case Nil
  then show ?thesis
    using DoReceive_loop_queue [OF wf_new_parser, of ep "receive_queue n" None bs rest timed "[]"]
      assms(2,3) by (auto simp: new_parser_def [symmetric])
next
  case (Cons x xs)
  then have x: "un_processed_messages n = [x]" "endpoint x = ep" "0 < rstatus x"
      "length (rmessage x) < 2 ^ 31"
    using assms(1,2) by auto
  obtain p1 where p1: "AddNewData new_parser (rmessage x) = Ret p1" "wf_parser p1"
      "unread p1 = rmessage x" "length (overflow_message_data p1) < 2 ^ 31"
    using add_incomplete [OF wf_new_parser _ x(4)] by auto
  have "DoReceive_loop timed new_parser [x] [] None (receive_queue n) = DoReceive_loop timed p1 [] [] (Some ep) (receive_queue n)"
    using x p1(1) by (subst DoReceive_loop.simps) (simp add: next_response_def)
  then show ?thesis
    using DoReceive_loop_queue [OF p1(2), of ep "receive_queue n" "Some ep" bs rest timed "[]"]
      assms(2,3) x(1) p1 by auto
qed

lemma DoReceive_next:
  assumes "codec_ok c" and "ByteSizeLong c m < 2 ^ 31" and "length (un_processed_messages n) \<le> 1"
    and "data_from ep (un_processed_messages n @ queue (receive_queue n))"
    and "payload (un_processed_messages n @ queue (receive_queue n)) = frame (encode c m) @ rest"
  shows "\<exists>n'. DoReceive c timed True n = Ret (Some m, Some ep, n') \<and>
    length (un_processed_messages n') \<le> 1 \<and>
    data_from ep (un_processed_messages n' @ queue (receive_queue n')) \<and>
    payload (un_processed_messages n' @ queue (receive_queue n')) = rest"
proof -
  let ?q = "receive_queue n"
  have "length (encode c m) < 2 ^ 32" using codec_okD(2) [OF assms(1,2)] assms(2) by simp
  then have split: "split_frame (payload (un_processed_messages n @ queue ?q)) = Some (encode c m, rest)"
    using assms(5) by (simp add: split_frame_frame)
  from DoReceive_loop_complete [OF assms(3,4) split] obtain p q
    where l: "DoReceive_loop timed new_parser (un_processed_messages n) [] None ?q =
        Ret (True, p, [], Some ep, q)" "wf_parser p" "HasCompleteMessage p" "data_from ep (queue q)"
      "unread p @ payload (queue q) = payload (un_processed_messages n @ queue ?q)"
      "length (overflow_message_data p) < 2 ^ 31"
    by blast
  have sp: "split_frame (unread p) = Some (partial_message p, overflow_message_data p)"
    using wf_complete_split [OF l(2,3)] .
  then have "split_frame (unread p @ payload (queue q)) =
      Some (partial_message p, overflow_message_data p @ payload (queue q))"
    by (rule split_frame_append)
  then have eq: "partial_message p = encode c m" "overflow_message_data p @ payload (queue q) = rest"
    using split l(5) by auto
  then obtain p' where g: "GetMessage c p = Ret (Some m, p')"
    using GetMessage_encoded [OF l(2) assms(1,2)] sp by auto
  have "sint (of_nat (length (overflow_message_data p)) :: u32) = int (length (overflow_message_data p))"
    using l(6) by (rule sint_of_nat_u32)
  then show ?thesis
    using l g eq by (auto simp: DoReceive_def HasOverflow_def GetOverflow_def Let_def)
qed

text \<open>A sequence of \<open>n\<close> calls of \<open>Receive\<close>.\<close>

fun receive_many :: "'m codec \<Rightarrow> bool \<Rightarrow> nat \<Rightarrow> node \<Rightarrow> (('m option \<times> Endpoint option) list \<times> node) outcome" where
  "receive_many c timed 0 n = Ret ([], n)"
| "receive_many c timed (Suc k) n =
     obind (DoReceive c timed True n) (\<lambda>(m, ep, n').
     obind (receive_many c timed k n') (\<lambda>(ms, n''). Ret ((m, ep) # ms, n'')))"

lemma receive_many_in_order:
  assumes "codec_ok c" and "\<forall>m\<in>set ms. ByteSizeLong c m < 2 ^ 31"
  shows "length (un_processed_messages n) \<le> 1 \<Longrightarrow>
    data_from ep (un_processed_messages n @ queue (receive_queue n)) \<Longrightarrow>
    payload (un_processed_messages n @ queue (receive_queue n)) =
      concat (map (\<lambda>m. frame (encode c m)) ms) @ rest \<Longrightarrow>
    \<exists>n'. receive_many c timed (length ms) n = Ret (map (\<lambda>m. (Some m, Some ep)) ms, n') \<and>
      payload (un_processed_messages n' @ queue (receive_queue n')) = rest"
  using assms(2)
proof (induction ms arbitrary: n)
  case Nil
  then show ?case by simp
next
  case (Cons m ms)
  then obtain n1 where "DoReceive c timed True n = Ret (Some m, Some ep, n1)"
      "length (un_processed_messages n1) \<le> 1"
      "data_from ep (un_processed_messages n1 @ queue (receive_queue n1))"
      "payload (un_processed_messages n1 @ queue (receive_queue n1)) =
        concat (map (\<lambda>m. frame (encode c m)) ms) @ rest"
    using DoReceive_next [OF assms(1), of m n ep "concat (map (\<lambda>m. frame (encode c m)) ms) @ rest" timed]
    by auto
  then show ?case using Cons.IH [of n1] Cons.prems(4) by auto
qed

text \<open>\<open>k\<close> iterations of a receiver task.\<close>

fun run_receiver ::
  "nat \<Rightarrow> Endpoint \<Rightarrow> sock \<Rightarrow> ReceiveQueueMessage bqueue \<Rightarrow> (status \<times> sock \<times> ReceiveQueueMessage bqueue) outcome"
where
  "run_receiver 0 ep s q = Ret (RUNNING, s, q)"
| "run_receiver (Suc k) ep s q =
     obind (ReceiverTask_RunAtomic ep s q) (\<lambda>(st, s', q').
       if st = RUNNING then run_receiver k ep s' q' else Ret (st, s', q'))"

lemma run_receiver_wire: "run_receiver k ep s q = Ret (st, s', q') \<Longrightarrow> wire s' = wire s"
proof (induction k arbitrary: s q)
  case (Suc k)
  then obtain st1 s1 q1 where r: "ReceiverTask_RunAtomic ep s q = Ret (st1, s1, q1)"
      "(if st1 = RUNNING then run_receiver k ep s1 q1 else Ret (st1, s1, q1)) = Ret (st, s', q')"
    by (auto simp: outcome_simps)
  obtain x s2 where x: "sys_recv kReceiveChunkSize s = Ret (x, s2)"
    using r(1) by (auto simp: ReceiverTask_RunAtomic_def outcome_simps)
  have "s1 = s2"
    using r(1) x by (cases x) (auto simp: ReceiverTask_RunAtomic_def outcome_simps split: if_splits)
  then have "wire s1 = wire s" using sys_recv_frame [OF x] by simp
  then show ?case using r(2) Suc.IH by (auto split: if_splits)
qed simp

text \<open>The receiver task moves the stream of its socket into the queue, in order.\<close>

lemma run_receiver_stream:
  assumes "max_length q = 0"
  shows "data_from ep (queue q) \<Longrightarrow>
    \<exists>k s' q'. run_receiver k ep s q = Ret (RUNNING, s', q') \<and> rx_stream (rx s') = [] \<and>
      payload (queue q') = payload (queue q) @ rx_stream (rx s) \<and> data_from ep (queue q') \<and>
      max_length q' = 0"
  using assms
proof (induction "rx_size (rx s)" arbitrary: s q rule: less_induct)
  case less
  show ?case
  proof (cases "rx_stream (rx s) = []")
    case True
    then show ?thesis using less.prems by (intro exI [of _ 0]) simp
  next
    case False
    then obtain bs s1 where r: "sys_recv kReceiveChunkSize s = Ret (IoBytes bs, s1)" "bs \<noteq> []"
      using sys_recv_data [of s kReceiveChunkSize] by auto
    let ?m = "\<lparr>rmessage = bs, endpoint = ep, rstatus = int (length bs)\<rparr>"
    let ?q = "q\<lparr>queue := queue q @ [?m]\<rparr>"
    have step: "ReceiverTask_RunAtomic ep s q = Ret (RUNNING, s1, ?q)"
      using r less.prems(2) by (simp add: ReceiverTask_RunAtomic_def)
    have "data_from ep (queue ?q)"
      using less.prems(1) r(2) sys_recv_bound [OF r(1)] by simp
    then obtain k s' q' where "run_receiver k ep s1 ?q = Ret (RUNNING, s', q')" "rx_stream (rx s') = []"
        "payload (queue q') = payload (queue ?q) @ rx_stream (rx s1)" "data_from ep (queue q')"
        "max_length q' = 0"
      using less.hyps [OF sys_recv_progress [OF r], of ?q] less.prems(2) by auto
    then show ?thesis
      using step sys_recv_stream [OF r(1)] by (intro exI [of _ "Suc k"]) auto
  qed
qed

section \<open>Sending\<close>

text \<open>\<open>k\<close> iterations of a sender task.\<close>

fun run_sender ::
  "nat \<Rightarrow> SendQueueMessage bqueue \<Rightarrow> sock \<Rightarrow> (u64 \<rightharpoonup> int) \<Rightarrow>
   (SendQueueMessage bqueue \<times> sock \<times> (u64 \<rightharpoonup> int)) outcome" where
  "run_sender 0 q s res = Ret (q, s, res)"
| "run_sender (Suc k) q s res =
     obind (SenderTask_RunAtomic q s res) (\<lambda>(st, q', s', res'). run_sender k q' s' res')"

lemma run_sender_wire:
  "tx s = [] \<Longrightarrow> \<exists>q' s' res'. run_sender (length (queue q)) q s res = Ret (q', s', res') \<and>
     queue q' = [] \<and> wire s' = wire s @ concat (map smessage (queue q)) \<and> tx s' = []"
proof (induction "queue q" arbitrary: q s res)
  case Nil
  then show ?case by simp
next
  case (Cons m ms)
  let ?q = "q\<lparr>queue := ms\<rparr>" and ?s = "s\<lparr>wire := wire s @ smessage m\<rparr>"
  let ?res = "if send_async m then res else res(message_id m \<mapsto> int (length (smessage m)))"
  have q: "queue q = m # ms" using Cons.hyps(2) by simp
  have "SenderTask_RunAtomic q s res = Ret (RUNNING, ?q, ?s, ?res)"
    using q Cons.prems by (simp add: SenderTask_RunAtomic_def sys_send_def)
  moreover have "\<exists>q' s' res'. run_sender (length (queue ?q)) ?q ?s ?res = Ret (q', s', res') \<and>
     queue q' = [] \<and> wire s' = wire ?s @ concat (map smessage (queue ?q)) \<and> tx s' = []"
    using Cons.prems by (intro Cons.hyps(1)) auto
  ultimately show ?case using q by auto
qed

section \<open>Client\<close>

text \<open>
  \<open>connect_results\<close> are the values that the next calls of \<open>SetUpSocket\<close> will return;
  \<open>senders\<close> are the descriptors of the sender tasks created so far, all of which serve the
  one send queue.
\<close>

record mp_client =
  base :: node
  dest :: Endpoint
  client_fd :: int
  connect_results :: "int list"
  send_queue :: "SendQueueMessage bqueue"
  senders :: "int list"
  receivers :: "int list"
  send_results :: "u64 \<rightharpoonup> int"
  last_message_id :: u64

text \<open>The receiver tasks of a node are known by their descriptors.\<close>

definition StartReceiverTask :: "int \<Rightarrow> mp_client \<Rightarrow> mp_client" where
  [simp]: "StartReceiverTask socket_fd k = k\<lparr>receivers := receivers k @ [socket_fd]\<rparr>"

definition Client_EnsureConnected :: "mp_client \<Rightarrow> bool \<times> mp_client" where
  "Client_EnsureConnected k =
     (if client_fd k < 0
      then
        let fd = (case connect_results k of [] \<Rightarrow> -1 | f # fs \<Rightarrow> f);
            k' = StartReceiverTask fd (k\<lparr>client_fd := fd, connect_results := tl (connect_results k),
                   senders := senders k @ [fd]\<rparr>)
        in (0 \<le> fd, k')
      else (True, k))"

definition Client_DispatchSend :: "'m codec \<Rightarrow> 'm \<Rightarrow> bool \<Rightarrow> mp_client \<Rightarrow> (u64 option \<times> mp_client) outcome" where
  "Client_DispatchSend c m async k =
     (case Client_EnsureConnected k of (ok, k1) \<Rightarrow>
        if \<not> ok then Ret (None, k1)
        else
          let i = last_message_id k1 + 1;
              k2 = k1\<lparr>last_message_id := i\<rparr>
          in case Serialize c m [] of (done, bs) \<Rightarrow>
               if \<not> done then Ret (None, k2)
               else obind (Push \<lparr>message_id = i, smessage = bs, send_async = async\<rparr> (send_queue k2)) (\<lambda>q.
                      Ret (Some i, k2\<lparr>send_queue := q\<rparr>)))"

definition Client_SendAsync :: "'m codec \<Rightarrow> 'm \<Rightarrow> mp_client \<Rightarrow> (bool \<times> mp_client) outcome" where
  "Client_SendAsync c m k =
     obind (Client_DispatchSend c m True k) (\<lambda>(i, k'). Ret (i \<noteq> None, k'))"

text \<open>
  The end of a synchronous \<open>Send\<close>: the wait for the result of message \<open>i\<close>, which is then
  removed; with no result there the call blocks.
\<close>

definition Client_Send_result :: "u64 \<Rightarrow> mp_client \<Rightarrow> (int \<times> mp_client) outcome" where
  "Client_Send_result i k =
     (case send_results k i of
        None \<Rightarrow> Block
      | Some r \<Rightarrow> Ret (r, k\<lparr>send_results := (send_results k)(i := None)\<rparr>))"

text \<open>
  \<open>Send\<close>: the sender task, on the socket \<open>s\<close>, works through the queue while the caller waits.
\<close>

definition Client_Send :: "'m codec \<Rightarrow> 'm \<Rightarrow> sock \<Rightarrow> mp_client \<Rightarrow> (int \<times> sock \<times> mp_client) outcome" where
  "Client_Send c m s k =
     obind (Client_DispatchSend c m False k) (\<lambda>(i, k1).
       case i of
         None \<Rightarrow> Ret (-1, s, k1)
       | Some j \<Rightarrow>
           obind (run_sender (length (queue (send_queue k1))) (send_queue k1) s (send_results k1))
             (\<lambda>(q, s', res).
               obind (Client_Send_result j (k1\<lparr>send_queue := q, send_results := res\<rparr>)) (\<lambda>(r, k3).
                 Ret (r, s', k3))))"

section \<open>Server\<close>

text \<open>
  \<open>queues\<close> are the send queue objects, \<open>send_queues\<close> maps endpoints to them. The tasks of the
  clients are kept with their descriptors; \<open>sockets\<close> are the open descriptors of the process.
\<close>

datatype socket_task = SenderFor nat | ReceiverFor Endpoint

record task_ref =
  fd :: int
  kind :: socket_task
  tstatus :: status

record mp_server =
  snode :: node
  queues :: "SendQueueMessage bqueue list"
  send_queues :: "Endpoint \<rightharpoonup> nat"
  stasks :: "task_ref list"
  owned :: "nat set"
  sockets :: "int \<rightharpoonup> sock"
  sresults :: "u64 \<rightharpoonup> int"
  smessage_id :: u64
  server_status :: status

definition Server_EnsureConnected :: "mp_server \<Rightarrow> bool" where
  "Server_EnsureConnected sv \<longleftrightarrow> server_status sv = RUNNING"

definition Server_DispatchSend ::
  "'m codec \<Rightarrow> 'm \<Rightarrow> Endpoint \<Rightarrow> bool \<Rightarrow> mp_server \<Rightarrow> (u64 option \<times> mp_server) outcome" where
  "Server_DispatchSend c m ep async sv =
     (if \<not> Server_EnsureConnected sv then Ret (None, sv)
      else
        let i = smessage_id sv + 1;
            sv1 = sv\<lparr>smessage_id := i\<rparr>
        in case Serialize c m [] of (ok, bs) \<Rightarrow>
             if \<not> ok then Ret (None, sv1)
             else
               (case send_queues sv ep of
                  None \<Rightarrow> Ret (None, sv1)
                | Some j \<Rightarrow>
                    obind (Push \<lparr>message_id = i, smessage = bs, send_async = async\<rparr> (queues sv ! j)) (\<lambda>q.
                      Ret (Some i, sv1\<lparr>queues := (queues sv)[j := q]\<rparr>))))"

definition Server_SendAsync ::
  "'m codec \<Rightarrow> 'm \<Rightarrow> Endpoint \<Rightarrow> mp_server \<Rightarrow> (bool \<times> mp_server) outcome" where
  "Server_SendAsync c m ep sv =
     obind (Server_DispatchSend c m ep True sv) (\<lambda>(i, sv'). Ret (i \<noteq> None, sv'))"

definition Server_Send_result :: "u64 \<Rightarrow> mp_server \<Rightarrow> (int \<times> mp_server) outcome" where
  "Server_Send_result i sv =
     (case sresults sv i of
        None \<Rightarrow> Block
      | Some r \<Rightarrow> Ret (r, sv\<lparr>sresults := (sresults sv)(i := None)\<rparr>))"

definition GetConnected :: "mp_server \<Rightarrow> Endpoint set" where
  "GetConnected sv = dom (send_queues sv)"

text \<open>
  \<open>ServerTask\<close>: \<open>owned\<close> are the indices of the tasks in its set \<open>tasks_\<close>. A round closes the
  descriptors of its tasks that no longer run and forgets those tasks, then takes at most
  one new connection.
\<close>

definition CloseDisconnected :: "mp_server \<Rightarrow> mp_server" where
  "CloseDisconnected sv =
     (let gone = {i \<in> owned sv. i < length (stasks sv) \<and> tstatus (stasks sv ! i) \<noteq> RUNNING}
      in sv\<lparr>sockets := (sockets sv) |` (- ((\<lambda>i. fd (stasks sv ! i)) ` gone)), owned := owned sv - gone\<rparr>)"

datatype accept_result = Accepted int Endpoint sock | AcceptTimeout | AcceptFailure

definition ServerTask_RunAtomic :: "accept_result \<Rightarrow> mp_server \<Rightarrow> status \<times> mp_server" where
  "ServerTask_RunAtomic r sv =
     (let sv1 = CloseDisconnected sv
      in case r of
           AcceptTimeout \<Rightarrow> (RUNNING, sv1)
         | AcceptFailure \<Rightarrow> (FAILED, sv1)
         | Accepted f ep s \<Rightarrow>
             let j = length (queues sv1); n = length (stasks sv1)
             in (RUNNING,
                 sv1\<lparr>queues := queues sv1 @ [new_queue 0],
                     stasks := stasks sv1 @ [\<lparr>fd = f, kind = SenderFor j, tstatus = RUNNING\<rparr>,
                                             \<lparr>fd = f, kind = ReceiverFor ep, tstatus = RUNNING\<rparr>],
                     owned := owned sv1 \<union> {n, Suc n},
                     sockets := (sockets sv1)(f \<mapsto> s),
                     send_queues := (send_queues sv1)(ep \<mapsto> j)\<rparr>))"

text \<open>The socket behind a descriptor.\<close>

definition sock_of :: "int \<Rightarrow> mp_server \<Rightarrow> sock" where
  "sock_of f sv = (case sockets sv f of None \<Rightarrow> bad_fd | Some s \<Rightarrow> s)"

definition put_sock :: "int \<Rightarrow> sock \<Rightarrow> mp_server \<Rightarrow> mp_server" where
  "put_sock f s sv = (if sockets sv f = None then sv else sv\<lparr>sockets := (sockets sv)(f \<mapsto> s)\<rparr>)"

text \<open>One iteration of client task \<open>i\<close>.\<close>

definition server_task_step :: "nat \<Rightarrow> mp_server \<Rightarrow> mp_server outcome" where
  "server_task_step i sv =
     (if length (stasks sv) \<le> i \<or> tstatus (stasks sv ! i) \<noteq> RUNNING then Ret sv
      else
        let t = stasks sv ! i
        in case kind t of
             SenderFor j \<Rightarrow>
               obind (SenderTask_RunAtomic (queues sv ! j) (sock_of (fd t) sv) (sresults sv)) (\<lambda>(st, q, s, res).
                 Ret (put_sock (fd t) s (sv\<lparr>queues := (queues sv)[j := q], sresults := res\<rparr>)))
           | ReceiverFor ep \<Rightarrow>
               obind (ReceiverTask_RunAtomic ep (sock_of (fd t) sv) (receive_queue (snode sv))) (\<lambda>(st, s, q).
                 Ret (put_sock (fd t) s (sv\<lparr>snode := (snode sv)\<lparr>receive_queue := q\<rparr>,
                        stasks := (stasks sv)[i := t\<lparr>tstatus := st\<rparr>]\<rparr>))))"

definition new_server :: mp_server where
  "new_server =
     \<lparr>snode = new_node, queues = [], send_queues = Map.empty, stasks = [], owned = {},
      sockets = Map.empty, sresults = Map.empty, smessage_id = 0, server_status = RUNNING\<rparr>"

section \<open>Properties\<close>

text \<open>
  Messages arrive whole and in order. When the peer's stream is a sequence of serialized
  messages, in any segments, the receiver task moves it into the queue, and as many calls of
  \<open>Receive\<close> then return exactly these messages, in order, with the peer's endpoint, and keep
  what follows for the next call.
\<close>

theorem messages_received_in_order:
  assumes "codec_ok c" and "\<forall>m\<in>set ms. ByteSizeLong c m < 2 ^ 31"
    and "rx_stream (rx s) = concat (map (\<lambda>m. snd (Serialize c m [])) ms) @ rest"
  shows "\<exists>k s' q n'. run_receiver k ep s (receive_queue new_node) = Ret (RUNNING, s', q) \<and>
    receive_many c timed (length ms) (new_node\<lparr>receive_queue := q\<rparr>) =
      Ret (map (\<lambda>m. (Some m, Some ep)) ms, n') \<and>
    payload (un_processed_messages n' @ queue (receive_queue n')) = rest"
proof -
  have ser: "map (\<lambda>m. snd (Serialize c m [])) ms = map (\<lambda>m. frame (encode c m)) ms"
    using assms(1,2) by (auto simp: Serialize_frame)
  obtain k s' q where r: "run_receiver k ep s (receive_queue new_node) = Ret (RUNNING, s', q)"
      "payload (queue q) = rx_stream (rx s)" "data_from ep (queue q)"
    using run_receiver_stream [of "receive_queue new_node" ep s]
    by (auto simp: new_node_def new_queue_def)
  then show ?thesis
    using receive_many_in_order [OF assms(1,2), of "new_node\<lparr>receive_queue := q\<rparr>" ep rest timed] assms(3) ser
    by (auto simp: new_node_def)
qed

theorem messages_received_in_order_witness:
  "\<exists>k s' q n'. run_receiver k \<lparr>hostname = ''h'', port = 1\<rparr>
      \<lparr>rx = [RxData [0, 0], RxData [0, 1, 7, 0, 0, 0, 0], RxData [9]], tx = [], wire = [], errno = NoErr\<rparr>
      (receive_queue new_node) = Ret (RUNNING, s', q) \<and>
    receive_many raw_codec False (length [[7], [] :: bytes]) (new_node\<lparr>receive_queue := q\<rparr>) =
      Ret (map (\<lambda>m. (Some m, Some \<lparr>hostname = ''h'', port = 1\<rparr>)) [[7], []], n') \<and>
    payload (un_processed_messages n' @ queue (receive_queue n')) = [9]"
  by (rule messages_received_in_order [OF raw_codec_ok])
    (simp_all add: raw_codec_def Serialize_def resize_def htonl_bytes_def)

text \<open>
  A synchronous \<open>Send\<close> on a connection that takes the data returns the number of bytes
  sent, after everything queued before has gone out in order; nothing stays queued.
\<close>

theorem Client_Send_delivers:
  assumes "codec_ok c" and "ByteSizeLong c m < 2 ^ 31" and "0 \<le> client_fd k" and "tx s = []"
    and "max_length (send_queue k) = 0" and "\<forall>x\<in>set (queue (send_queue k)). send_async x"
  shows "\<exists>s' k'. Client_Send c m s k = Ret (int (length (snd (Serialize c m []))), s', k') \<and>
    wire s' = wire s @ concat (map smessage (queue (send_queue k))) @ snd (Serialize c m []) \<and>
    queue (send_queue k') = [] \<and> send_results k' = (send_results k)(last_message_id k' := None)"
proof -
  let ?F = "frame (encode c m)" and ?i = "last_message_id k + 1"
  let ?x = "\<lparr>message_id = ?i, smessage = ?F, send_async = False\<rparr>"
  let ?k1 = "k\<lparr>last_message_id := ?i, send_queue := (send_queue k)\<lparr>queue := queue (send_queue k) @ [?x]\<rparr>\<rparr>"
  note ser = Serialize_frame [OF assms(1,2)]
  have d: "Client_DispatchSend c m False k = Ret (Some ?i, ?k1)"
    using assms(3,5) ser by (simp add: Client_DispatchSend_def Client_EnsureConnected_def Let_def)
  have run: "\<exists>q' s'. run_sender (length ms + 1) q s res = Ret (q', s', res(?i \<mapsto> int (length ?F))) \<and>
      queue q' = [] \<and> wire s' = wire s @ concat (map smessage ms) @ ?F"
    if "queue q = ms @ [?x]" "\<forall>x\<in>set ms. send_async x" "tx s = []" for ms q res s
    using that
  proof (induction ms arbitrary: q s)
    case Nil
    then show ?case by (simp add: SenderTask_RunAtomic_def sys_send_def fun_upd_def)
  next
    case (Cons y ms)
    let ?q = "q\<lparr>queue := ms @ [?x]\<rparr>" and ?s = "s\<lparr>wire := wire s @ smessage y\<rparr>"
    have "SenderTask_RunAtomic q s res = Ret (RUNNING, ?q, ?s, res)"
      using Cons.prems by (simp add: SenderTask_RunAtomic_def sys_send_def)
    then show ?case using Cons.IH [of ?q ?s] Cons.prems by auto
  qed
  obtain q' s' where q': "run_sender (length (queue (send_queue ?k1))) (send_queue ?k1) s (send_results ?k1) =
      Ret (q', s', (send_results k)(?i \<mapsto> int (length ?F)))" "queue q' = []"
      "wire s' = wire s @ concat (map smessage (queue (send_queue k))) @ ?F"
    using run [of "send_queue ?k1" "queue (send_queue k)" s "send_results k"] assms(4,6) by auto
  then show ?thesis
    using d ser by (auto simp: Client_Send_def Client_Send_result_def)
qed

theorem Client_Send_delivers_witness:
  "\<exists>s' k'. Client_Send raw_codec [7] \<lparr>rx = [], tx = [], wire = [], errno = NoErr\<rparr>
      \<lparr>base = new_node, dest = \<lparr>hostname = ''h'', port = 1\<rparr>, client_fd = 3, connect_results = [],
       send_queue = new_queue 0, senders = [3], receivers = [3], send_results = Map.empty,
       last_message_id = 0\<rparr> = Ret (5, s', k') \<and> wire s' = [0, 0, 0, 1, 7] \<and>
    queue (send_queue k') = []"
  using Client_Send_delivers [OF raw_codec_ok, of "[7]"
      "\<lparr>base = new_node, dest = \<lparr>hostname = ''h'', port = 1\<rparr>, client_fd = 3, connect_results = [],
       send_queue = new_queue 0, senders = [3], receivers = [3], send_results = Map.empty,
       last_message_id = 0\<rparr>" "\<lparr>rx = [], tx = [], wire = [], errno = NoErr\<rparr>"]
  by (auto simp: raw_codec_def new_queue_def Serialize_def resize_def htonl_bytes_def)

text \<open>
  \<open>DoReceive\<close> can lose saved messages. It moves the saved messages into a local queue and
  stops as soon as one message is complete: whatever is left in the local queue, data of other
  endpoints included, is destroyed with it.
\<close>

theorem DoReceive_drops_saved:
  assumes "codec_ok c" and "ByteSizeLong c m < 2 ^ 31" and "un_processed_messages n = x # xs"
    and "rmessage x = frame (encode c m)" and "0 < rstatus x"
  shows "\<exists>n'. DoReceive c timed True n = Ret (Some m, Some (endpoint x), n') \<and>
    un_processed_messages n' = [] \<and> receive_queue n' = receive_queue n"
proof -
  have small: "length (encode c m) < 2 ^ 31" using codec_okD(2) [OF assms(1,2)] assms(2) by simp
  have "length (frame (encode c m)) < 2 ^ 32" using small by (simp add: frame_def)
  then obtain p1 where p1: "AddNewData new_parser (rmessage x) = Ret p1" "wf_parser p1"
      "unread p1 = frame (encode c m)"
    using AddNewData_refines [OF wf_new_parser, of "rmessage x"] assms(4) by auto
  have sp: "split_frame (unread p1) = Some (encode c m, [])"
    using p1(3) small split_frame_frame [of "encode c m" "[]"] by simp
  then have "HasCompleteMessage p1" using wf_complete_iff [OF p1(2)] by simp
  moreover from this have "overflow_message_data p1 = []"
    using wf_complete_split [OF p1(2)] sp by simp
  moreover have "DoReceive_loop timed new_parser (x # xs) [] None (receive_queue n) =
      DoReceive_loop timed p1 xs [] (Some (endpoint x)) (receive_queue n)"
    using assms(5) p1(1) by (subst DoReceive_loop.simps) (simp add: next_response_def)
  moreover obtain p2 where "GetMessage c p1 = Ret (Some m, p2)"
    using GetMessage_encoded [OF p1(2) assms(1,2) sp] by blast
  ultimately show ?thesis
    using assms(3) by (simp add: DoReceive_def HasOverflow_def DoReceive_loop.simps [of timed p1])
qed

theorem DoReceive_drops_saved_witness:
  "\<exists>n'. DoReceive raw_codec False True (new_node\<lparr>un_processed_messages :=
      [\<lparr>rmessage = [0, 0, 0, 1, 7], endpoint = \<lparr>hostname = ''a'', port = 1\<rparr>, rstatus = 5\<rparr>,
       \<lparr>rmessage = [0, 0, 0, 1, 8], endpoint = \<lparr>hostname = ''b'', port = 2\<rparr>, rstatus = 5\<rparr>]\<rparr>) =
      Ret (Some [7], Some \<lparr>hostname = ''a'', port = 1\<rparr>, n') \<and>
    un_processed_messages n' = [] \<and> queue (receive_queue n') = []"
  using DoReceive_drops_saved [OF raw_codec_ok, of "[7]" "new_node\<lparr>un_processed_messages :=
      [\<lparr>rmessage = [0, 0, 0, 1, 7], endpoint = \<lparr>hostname = ''a'', port = 1\<rparr>, rstatus = 5\<rparr>,
       \<lparr>rmessage = [0, 0, 0, 1, 8], endpoint = \<lparr>hostname = ''b'', port = 2\<rparr>, rstatus = 5\<rparr>]\<rparr>"
      "\<lparr>rmessage = [0, 0, 0, 1, 7], endpoint = \<lparr>hostname = ''a'', port = 1\<rparr>, rstatus = 5\<rparr>"
      "[\<lparr>rmessage = [0, 0, 0, 1, 8], endpoint = \<lparr>hostname = ''b'', port = 2\<rparr>, rstatus = 5\<rparr>]" False]
  by (auto simp: raw_codec_def frame_def encode_def htonl_bytes_def new_node_def new_queue_def)

text \<open>
  A send that times out loses its place: the task puts the message back at the end of
  the queue, so a later message overtakes it.
\<close>

theorem SenderTask_timeout_reorders:
  assumes "queue q = [m1, m2]" and "max_length q = 0" and "tx s = [TxErr e]" and "is_timeout e"
  shows "\<exists>q' s' res'. run_sender 3 q s res = Ret (q', s', res') \<and> queue q' = [] \<and>
    wire s' = wire s @ smessage m2 @ smessage m1"
  using assms
  by (simp add: numeral_3_eq_3 SenderTask_RunAtomic_def sys_send_def Push_def is_full_def)

theorem SenderTask_timeout_reorders_witness:
  "\<exists>q' s' res'. run_sender 3
      \<lparr>max_length = 0, queue = [\<lparr>message_id = 1, smessage = [1], send_async = True\<rparr>,
                             \<lparr>message_id = 2, smessage = [2], send_async = True\<rparr>]\<rparr>
      \<lparr>rx = [], tx = [TxErr EAGAIN], wire = [], errno = NoErr\<rparr> Map.empty = Ret (q', s', res') \<and>
    queue q' = [] \<and> wire s' = [2, 1]"
  using SenderTask_timeout_reorders [of "\<lparr>max_length = 0, queue =
      [\<lparr>message_id = 1, smessage = [1], send_async = True\<rparr>,
       \<lparr>message_id = 2, smessage = [2], send_async = True\<rparr>]\<rparr>"
      "\<lparr>message_id = 1, smessage = [1], send_async = True\<rparr>"
      "\<lparr>message_id = 2, smessage = [2], send_async = True\<rparr>"
      "\<lparr>rx = [], tx = [TxErr EAGAIN], wire = [], errno = NoErr\<rparr>" EAGAIN Map.empty]
  by (simp add: is_timeout_def)

text \<open>
  A failed connection attempt leaves a sender behind. \<open>EnsureConnected\<close> starts the tasks
  even when the connection failed; after a later, successful attempt the sender with the
  invalid descriptor still serves the same queue, and the message it takes is never sent.
\<close>

theorem failed_connect_leaves_sender:
  assumes "codec_ok c" and "ByteSizeLong c m < 2 ^ 31" and "client_fd k < 0"
    and "connect_results k = [-1, f]" and "0 \<le> f" and "send_queue k = new_queue 0"
  shows "\<exists>k1 k2 i q res s'. Client_DispatchSend c m False k = Ret (None, k1) \<and>
    Client_DispatchSend c m False k1 = Ret (Some i, k2) \<and> senders k2 = senders k @ [-1, f] \<and>
    SenderTask_RunAtomic (send_queue k2) bad_fd (send_results k2) = Ret (RUNNING, q, s', res) \<and>
    queue q = [] \<and> res i = Some (-1)"
  using assms Serialize_frame [OF assms(1,2)]
  by (simp add: Client_DispatchSend_def Client_EnsureConnected_def Let_def new_queue_def
      SenderTask_RunAtomic_def PopTimed_def sys_send_def bad_fd_def is_timeout_def)

theorem failed_connect_leaves_sender_witness:
  "\<exists>k1 k2 i q res s'. Client_DispatchSend raw_codec [7] False
      \<lparr>base = new_node, dest = \<lparr>hostname = ''h'', port = 1\<rparr>, client_fd = -1, connect_results = [-1, 4],
       send_queue = new_queue 0, senders = [], receivers = [], send_results = Map.empty,
       last_message_id = 0\<rparr> = Ret (None, k1) \<and>
    Client_DispatchSend raw_codec [7] False k1 = Ret (Some i, k2) \<and> senders k2 = [] @ [-1, 4] \<and>
    SenderTask_RunAtomic (send_queue k2) bad_fd (send_results k2) = Ret (RUNNING, q, s', res) \<and>
    queue q = [] \<and> res i = Some (-1)"
  using failed_connect_leaves_sender [OF raw_codec_ok, of "[7]"
      "\<lparr>base = new_node, dest = \<lparr>hostname = ''h'', port = 1\<rparr>, client_fd = -1, connect_results = [-1, 4],
       send_queue = new_queue 0, senders = [], receivers = [], send_results = Map.empty,
       last_message_id = 0\<rparr>" 4]
  by (simp add: raw_codec_def)

text \<open>
  A client \<open>A\<close> connects and leaves, a client \<open>B\<close> is given the same descriptor, and a message is
  sent to \<open>A\<close>.
\<close>

definition misdelivery :: "'m codec \<Rightarrow> 'm \<Rightarrow> Endpoint \<Rightarrow> Endpoint \<Rightarrow> int \<Rightarrow> sock \<Rightarrow> sock \<Rightarrow> (bool \<times> mp_server) outcome" where
  "misdelivery c m A B f sa sb =
     obind (server_task_step 1 (snd (ServerTask_RunAtomic (Accepted f A sa) new_server))) (\<lambda>sv1.
     obind (Server_SendAsync c m A (snd (ServerTask_RunAtomic (Accepted f B sb) sv1))) (\<lambda>(ok, sv2).
     obind (server_task_step 0 sv2) (\<lambda>sv3. Ret (ok, sv3))))"

text \<open>
  A message can reach the wrong client. When client \<open>A\<close> disconnects, its receiver fails and
  the next round of the server task closes the descriptor, but the sender of \<open>A\<close> keeps running
  and \<open>A\<close> stays in \<open>GetConnected\<close>. If the next connection, of client \<open>B\<close>, gets the same
  descriptor, a message sent to \<open>A\<close> is accepted and ends up on the socket of \<open>B\<close>.
\<close>

theorem closed_descriptor_misdelivers:
  assumes "codec_ok c" and "ByteSizeLong c m < 2 ^ 31" and "A \<noteq> B"
    and "rx sa = [RxEof]" and "tx sb = []"
  shows "\<exists>sv sb'. misdelivery c m A B f sa sb = Ret (True, sv) \<and> A \<in> GetConnected sv \<and>
    sockets sv = [f \<mapsto> sb'] \<and> wire sb' = wire sb @ frame (encode c m)"
  using assms Serialize_frame [OF assms(1,2)]
  by (simp add: misdelivery_def ServerTask_RunAtomic_def CloseDisconnected_def new_server_def
      server_task_step_def ReceiverTask_RunAtomic_def sys_recv_def sock_of_def put_sock_def new_node_def
      new_queue_def Server_SendAsync_def Server_DispatchSend_def Server_EnsureConnected_def Let_def
      SenderTask_RunAtomic_def PopTimed_def sys_send_def GetConnected_def)
    (intro conjI impI exI [of _ "sb\<lparr>wire := wire sb @ frame (encode c m)\<rparr>"], simp_all)

theorem closed_descriptor_misdelivers_witness:
  "\<exists>sv sb'. misdelivery raw_codec [7] \<lparr>hostname = ''a'', port = 1\<rparr> \<lparr>hostname = ''b'', port = 2\<rparr> 5
      \<lparr>rx = [RxEof], tx = [], wire = [], errno = NoErr\<rparr> \<lparr>rx = [], tx = [], wire = [], errno = NoErr\<rparr> =
      Ret (True, sv) \<and> \<lparr>hostname = ''a'', port = 1\<rparr> \<in> GetConnected sv \<and>
    sockets sv = [5 \<mapsto> sb'] \<and> wire sb' = [0, 0, 0, 1, 7]"
  using closed_descriptor_misdelivers [OF raw_codec_ok, of "[7]" "\<lparr>hostname = ''a'', port = 1\<rparr>"
      "\<lparr>hostname = ''b'', port = 2\<rparr>" "\<lparr>rx = [RxEof], tx = [], wire = [], errno = NoErr\<rparr>"
      "\<lparr>rx = [], tx = [], wire = [], errno = NoErr\<rparr>" 5]
  by (simp add: raw_codec_def frame_def encode_def htonl_bytes_def)

end
