(* ===== verification/Node_Lifetime.thy ===== *)
theory Node_Lifetime
  imports Message_Passing Socket_Setup
begin

text \<open>
  The rest of \<open>common/message_passing\<close>: requests with a response, synchronous sends of a server,
  and what happens when clients and servers are created and destroyed. A destructor cancels the
  tasks of its node; a cancelled task does not start another iteration, so how many iterations a
  task gets before that is an argument. Descriptors that are closed leave \<open>sockets\<close>.
\<close>

section \<open>Clients\<close>

text \<open>\<open>connects\<close> are the results of the connection attempts to come.\<close>

definition new_Client :: "Endpoint \<Rightarrow> int list \<Rightarrow> mp_client" where
  "new_Client ep connects =
     \<lparr>base = new_node, dest = ep, client_fd = -1, connect_results = connects, send_queue = new_queue 0,
      senders = [], receivers = [], send_results = Map.empty, last_message_id = 0\<rparr>"

text \<open>
  \<open>SendRequest\<close>: send, then receive without a timeout, while the receiver task makes \<open>n\<close>
  iterations on the same socket.
\<close>

definition Client_SendRequest ::
  "'m codec \<Rightarrow> 'r codec \<Rightarrow> nat \<Rightarrow> 'm \<Rightarrow> sock \<Rightarrow> mp_client \<Rightarrow> ('r option \<times> sock \<times> mp_client) outcome" where
  "Client_SendRequest c c' n request s k =
     obind (Client_Send c request s k) (\<lambda>(sent, s1, k1).
       if sent < 0 then Ret (None, s1, k1)
       else case Client_EnsureConnected k1 of
              (ok, k2) \<Rightarrow>
                obind (run_receiver n (dest k2) s1 (receive_queue (base k2))) (\<lambda>(st, s2, q).
                obind (DoReceive c' False ok ((base k2)\<lparr>receive_queue := q\<rparr>)) (\<lambda>(response, ep, b).
                  Ret (response, s2, k2\<lparr>base := b\<rparr>))))"

text \<open>
  The destructors of \<open>Client\<close> and \<open>Node\<close>: the last sender and the receivers are cancelled, the
  descriptor is closed. What is left are the senders of earlier, failed attempts.
\<close>

definition Node_destroy :: "mp_client \<Rightarrow> mp_client" where
  "Node_destroy k = k\<lparr>receivers := []\<rparr>"

definition Client_destroy :: "mp_client \<Rightarrow> fd_table \<Rightarrow> mp_client \<times> fd_table" where
  "Client_destroy k t = (Node_destroy (k\<lparr>senders := butlast (senders k)\<rparr>), t(client_fd k := None))"

text \<open>
  A client that lives for one \<open>SendAsync\<close>, as the name servers use it, whose sender gets
  \<open>n\<close> iterations before the destructor cancels it.
\<close>

definition temporary_client_send ::
  "'m codec \<Rightarrow> 'm \<Rightarrow> Endpoint \<Rightarrow> int list \<Rightarrow> nat \<Rightarrow> sock \<Rightarrow> (bool \<times> sock) outcome" where
  "temporary_client_send c m ep connects n s =
     obind (Client_SendAsync c m (new_Client ep connects)) (\<lambda>(ok, k).
     obind (run_sender n (send_queue k) s (send_results k)) (\<lambda>(q, s', res). Ret (ok, s')))"

section \<open>Servers\<close>

text \<open>
  A synchronous \<open>Send\<close>: while the caller waits, the tasks with the indices \<open>sched\<close> run.
\<close>

fun run_server_tasks :: "nat list \<Rightarrow> mp_server \<Rightarrow> mp_server outcome" where
  "run_server_tasks [] sv = Ret sv"
| "run_server_tasks (i # is) sv = obind (server_task_step i sv) (run_server_tasks is)"

definition Server_Send ::
  "'m codec \<Rightarrow> 'm \<Rightarrow> Endpoint \<Rightarrow> nat list \<Rightarrow> mp_server \<Rightarrow> (int \<times> mp_server) outcome" where
  "Server_Send c m ep sched sv =
     obind (Server_DispatchSend c m ep False sv) (\<lambda>(i, sv1).
       case i of
         None \<Rightarrow> Ret (-1, sv1)
       | Some j \<Rightarrow> obind (run_server_tasks sched sv1) (Server_Send_result j))"

definition ServerTask_SetUp :: "listen_calls \<Rightarrow> u16 \<Rightarrow> fd_table \<Rightarrow> status \<times> int \<times> fd_table" where
  "ServerTask_SetUp lk listen_port t =
     (case message_passing_SetUpListenerSocket lk (MakeAddress listen_port) t of
        (f, t') \<Rightarrow> (if f < 0 then FAILED else RUNNING, f, t'))"

definition cancel_owned :: "mp_server \<Rightarrow> mp_server" where
  "cancel_owned sv =
     sv\<lparr>stasks := map (\<lambda>(i, t). if i \<in> owned sv \<and> tstatus t = RUNNING then t\<lparr>tstatus := CANCELLED\<rparr> else t)
          (enumerate 0 (stasks sv))\<rparr>"

text \<open>\<open>server_socket\<close> is the descriptor of the listening socket.\<close>

definition ServerTask_CleanUp :: "int \<Rightarrow> mp_server \<Rightarrow> mp_server" where
  "ServerTask_CleanUp server_socket sv =
     (let sv1 = cancel_owned sv;
          fds = (\<lambda>i. fd (stasks sv1 ! i)) ` {i \<in> owned sv1. i < length (stasks sv1)}
      in sv1\<lparr>sockets := (sockets sv1) |` (- insert server_socket fds)\<rparr>)"

text \<open>The destructor of \<open>Server\<close> waits until the server task has cleaned up.\<close>

definition Server_destroy :: "int \<Rightarrow> mp_server \<Rightarrow> mp_server" where
  "Server_destroy server_socket sv = (ServerTask_CleanUp server_socket sv)\<lparr>server_status := CANCELLED\<rparr>"

section \<open>Properties\<close>

lemma Client_Send_single:
  assumes "codec_ok c" and "ByteSizeLong c m < 2 ^ 31" and "0 \<le> client_fd k" and "tx s = []"
    and "send_queue k = new_queue 0"
  shows "\<exists>k'. Client_Send c m s k = Ret (int (length (frame (encode c m))), s\<lparr>wire := wire s @ frame (encode c m)\<rparr>, k') \<and>
    client_fd k' = client_fd k \<and> base k' = base k \<and> dest k' = dest k \<and> send_queue k' = new_queue 0"
proof -
  note ser = Serialize_frame [OF assms(1,2)]
  show ?thesis
    using assms(3-5) ser
    by (simp add: Client_Send_def Client_DispatchSend_def Client_EnsureConnected_def Let_def new_queue_def
        SenderTask_RunAtomic_def sys_send_def Client_Send_result_def)
qed

text \<open>
  C25. A request gets its response. When a connected client sends a request on a connection that
  takes it, and the stream from the server starts with a serialized response, in any segments,
  then \<open>SendRequest\<close> puts the request on the wire and returns the response, after finitely many
  iterations of the receiver.
\<close>

theorem SendRequest_gets_response:
  assumes "codec_ok c" and "ByteSizeLong c m < 2 ^ 31" and "codec_ok c'" and "ByteSizeLong c' r < 2 ^ 31"
    and "0 \<le> client_fd k" and "tx s = []" and "send_queue k = new_queue 0" and "base k = new_node"
    and "rx_stream (rx s) = snd (Serialize c' r []) @ rest"
  shows "\<exists>n s' k'. Client_SendRequest c c' n m s k = Ret (Some r, s', k') \<and>
    wire s' = wire s @ snd (Serialize c m [])"
proof -
  let ?F = "frame (encode c m)"
  let ?s = "s\<lparr>wire := wire s @ ?F\<rparr>"
  obtain k1 where k1: "Client_Send c m s k = Ret (int (length ?F), ?s, k1)" "client_fd k1 = client_fd k"
      "base k1 = new_node" "dest k1 = dest k"
    using Client_Send_single [OF assms(1,2,5-7)] assms(8) by auto
  have ok: "Client_EnsureConnected k1 = (True, k1)" using k1(2) assms(5) by (simp add: Client_EnsureConnected_def)
  obtain n s2 q where r: "run_receiver n (dest k1) ?s (receive_queue new_node) = Ret (RUNNING, s2, q)"
      "payload (queue q) = rx_stream (rx s)" "data_from (dest k1) (queue q)"
    using run_receiver_stream [of "receive_queue new_node" "dest k1" ?s] by (auto simp: new_node_def new_queue_def)
  have w: "wire s2 = wire ?s"
    using r(1) run_receiver_wire by blast
  have "\<exists>b. DoReceive c' False True (new_node\<lparr>receive_queue := q\<rparr>) = Ret (Some r, Some (dest k1), b)"
    using DoReceive_next [OF assms(3,4), of "new_node\<lparr>receive_queue := q\<rparr>" "dest k1" rest False] r(2,3) assms(9)
      Serialize_frame [OF assms(3,4)]
    by (auto simp: new_node_def)
  then obtain b where "DoReceive c' False True (new_node\<lparr>receive_queue := q\<rparr>) = Ret (Some r, Some (dest k1), b)" ..
  then have "Client_SendRequest c c' n m s k = Ret (Some r, s2, k1\<lparr>base := b\<rparr>)"
    using k1 ok r(1) by (simp add: Client_SendRequest_def)
  then show ?thesis using w Serialize_frame [OF assms(1,2)] by auto
qed

theorem SendRequest_gets_response_witness:
  "\<exists>n s' k'. Client_SendRequest raw_codec raw_codec n [7]
      \<lparr>rx = [RxData [0, 0, 0], RxData [2, 8], RxData [9, 1]], tx = [], wire = [], errno = NoErr\<rparr>
      ((new_Client \<lparr>hostname = ''h'', port = 1\<rparr> [])\<lparr>client_fd := 4\<rparr>) = Ret (Some [8, 9], s', k') \<and>
    wire s' = [0, 0, 0, 1, 7]"
  using SendRequest_gets_response [OF raw_codec_ok _ raw_codec_ok, of "[7]" "[8, 9]"
      "(new_Client \<lparr>hostname = ''h'', port = 1\<rparr> [])\<lparr>client_fd := 4\<rparr>"
      "\<lparr>rx = [RxData [0, 0, 0], RxData [2, 8], RxData [9, 1]], tx = [], wire = [], errno = NoErr\<rparr>" "[1]"]
  by (simp add: raw_codec_def new_Client_def Serialize_def resize_def htonl_bytes_def)

text \<open>
  A message sent asynchronously by a temporary client may be lost. \<open>SendAsync\<close> has reported
  success when the destructor cancels the sender: if the sender has not taken the message from
  the queue by then, nothing is ever sent; one iteration before that is enough to send it.
\<close>

theorem temporary_client_race:
  assumes "codec_ok c" and "ByteSizeLong c m < 2 ^ 31" and "0 \<le> f" and "tx s = []"
  shows "temporary_client_send c m ep [f] 0 s = Ret (True, s) \<and>
    temporary_client_send c m ep [f] (Suc n) s = Ret (True, s\<lparr>wire := wire s @ snd (Serialize c m [])\<rparr>)"
proof -
  have idle: "run_sender n \<lparr>max_length = 0, queue = []\<rparr> s' res = Ret (\<lparr>max_length = 0, queue = []\<rparr>, s', res)" for s' res
    by (induction n) (simp_all add: SenderTask_RunAtomic_def)
  show ?thesis
    using assms(3,4) Serialize_frame [OF assms(1,2)] idle
    by (simp add: temporary_client_send_def Client_SendAsync_def Client_DispatchSend_def Client_EnsureConnected_def
        new_Client_def new_queue_def Let_def SenderTask_RunAtomic_def sys_send_def)
qed

theorem temporary_client_race_witness:
  "temporary_client_send raw_codec [7] \<lparr>hostname = ''h'', port = 1\<rparr> [4] 0
      \<lparr>rx = [], tx = [], wire = [], errno = NoErr\<rparr> = Ret (True, \<lparr>rx = [], tx = [], wire = [], errno = NoErr\<rparr>) \<and>
   temporary_client_send raw_codec [7] \<lparr>hostname = ''h'', port = 1\<rparr> [4] (Suc 0)
      \<lparr>rx = [], tx = [], wire = [], errno = NoErr\<rparr> = Ret (True, \<lparr>rx = [], tx = [], wire = [0, 0, 0, 1, 7], errno = NoErr\<rparr>)"
  using temporary_client_race [OF raw_codec_ok, of "[7]" 4 "\<lparr>rx = [], tx = [], wire = [], errno = NoErr\<rparr>"
      "\<lparr>hostname = ''h'', port = 1\<rparr>" 0]
  by (simp add: raw_codec_def Serialize_def resize_def htonl_bytes_def)

text \<open>
  When a server task cleans up, no task of a client it still knows is running, and their
  descriptors and that of the listening socket are closed. (Tasks that \<open>CloseDisconnected\<close> has
  dropped from the set are not cancelled.)
\<close>

theorem server_cleanup_closes:
  assumes "i \<in> owned sv" and "i < length (stasks sv)"
  shows "tstatus (stasks (Server_destroy f sv) ! i) \<noteq> RUNNING \<and>
    sockets (Server_destroy f sv) (fd (stasks sv ! i)) = None \<and> sockets (Server_destroy f sv) f = None"
proof -
  have "fd (stasks (cancel_owned sv) ! i) = fd (stasks sv ! i)"
    "tstatus (stasks (cancel_owned sv) ! i) \<noteq> RUNNING" "length (stasks (cancel_owned sv)) = length (stasks sv)"
    using assms by (auto simp: cancel_owned_def nth_enumerate_eq)
  then show ?thesis
    using assms by (auto simp: Server_destroy_def ServerTask_CleanUp_def Let_def cancel_owned_def restrict_map_def image_iff)
qed

end
