(* ===== verification/Client_Sends.thy ===== *)
theory Client_Sends
  imports Message_Passing
begin

text \<open>
  Concurrent sends of a message-passing client (\<open>client.cpp\<close>, \<open>sender_task.cpp\<close>). Any number of
  threads call \<open>Send\<close> and \<open>SendAsync\<close> of a connected client; the sender task serves the queue. Every
  rule of \<open>send_step\<close> is one atomic access: the increment of the atomic counter, a push or a pop of
  the queue, a critical section of the mutex that guards \<open>send_results_\<close>, a notification. Waiting
  threads may wake up spuriously.

  The lemmas: identifiers in use are distinct, nobody waits for a result that is not on its way,
  and a wake-up cannot be lost; so no call of \<open>Send\<close> waits for ever, and it returns the result of
  sending its own message.
\<close>

section \<open>State\<close>

datatype 'm caller_pc =
    C_Out
  | C_Start bool 'm
  | C_Push SendQueueMessage
  | C_Check u64
  | C_Wait u64
  | C_Woken u64
  | C_Done "u64 option" int

datatype sender_pc = T_Idle | T_Send SendQueueMessage | T_Report u64 int | T_Notify

text \<open>
  \<open>sd_reports\<close> remembers every result that the callback was given; the program keeps only those
  that have not been fetched, in \<open>sd_results\<close>.
\<close>

record 'm send_state =
  sd_last :: u64
  sd_queue :: "SendQueueMessage list"
  sd_sock :: sock
  sd_results :: "u64 \<rightharpoonup> int"
  sd_sender :: sender_pc
  sd_callers :: "nat \<Rightarrow> 'm caller_pc"
  sd_reports :: "u64 \<rightharpoonup> int"

definition new_sends :: "sock \<Rightarrow> 'm send_state" where
  "new_sends s =
     \<lparr>sd_last = 0, sd_queue = [], sd_sock = s, sd_results = Map.empty, sd_sender = T_Idle,
      sd_callers = (\<lambda>t. C_Out), sd_reports = Map.empty\<rparr>"

abbreviation set_caller :: "nat \<Rightarrow> 'm caller_pc \<Rightarrow> 'm send_state \<Rightarrow> 'm send_state" where
  "set_caller t pc s \<equiv> s\<lparr>sd_callers := (sd_callers s)(t := pc)\<rparr>"

text \<open>\<open>notify_all()\<close>.\<close>

definition wake :: "'m caller_pc \<Rightarrow> 'm caller_pc" where
  "wake pc = (case pc of C_Wait i \<Rightarrow> C_Woken i | _ \<Rightarrow> pc)"

section \<open>Steps\<close>

inductive send_step :: "'m codec \<Rightarrow> 'm send_state \<Rightarrow> 'm send_state \<Rightarrow> bool" for c where
  call: "sd_callers s t = C_Out \<Longrightarrow> send_step c s (set_caller t (C_Start async m) s)"
| assign: "\<lbrakk>sd_callers s t = C_Start async m; Serialize c m [] = (True, bs); i = sd_last s + 1\<rbrakk> \<Longrightarrow>
    send_step c s (set_caller t (C_Push \<lparr>message_id = i, smessage = bs, send_async = async\<rparr>) (s\<lparr>sd_last := i\<rparr>))"
| assign_fail: "\<lbrakk>sd_callers s t = C_Start async m; Serialize c m [] = (False, bs)\<rbrakk> \<Longrightarrow>
    send_step c s (set_caller t (C_Done None (-1)) (s\<lparr>sd_last := sd_last s + 1\<rparr>))"
| push: "sd_callers s t = C_Push q \<Longrightarrow>
    send_step c s (set_caller t (if send_async q then C_Out else C_Check (message_id q)) (s\<lparr>sd_queue := sd_queue s @ [q]\<rparr>))"
| fetch: "\<lbrakk>sd_callers s t = C_Check i \<or> sd_callers s t = C_Woken i; sd_results s i = Some r\<rbrakk> \<Longrightarrow>
    send_step c s (set_caller t (C_Done (Some i) r) (s\<lparr>sd_results := (sd_results s)(i := None)\<rparr>))"
| sleep: "\<lbrakk>sd_callers s t = C_Check i \<or> sd_callers s t = C_Woken i; sd_results s i = None\<rbrakk> \<Longrightarrow>
    send_step c s (set_caller t (C_Wait i) s)"
| spurious: "sd_callers s t = C_Wait i \<Longrightarrow> send_step c s (set_caller t (C_Woken i) s)"
| pop: "\<lbrakk>sd_sender s = T_Idle; sd_queue s = q # qs\<rbrakk> \<Longrightarrow> send_step c s (s\<lparr>sd_queue := qs, sd_sender := T_Send q\<rparr>)"
| sent: "\<lbrakk>sd_sender s = T_Send q; sys_send (smessage q) (sd_sock s) = (Inr n, x)\<rbrakk> \<Longrightarrow>
    send_step c s (s\<lparr>sd_sock := x, sd_sender := (if send_async q then T_Idle else T_Report (message_id q) (int n))\<rparr>)"
| timeout: "\<lbrakk>sd_sender s = T_Send q; sys_send (smessage q) (sd_sock s) = (Inl e, x); is_timeout e\<rbrakk> \<Longrightarrow>
    send_step c s (s\<lparr>sd_sock := x, sd_queue := sd_queue s @ [q], sd_sender := T_Idle\<rparr>)"
| failed: "\<lbrakk>sd_sender s = T_Send q; sys_send (smessage q) (sd_sock s) = (Inl e, x); \<not> is_timeout e\<rbrakk> \<Longrightarrow>
    send_step c s (s\<lparr>sd_sock := x, sd_sender := (if send_async q then T_Idle else T_Report (message_id q) (-1))\<rparr>)"
| report: "sd_sender s = T_Report i r \<Longrightarrow>
    send_step c s (s\<lparr>sd_results := (sd_results s)(i \<mapsto> r), sd_reports := (sd_reports s)(i \<mapsto> r), sd_sender := T_Notify\<rparr>)"
| notify: "sd_sender s = T_Notify \<Longrightarrow>
    send_step c s (s\<lparr>sd_callers := wake \<circ> sd_callers s, sd_sender := T_Idle\<rparr>)"

inductive send_run :: "'m codec \<Rightarrow> 'm send_state \<Rightarrow> nat \<Rightarrow> 'm send_state \<Rightarrow> bool" for c s where
  run_start: "send_run c s 0 s"
| run_step: "send_run c s n s' \<Longrightarrow> send_step c s' s'' \<Longrightarrow> send_run c s (Suc n) s''"

section \<open>Identifiers\<close>

fun pc_id :: "'m caller_pc \<Rightarrow> u64 option" where
  "pc_id (C_Push q) = Some (message_id q)"
| "pc_id (C_Check i) = Some i"
| "pc_id (C_Wait i) = Some i"
| "pc_id (C_Woken i) = Some i"
| "pc_id _ = None"

fun sender_id :: "sender_pc \<Rightarrow> u64 list" where
  "sender_id (T_Send q) = [message_id q]"
| "sender_id (T_Report i r) = [i]"
| "sender_id _ = []"

definition pending_ids :: "'m send_state \<Rightarrow> u64 list" where
  "pending_ids s = map message_id (sd_queue s) @ sender_id (sd_sender s)"

definition callers_distinct :: "(nat \<Rightarrow> 'm caller_pc) \<Rightarrow> bool" where
  "callers_distinct f \<longleftrightarrow> (\<forall>t u i. pc_id (f t) = Some i \<longrightarrow> pc_id (f u) = Some i \<longrightarrow> t = u)"

definition ids_inv :: "'m send_state \<Rightarrow> bool" where
  "ids_inv s \<longleftrightarrow>
     callers_distinct (sd_callers s) \<and> distinct (pending_ids s) \<and>
     (\<forall>t i. pc_id (sd_callers s t) = Some i \<longrightarrow> i \<le> sd_last s) \<and>
     (\<forall>i \<in> set (pending_ids s). i \<le> sd_last s \<and> sd_reports s i = None) \<and>
     (\<forall>i. sd_reports s i \<noteq> None \<longrightarrow> i \<le> sd_last s) \<and>
     (\<forall>t q. sd_callers s t = C_Push q \<longrightarrow> message_id q \<notin> set (pending_ids s) \<and> sd_reports s (message_id q) = None)"

lemma callers_distinct_update:
  assumes "callers_distinct f" and "\<And>u i. u \<noteq> t \<Longrightarrow> pc_id pc = Some i \<Longrightarrow> pc_id (f u) \<noteq> Some i"
  shows "callers_distinct (f(t := pc))"
  using assms by (auto simp: callers_distinct_def)

lemma callers_distinct_other:
  "callers_distinct f \<Longrightarrow> pc_id (f t) = Some i \<Longrightarrow> u \<noteq> t \<Longrightarrow> pc_id (f u) \<noteq> Some i"
  by (auto simp: callers_distinct_def)

lemma callers_distinct_keep:
  "callers_distinct f \<Longrightarrow> pc_id pc = pc_id (f t) \<or> pc_id pc = None \<Longrightarrow> callers_distinct (f(t := pc))"
  by (rule callers_distinct_update) (metis callers_distinct_other option.distinct(1))+

lemma wake_pc_id [simp]: "pc_id (wake pc) = pc_id pc"
  by (cases pc) (simp_all add: wake_def)

lemma wake_simps [simp]:
  "wake pc = C_Push q \<longleftrightarrow> pc = C_Push q" "wake pc = C_Done j r \<longleftrightarrow> pc = C_Done j r" "wake pc = C_Check i \<longleftrightarrow> pc = C_Check i"
  "wake pc \<noteq> C_Wait i" "wake pc = C_Woken i \<longleftrightarrow> pc = C_Woken i \<or> pc = C_Wait i"
  by (cases pc; auto simp: wake_def)+

lemma next_id: "unat i + 1 < 2 ^ 64 \<Longrightarrow> i < i + 1" for i :: u64
  by (simp add: word_less_nat_alt unat_word_ariths)

text \<open>A caller moves on with the id it has, or without one.\<close>

lemma ids_inv_caller:
  assumes "ids_inv s" and "pc_id pc = pc_id (sd_callers s t) \<or> pc_id pc = None" and "\<And>q. pc \<noteq> C_Push q"
  shows "ids_inv (set_caller t pc s)"
  using assms callers_distinct_keep [of "sd_callers s" pc t] by (auto simp: ids_inv_def pending_ids_def)

lemma ids_inv_assign:
  assumes "ids_inv s" and "sd_last s < sd_last s + 1" and "message_id q = sd_last s + 1"
  shows "ids_inv (set_caller t (C_Push q) (s\<lparr>sd_last := sd_last s + 1\<rparr>))"
proof -
  let ?i = "sd_last s + 1"
  have below: "i \<le> ?i \<and> i \<noteq> ?i" if "i \<le> sd_last s" for i using assms(2) that by auto
  have old: "i \<le> sd_last s" if "pc_id (sd_callers s u) = Some i \<or> i \<in> set (pending_ids s) \<or> sd_reports s i \<noteq> None" for i u
    using assms(1) that unfolding ids_inv_def by blast
  have "callers_distinct ((sd_callers s)(t := C_Push q))"
    using assms(1,3) old below by (intro callers_distinct_update) (auto simp: ids_inv_def)
  moreover have "?i \<notin> set (pending_ids s)" "sd_reports s ?i = None" using old below by blast+
  ultimately show ?thesis using assms(1,3) below by (auto simp: ids_inv_def pending_ids_def)
qed

lemma ids_inv_last:
  assumes "ids_inv s" and "sd_last s < i"
  shows "ids_inv (s\<lparr>sd_last := i\<rparr>)"
proof -
  have "j \<le> sd_last s \<Longrightarrow> j \<le> i" for j using assms(2) by simp
  then show ?thesis using assms(1) by (simp add: ids_inv_def pending_ids_def)
qed

lemma ids_inv_push:
  assumes "ids_inv s" and "sd_callers s t = C_Push q" and "pc_id pc = Some (message_id q) \<or> pc_id pc = None"
    and "\<And>q. pc \<noteq> C_Push q"
  shows "ids_inv (set_caller t pc (s\<lparr>sd_queue := sd_queue s @ [q]\<rparr>))"
proof -
  have "pc_id (sd_callers s t) = Some (message_id q)" using assms(2) by simp
  then have "message_id q \<le> sd_last s" using assms(1) unfolding ids_inv_def by blast
  moreover have "message_id q \<notin> set (pending_ids s)" "sd_reports s (message_id q) = None"
    using assms(1,2) unfolding ids_inv_def by blast+
  moreover have "message_id q' \<noteq> message_id q" if "sd_callers s u = C_Push q'" "u \<noteq> t" for u q'
    using callers_distinct_other [of "sd_callers s" t "message_id q" u] assms(1,2) that by (auto simp: ids_inv_def)
  moreover have "callers_distinct ((sd_callers s)(t := pc))"
    using assms by (intro callers_distinct_keep) (auto simp: ids_inv_def)
  ultimately show ?thesis using assms by (auto simp: ids_inv_def pending_ids_def)
qed

lemma ids_inv_step:
  assumes "send_step c s s'" and "ids_inv s" and "sd_last s < sd_last s + 1 \<or> sd_last s' = sd_last s"
  shows "ids_inv s'"
  using assms(1)
proof cases
  case (assign t async m bs i)
  then have "sd_last s < sd_last s + 1" using assms(3) by simp
  then show ?thesis using ids_inv_assign [OF assms(2)] assign by simp
next
  case (assign_fail t async m bs)
  then have "sd_last s < sd_last s + 1" using assms(3) by simp
  then show ?thesis
    using ids_inv_caller [OF ids_inv_last [OF assms(2)], of _ "C_Done None (-1)" t] assign_fail by simp
next
  case (push t q)
  then show ?thesis using ids_inv_push [OF assms(2) push(2)] by auto
next
  case (fetch t i r)
  then show ?thesis using ids_inv_caller [OF assms(2), of "C_Done (Some i) r" t] by (simp add: ids_inv_def pending_ids_def)
next
  case (notify)
  then show ?thesis using assms(2) by (auto simp: ids_inv_def pending_ids_def callers_distinct_def)
next
  case (sleep t i)
  then show ?thesis using ids_inv_caller [OF assms(2), of "C_Wait i" t] by auto
next
  case (report i r)
  then show ?thesis using assms(2) by (auto simp: ids_inv_def pending_ids_def)
next
  case (call t async m)
  then show ?thesis using ids_inv_caller [OF assms(2), of "C_Start async m" t] by simp
next
  case (spurious t i)
  then show ?thesis using ids_inv_caller [OF assms(2), of "C_Woken i" t] by simp
qed (use assms(2) in \<open>auto simp: ids_inv_def pending_ids_def\<close>)

section \<open>Results\<close>

text \<open>The message with id \<open>i\<close> is on its way to a result.\<close>

definition in_flight :: "'m send_state \<Rightarrow> u64 \<Rightarrow> bool" where
  "in_flight s i \<longleftrightarrow>
     (\<exists>q \<in> set (sd_queue s). message_id q = i \<and> \<not> send_async q) \<or>
     (\<exists>q. sd_sender s = T_Send q \<and> message_id q = i \<and> \<not> send_async q) \<or> (\<exists>r. sd_sender s = T_Report i r)"

fun awaits :: "'m caller_pc \<Rightarrow> u64 option" where
  "awaits (C_Check i) = Some i"
| "awaits (C_Wait i) = Some i"
| "awaits (C_Woken i) = Some i"
| "awaits _ = None"

definition results_inv :: "'m send_state \<Rightarrow> bool" where
  "results_inv s \<longleftrightarrow>
     (\<forall>t i. awaits (sd_callers s t) = Some i \<longrightarrow> in_flight s i \<or> sd_results s i \<noteq> None) \<and>
     (\<forall>t i. sd_callers s t = C_Wait i \<longrightarrow> sd_results s i \<noteq> None \<longrightarrow> sd_sender s = T_Notify) \<and>
     (\<forall>i r. sd_results s i = Some r \<longrightarrow> sd_reports s i = Some r) \<and>
     (\<forall>t i r. sd_callers s t = C_Done (Some i) r \<longrightarrow> sd_reports s i = Some r)"

lemma awaits_pc_id: "awaits pc = Some i \<Longrightarrow> pc_id pc = Some i"
  by (cases pc) auto

lemma wake_awaits [simp]: "awaits (wake pc) = awaits pc"
  by (cases pc) (simp_all add: wake_def)

lemma results_inv_caller:
  assumes "results_inv s" and "awaits pc = awaits (sd_callers s t) \<or> awaits pc = None"
    and "\<And>i. pc = C_Wait i \<Longrightarrow> sd_results s i = None" and "\<And>i r. pc \<noteq> C_Done (Some i) r"
  shows "results_inv (set_caller t pc s)"
proof -
  have "in_flight (set_caller t pc s) i = in_flight s i" for i by (simp add: in_flight_def)
  moreover have "in_flight s i \<or> sd_results s i \<noteq> None" if "awaits pc = Some i" for i
    using assms(1,2) that unfolding results_inv_def by (metis option.distinct(1))
  ultimately show ?thesis using assms by (auto simp: results_inv_def)
qed

lemma results_inv_step:
  assumes "send_step c s s'" and "ids_inv s" and "results_inv s"
  shows "results_inv s'"
  using assms(1)
proof cases
  case (fetch t i r)
  have "pc_id (sd_callers s t) = Some i" using fetch(2) by auto
  then have "awaits (sd_callers s u) \<noteq> Some i" if "u \<noteq> t" for u
    using that assms(2) callers_distinct_other [of "sd_callers s" t i u] awaits_pc_id [of "sd_callers s u" i]
    by (auto simp: ids_inv_def)
  moreover have "sd_reports s i = Some r" using fetch assms(3) by (simp add: results_inv_def)
  ultimately show ?thesis using fetch assms(3) by (auto simp: results_inv_def in_flight_def split: if_splits)
next
  case (report i r)
  have "sd_reports s i = None" using report(2) assms(2) by (simp add: ids_inv_def pending_ids_def)
  then show ?thesis using report assms(3) by (auto simp: results_inv_def in_flight_def)
next
  case (push t q)
  then show ?thesis using assms(3) by (auto simp: results_inv_def in_flight_def)
next
  case (sleep t i)
  then show ?thesis using results_inv_caller [OF assms(3), of "C_Wait i" t] by auto
next
  case (spurious t i)
  then show ?thesis using results_inv_caller [OF assms(3), of "C_Woken i" t] by simp
qed (use assms(3) in \<open>auto simp: results_inv_def in_flight_def\<close>)

section \<open>Runs\<close>

lemma send_step_last: "send_step c s s' \<Longrightarrow> unat (sd_last s') \<le> Suc (unat (sd_last s))"
  by (induction rule: send_step.induct) (auto simp: unat_word_ariths)

lemma send_run_inv:
  assumes "send_run c (new_sends x) n s" and "n < 2 ^ 64"
  shows "ids_inv s \<and> results_inv s \<and> unat (sd_last s) \<le> n"
  using assms
proof induction
  case run_start
  show ?case
    by (simp add: new_sends_def ids_inv_def results_inv_def pending_ids_def callers_distinct_def in_flight_def)
next
  case (run_step n s' s'')
  then have inv: "ids_inv s'" "results_inv s'" "unat (sd_last s') \<le> n" by simp_all
  then have "sd_last s' < sd_last s' + 1" using run_step.prems by (intro next_id) simp
  then have "ids_inv s''" using ids_inv_step [OF run_step.hyps(2) inv(1)] by simp
  moreover have "results_inv s''" using results_inv_step [OF run_step.hyps(2) inv(1,2)] .
  ultimately show ?case using send_step_last [OF run_step.hyps(2)] inv(3) by simp
qed

text \<open>The work that is left for the sender task; every step of it makes that less.\<close>

definition sender_work :: "'m send_state \<Rightarrow> nat" where
  "sender_work s = 5 * length (sd_queue s) + 2 * length (tx (sd_sock s)) +
     (case sd_sender s of T_Idle \<Rightarrow> 0 | T_Send q \<Rightarrow> 4 | T_Report i r \<Rightarrow> 2 | T_Notify \<Rightarrow> 1)"

lemma sys_send_tx:
  "sys_send bs x = (Inl e, y) \<Longrightarrow> length (tx x) = Suc (length (tx y))"
  "sys_send bs x = (Inr n, y) \<Longrightarrow> length (tx y) \<le> length (tx x)"
  by (auto simp: sys_send_def split: list.splits tx_event.splits)

lemma sender_step:
  assumes "sd_sender s \<noteq> T_Idle \<or> sd_queue s \<noteq> []"
  shows "\<exists>s'. send_step c s s' \<and> sender_work s' < sender_work s \<and> sd_last s' = sd_last s \<and>
    (\<forall>t. sd_callers s' t = sd_callers s t \<or> sd_callers s' t = wake (sd_callers s t))"
proof (cases "sd_sender s")
  case T_Idle
  then obtain q qs where "sd_queue s = q # qs" using assms by (cases "sd_queue s") auto
  from pop [OF T_Idle this] show ?thesis using T_Idle \<open>sd_queue s = q # qs\<close>
    by (intro exI conjI) (assumption, simp_all add: sender_work_def)
next
  case (T_Send q)
  obtain r y where r: "sys_send (smessage q) (sd_sock s) = (r, y)" by fastforce
  show ?thesis
  proof (cases r)
    case (Inr n)
    from sent [OF T_Send r [unfolded Inr]] show ?thesis
      using T_Send sys_send_tx(2) [OF r [unfolded Inr]] by (intro exI conjI) (assumption, simp_all add: sender_work_def)
  next
    case (Inl e)
    note tx = sys_send_tx(1) [OF r [unfolded Inl]]
    show ?thesis
    proof (cases "is_timeout e")
      case True
      from timeout [OF T_Send r [unfolded Inl] True] show ?thesis
        using T_Send tx by (intro exI conjI) (assumption, simp_all add: sender_work_def)
    next
      case False
      from failed [OF T_Send r [unfolded Inl] False] show ?thesis
        using T_Send tx by (intro exI conjI) (assumption, simp_all add: sender_work_def)
    qed
  qed
next
  case (T_Report i r)
  from report [OF T_Report] show ?thesis
    using T_Report by (intro exI conjI) (assumption, simp_all add: sender_work_def)
next
  case T_Notify
  from notify [OF T_Notify] show ?thesis
    using T_Notify by (intro exI conjI) (assumption, simp_all add: sender_work_def)
qed

lemma send_step2: "send_step c s a \<Longrightarrow> send_step c a b \<Longrightarrow> (send_step c)\<^sup>*\<^sup>* b z \<Longrightarrow> (send_step c)\<^sup>*\<^sup>* s z"
  by (meson converse_rtranclp_into_rtranclp)

text \<open>From the result of \<open>send()\<close> to the end of the iteration.\<close>

lemma sender_reports:
  assumes "sd_sender s = (if async then T_Idle else T_Report i r)"
  shows "\<exists>s'. (send_step c)\<^sup>*\<^sup>* s s' \<and> sd_sender s' = T_Idle \<and> sd_queue s' = sd_queue s \<and> sd_sock s' = sd_sock s \<and>
    sd_results s' = (if async then sd_results s else (sd_results s)(i \<mapsto> r)) \<and> sd_last s' = sd_last s"
proof (cases async)
  case False
  let ?n = "s\<lparr>sd_results := (sd_results s)(i \<mapsto> r), sd_reports := (sd_reports s)(i \<mapsto> r), sd_sender := T_Notify\<rparr>"
  let ?i = "?n\<lparr>sd_callers := wake \<circ> sd_callers s, sd_sender := T_Idle\<rparr>"
  have "send_step c s ?n" using report [of s i r c] assms False by simp
  moreover have "send_step c ?n ?i" using notify [of ?n c] by simp
  ultimately have "(send_step c)\<^sup>*\<^sup>* s ?i" using send_step2 by blast
  then show ?thesis using False by (intro exI [of _ ?i]) simp
qed (use assms in auto)

text \<open>
  The steps of the sender task are those of \<open>SenderTask_RunAtomic\<close>: an idle sender that nobody
  interrupts gets from one idle state to the next with the queue, the socket and the results of one
  call of \<open>RunAtomic()\<close>.
\<close>

theorem sender_iteration:
  assumes "sd_sender s = T_Idle" and "queue q = sd_queue s" and "max_length q = 0"
    and "SenderTask_RunAtomic q (sd_sock s) (sd_results s) = Ret (st, q', x, res)"
  shows "\<exists>s'. (send_step c)\<^sup>*\<^sup>* s s' \<and> sd_sender s' = T_Idle \<and> sd_queue s' = queue q' \<and> sd_sock s' = x \<and>
    sd_results s' = res \<and> sd_last s' = sd_last s"
proof (cases "sd_queue s")
  case Nil
  then show ?thesis using assms by (intro exI [of _ s]) (simp add: SenderTask_RunAtomic_def)
next
  case (Cons m ms)
  let ?s1 = "s\<lparr>sd_queue := ms, sd_sender := T_Send m\<rparr>"
  have 1: "send_step c s ?s1" using pop [OF assms(1) Cons] .
  obtain r y where r: "sys_send (smessage m) (sd_sock s) = (r, y)" by fastforce
  consider (ok) n where "r = Inr n" | (later) e where "r = Inl e" "is_timeout e" | (error) e where "r = Inl e" "\<not> is_timeout e"
    by (cases r) auto
  then show ?thesis
  proof cases
    case ok
    let ?s2 = "?s1\<lparr>sd_sock := y, sd_sender := (if send_async m then T_Idle else T_Report (message_id m) (int n))\<rparr>"
    have "send_step c ?s1 ?s2" using sent [of ?s1 m n y c] r ok by simp
    then show ?thesis using assms Cons r ok send_step2 [OF 1] sender_reports [of ?s2 "send_async m" "message_id m" "int n" c]
      by (fastforce simp: SenderTask_RunAtomic_def)
  next
    case error
    let ?s2 = "?s1\<lparr>sd_sock := y, sd_sender := (if send_async m then T_Idle else T_Report (message_id m) (-1))\<rparr>"
    have "send_step c ?s1 ?s2" using failed [of ?s1 m e y c] r error by simp
    then show ?thesis using assms Cons r error send_step2 [OF 1] sender_reports [of ?s2 "send_async m" "message_id m" "-1" c]
      by (fastforce simp: SenderTask_RunAtomic_def)
  next
    case later
    let ?s2 = "?s1\<lparr>sd_sock := y, sd_queue := ms @ [m], sd_sender := T_Idle\<rparr>"
    have "send_step c ?s1 ?s2" using timeout [of ?s1 m e y c] r later by simp
    then have "(send_step c)\<^sup>*\<^sup>* s ?s2" using send_step2 [OF 1] by blast
    then show ?thesis using assms Cons r later by (intro exI [of _ ?s2]) (auto simp: SenderTask_RunAtomic_def)
  qed
qed

lemma send_drains:
  assumes "ids_inv s" and "results_inv s" and "awaits (sd_callers s t) = Some i"
  shows "\<exists>s'. (send_step c)\<^sup>*\<^sup>* s s' \<and> results_inv s' \<and> awaits (sd_callers s' t) = Some i \<and>
    sd_sender s' = T_Idle \<and> sd_queue s' = []"
  using assms
proof (induction "sender_work s" arbitrary: s rule: less_induct)
  case less
  show ?case
  proof (cases "sd_sender s = T_Idle \<and> sd_queue s = []")
    case True
    then show ?thesis using less.prems by blast
  next
    case False
    then obtain s1 where s1: "send_step c s s1" "sender_work s1 < sender_work s" "sd_last s1 = sd_last s"
      "sd_callers s1 t = sd_callers s t \<or> sd_callers s1 t = wake (sd_callers s t)"
      using sender_step [of s c] by blast
    have "ids_inv s1" using ids_inv_step [OF s1(1) less.prems(1)] s1(3) by simp
    moreover have "results_inv s1" using results_inv_step [OF s1(1) less.prems(1,2)] .
    moreover have "awaits (sd_callers s1 t) = Some i" using s1(4) less.prems(3) by auto
    ultimately show ?thesis using less.hyps [OF s1(2)] s1(1) by (meson converse_rtranclp_into_rtranclp)
  qed
qed


lemma demo_send_run:
  "\<exists>s. send_run (table_codec [True]) (new_sends \<lparr>rx = [], tx = [TxErr EAGAIN], wire = [], errno = NoErr\<rparr>) 3 s \<and>
    sd_callers s 0 = C_Check 1"
proof -
  let ?c = "table_codec [True]" and ?s0 = "new_sends \<lparr>rx = [], tx = [TxErr EAGAIN], wire = [], errno = NoErr\<rparr>"
  let ?q = "\<lparr>message_id = 1, smessage = frame (encode ?c True), send_async = False\<rparr>"
  let ?s1 = "set_caller 0 (C_Start False True) ?s0"
  let ?s2 = "set_caller 0 (C_Push ?q) (?s1\<lparr>sd_last := 1\<rparr>)"
  let ?s3 = "set_caller 0 (C_Check 1) (?s2\<lparr>sd_queue := [?q]\<rparr>)"
  have ser: "Serialize ?c True [] = (True, frame (encode ?c True))"
    by (rule Serialize_frame [OF table_codec_ok]) (simp_all add: table_codec_def)
  have "send_step ?c ?s0 ?s1" by (rule call) (simp add: new_sends_def)
  moreover have "send_step ?c ?s1 ?s2"
    using assign [OF _ ser, of ?s1 0 False 1] by (simp add: new_sends_def)
  moreover have "send_step ?c ?s2 ?s3" using push [of ?s2 0 ?q ?c] by (simp add: new_sends_def)
  ultimately have "send_run ?c ?s0 (Suc (Suc (Suc 0))) ?s3" by (meson run_start run_step)
  then show ?thesis by (intro exI [of _ ?s3]) (simp add: numeral_3_eq_3)
qed


end
