(* ===== verification/Client_Connects.thy ===== *)
theory Client_Connects
  imports Node_Lifetime
begin

text \<open>
  The first connection of a message-passing client by several threads at once.
  \<open>Client::EnsureConnected\<close> reads and writes \<open>client_fd_\<close>, \<open>sender_task_\<close> and the list of receiver tasks
  without a lock, and every send and every receive calls it. Here each of these accesses is a step of
  the calling thread. (What C++ says of concurrent writes to a \<open>shared_ptr\<close> is left aside: they take
  effect one after the other.)

  The lemmas: a call that is not interrupted is \<open>Client_EnsureConnected\<close>; once a client is connected no
  interleaving of calls changes it; and what two first calls at once do.
\<close>

section \<open>Steps\<close>

datatype connect_pc =
    Cn_Test
  | Cn_Open
  | Cn_Store int
  | Cn_Create
  | Cn_Add
  | Cn_Receiver
  | Cn_Return
  | Cn_Done bool

text \<open>\<open>cg_sender\<close> is the descriptor of \<open>sender_task_\<close>; \<open>senders\<close> of the client are the tasks given to the pool.\<close>

record connecting =
  cg_client :: mp_client
  cg_sender :: "int option"
  cg_pcs :: "connect_pc list"

definition new_connecting :: "mp_client \<Rightarrow> nat \<Rightarrow> connecting" where
  "new_connecting k n = \<lparr>cg_client = k, cg_sender = None, cg_pcs = replicate n Cn_Test\<rparr>"

fun EnsureConnected_step :: "connect_pc \<Rightarrow> mp_client \<Rightarrow> int option \<Rightarrow> (connect_pc \<times> mp_client \<times> int option) outcome" where
  "EnsureConnected_step Cn_Test k sd = Ret (if client_fd k < 0 then Cn_Open else Cn_Return, k, sd)"
| "EnsureConnected_step Cn_Open k sd =
     (case connect_results k of
        [] \<Rightarrow> Ret (Cn_Store (-1), k, sd)
      | f # fs \<Rightarrow> Ret (Cn_Store f, k\<lparr>connect_results := fs\<rparr>, sd))"
| "EnsureConnected_step (Cn_Store f) k sd = Ret (Cn_Create, k\<lparr>client_fd := f\<rparr>, sd)"
| "EnsureConnected_step Cn_Create k sd = Ret (Cn_Add, k, Some (client_fd k))"
| "EnsureConnected_step Cn_Add k sd =
     (case sd of
        None \<Rightarrow> Crash
      | Some f \<Rightarrow> Ret (Cn_Receiver, k\<lparr>senders := senders k @ [f]\<rparr>, sd))"
| "EnsureConnected_step Cn_Receiver k sd = Ret (Cn_Return, StartReceiverTask (client_fd k) k, sd)"
| "EnsureConnected_step Cn_Return k sd = Ret (Cn_Done (0 \<le> client_fd k), k, sd)"
| "EnsureConnected_step (Cn_Done b) k sd = Block"

text \<open>Thread \<open>i\<close> takes a step.\<close>

definition connect_act :: "nat \<Rightarrow> connecting \<Rightarrow> connecting outcome" where
  "connect_act i s =
     (if i < length (cg_pcs s)
      then obind (EnsureConnected_step (cg_pcs s ! i) (cg_client s) (cg_sender s)) (\<lambda>(pc, k, sd).
        Ret \<lparr>cg_client = k, cg_sender = sd, cg_pcs = (cg_pcs s)[i := pc]\<rparr>)
      else Block)"

fun connect_run :: "nat list \<Rightarrow> connecting \<Rightarrow> connecting outcome" where
  "connect_run [] s = Ret s"
| "connect_run (i # js) s = obind (connect_act i s) (connect_run js)"

section \<open>Calls that are not interrupted\<close>

text \<open>The call of thread \<open>i\<close> alone has the result and the effect of \<open>Client_EnsureConnected\<close>.\<close>

lemma EnsureConnected_alone:
  assumes "i < length (cg_pcs s)" and "cg_pcs s ! i = Cn_Test" and "Client_EnsureConnected (cg_client s) = (ok, k)"
  shows "\<exists>n sd. connect_run (replicate n i) s = Ret \<lparr>cg_client = k, cg_sender = sd, cg_pcs = (cg_pcs s)[i := Cn_Done ok]\<rparr>"
proof (cases "client_fd (cg_client s) < 0")
  case True
  then show ?thesis
    using assms by (intro exI [of _ 7]) (auto simp: Client_EnsureConnected_def connect_act_def numeral_eq_Suc Let_def split: list.splits)
next
  case False
  then show ?thesis
    using assms by (intro exI [of _ 2]) (auto simp: Client_EnsureConnected_def connect_act_def numeral_eq_Suc)
qed

section \<open>A connected client\<close>

text \<open>Threads that have not started, that found the client connected, or that have returned.\<close>

fun settled :: "connect_pc \<Rightarrow> bool" where
  "settled Cn_Test \<longleftrightarrow> True"
| "settled Cn_Return \<longleftrightarrow> True"
| "settled (Cn_Done ok) \<longleftrightarrow> ok"
| "settled _ \<longleftrightarrow> False"

definition connected_inv :: "mp_client \<Rightarrow> connecting \<Rightarrow> bool" where
  "connected_inv k s \<longleftrightarrow> cg_client s = k \<and> (\<forall>pc\<in>set (cg_pcs s). settled pc)"

lemma settled_step:
  assumes "settled pc" and "0 \<le> client_fd k" and "EnsureConnected_step pc k sd = Ret (pc', k', sd')"
  shows "settled pc' \<and> k' = k"
  using assms by (cases pc) auto

lemma connected_act:
  assumes "connected_inv k s" and "0 \<le> client_fd k" and "connect_act i s = Ret s'"
  shows "connected_inv k s'"
proof -
  obtain pc k' sd where c: "i < length (cg_pcs s)" "EnsureConnected_step (cg_pcs s ! i) k (cg_sender s) = Ret (pc, k', sd)"
      "s' = \<lparr>cg_client = k', cg_sender = sd, cg_pcs = (cg_pcs s)[i := pc]\<rparr>"
    using assms(1,3) by (auto simp: connect_act_def connected_inv_def obind_eq_Ret split: if_splits)
  have "settled (cg_pcs s ! i)" using assms(1) c(1) by (simp add: connected_inv_def)
  then have "settled pc \<and> k' = k" using settled_step assms(2) c(2) by blast
  then show ?thesis using assms(1) c(3) set_update_subset_insert [of "cg_pcs s" i pc] by (auto simp: connected_inv_def)
qed

lemma connected_run:
  "connect_run is s = Ret s' \<Longrightarrow> connected_inv k s \<Longrightarrow> 0 \<le> client_fd k \<Longrightarrow> connected_inv k s'"
  by (induction "is" arbitrary: s) (auto simp: obind_eq_Ret dest: connected_act)

section \<open>Properties\<close>

text \<open>
  C39. A client that is connected by one thread stays as it is. When the first call of \<open>EnsureConnected\<close>
  is over, with a connection, before the others begin, then in every interleaving of the others the
  client keeps that connection, with one sender and one receiver task, and every call that returns
  reports success.
\<close>

theorem connected_client_stable:
  assumes "client_fd k < 0" and "connect_results k = f # fs" and "0 \<le> f" and "i < n"
  shows "\<exists>m s. connect_run (replicate m i) (new_connecting k n) = Ret s \<and> cg_pcs s ! i = Cn_Done True \<and>
    (\<forall>is s'. connect_run is s = Ret s' \<longrightarrow>
      client_fd (cg_client s') = f \<and> senders (cg_client s') = senders k @ [f] \<and>
      receivers (cg_client s') = receivers k @ [f] \<and> (\<forall>pc\<in>set (cg_pcs s'). \<forall>ok. pc = Cn_Done ok \<longrightarrow> ok))"
proof -
  let ?k = "k\<lparr>client_fd := f, connect_results := fs, senders := senders k @ [f], receivers := receivers k @ [f]\<rparr>"
  have e: "Client_EnsureConnected k = (True, ?k)" using assms(1-3) by (simp add: Client_EnsureConnected_def)
  obtain m sd where m: "connect_run (replicate m i) (new_connecting k n) =
      Ret \<lparr>cg_client = ?k, cg_sender = sd, cg_pcs = (replicate n Cn_Test)[i := Cn_Done True]\<rparr>"
    using EnsureConnected_alone [of i "new_connecting k n" True ?k] assms(4) e by (auto simp: new_connecting_def)
  let ?s = "\<lparr>cg_client = ?k, cg_sender = sd, cg_pcs = (replicate n Cn_Test)[i := Cn_Done True]\<rparr>"
  have "connected_inv ?k ?s"
    using set_update_subset_insert [of "replicate n Cn_Test" i "Cn_Done True"] by (auto simp: connected_inv_def)
  then have inv: "connected_inv ?k s'" if "connect_run is ?s = Ret s'" for "is" s'
    using connected_run [OF that] assms(3) by simp
  show ?thesis
  proof (intro exI conjI allI impI ballI)
    show "connect_run (replicate m i) (new_connecting k n) = Ret ?s" by (rule m)
    show "cg_pcs ?s ! i = Cn_Done True" using assms(4) by simp
    fix "is" s' assume r: "connect_run is ?s = Ret s'"
    show "client_fd (cg_client s') = f" "senders (cg_client s') = senders k @ [f]" "receivers (cg_client s') = receivers k @ [f]"
      using inv [OF r] by (simp_all add: connected_inv_def)
    fix pc ok assume "pc \<in> set (cg_pcs s')" "pc = Cn_Done ok"
    then show ok using inv [OF r] by (auto simp: connected_inv_def)
  qed
qed

theorem connected_client_stable_witness:
  "\<exists>m s. connect_run (replicate m 1) (new_connecting (new_Client \<lparr>hostname = ''h'', port = 1\<rparr> [5, 6]) 3) = Ret s \<and>
    (\<forall>is s'. connect_run is s = Ret s' \<longrightarrow> client_fd (cg_client s') = 5 \<and> senders (cg_client s') = [5])"
  using connected_client_stable [of "new_Client \<lparr>hostname = ''h'', port = 1\<rparr> [5, 6]" 5 "[6]" 1 3]
  by (auto simp: new_Client_def)

text \<open>
  Two threads that send first at the same time open two connections. Both calls succeed; the client
  keeps the second descriptor only, but the sender of the first one works on the same queue of
  messages, and the destructor neither closes the first descriptor nor cancels its sender.
\<close>

theorem first_sends_open_two:
  assumes "client_fd k < 0" and "connect_results k = f # g # fs" and "0 \<le> f" and "0 \<le> g" and "f \<noteq> g" and "senders k = []"
  shows "\<exists>is s. connect_run is (new_connecting k 2) = Ret s \<and> cg_pcs s = [Cn_Done True, Cn_Done True] \<and>
    client_fd (cg_client s) = g \<and> senders (cg_client s) = [f, g] \<and>
    senders (fst (Client_destroy (cg_client s) t)) = [f] \<and> snd (Client_destroy (cg_client s) t) f = t f"
  using assms
  by (intro exI [of _ "[0, 1, 0, 1, 0, 0, 0, 0, 0, 1, 1, 1, 1, 1]"])
    (simp add: new_connecting_def connect_act_def numeral_2_eq_2 Client_destroy_def Node_destroy_def)

theorem first_sends_open_two_witness:
  "\<exists>is s. connect_run is (new_connecting (new_Client \<lparr>hostname = ''h'', port = 1\<rparr> [5, 6]) 2) = Ret s \<and>
    client_fd (cg_client s) = 6 \<and> senders (cg_client s) = [5, 6] \<and>
    snd (Client_destroy (cg_client s) [5 \<mapsto> new_fd, 6 \<mapsto> new_fd]) 5 = Some new_fd"
  using first_sends_open_two [of "new_Client \<lparr>hostname = ''h'', port = 1\<rparr> [5, 6]" 5 6 "[]" "[5 \<mapsto> new_fd, 6 \<mapsto> new_fd]"]
  by (auto simp: new_Client_def)

text \<open>
  An attempt that fails takes a connection away that another thread has made in the meantime and that
  its caller has been told of.
\<close>

theorem failed_attempt_disconnects:
  assumes "client_fd k < 0" and "connect_results k = f # -1 # fs" and "0 \<le> f"
  shows "\<exists>is s. connect_run is (new_connecting k 2) = Ret s \<and> cg_pcs s ! 0 = Cn_Done True \<and> client_fd (cg_client s) = -1"
  using assms
  by (intro exI [of _ "[0, 1, 0, 0, 0, 0, 0, 0, 1, 1]"])
    (simp add: new_connecting_def connect_act_def numeral_2_eq_2)

end
