(* ===== verification/Node_Link.thy ===== *)
theory Node_Link
  imports Message_Passing
begin

text \<open>
  A connection of \<open>common/message_passing\<close> at work. One end sends: callers of \<open>Send\<close> and \<open>SendAsync\<close>
  put messages on the send queue and the sender task writes them to its socket. The network carries
  the bytes that were written, in segments of any size. At the other end the receiver task moves
  what arrives into the node's receive queue, and a caller of \<open>Receive\<close> takes messages. All of these
  run concurrently: a step of the connection is one message put on the queue, one iteration of
  a task, one segment, or one call of \<open>Receive\<close> that returns. (The call takes entries from the queue
  while it waits for more; as nobody else takes any, this is the same as taking them when it returns.)

  The lemmas: the bytes between the two callers are, in every reachable state, the frames of the
  messages sent and not yet received; every step but a new message brings them closer to the
  receiver, and some such step is possible until everything has been received.
\<close>

section \<open>State and steps\<close>

text \<open>
  \<open>lk_carried\<close> bytes of those written have reached the socket at the other end. \<open>lk_sent\<close> and \<open>lk_got\<close>
  remember the messages put on the queue and the results of the calls of \<open>Receive\<close>.
\<close>

record 'm link =
  lk_client :: mp_client
  lk_out :: sock
  lk_carried :: nat
  lk_in :: sock
  lk_receiver :: status
  lk_node :: node
  lk_sent :: "'m list"
  lk_got :: "('m option \<times> Endpoint option) list"

definition new_link :: "mp_client \<Rightarrow> 'm link" where
  "new_link k =
     \<lparr>lk_client = k, lk_out = \<lparr>rx = [], tx = [], wire = [], errno = NoErr\<rparr>, lk_carried = 0,
      lk_in = \<lparr>rx = [], tx = [], wire = [], errno = NoErr\<rparr>, lk_receiver = RUNNING, lk_node = new_node,
      lk_sent = [], lk_got = []\<rparr>"

definition uncarried :: "'m link \<Rightarrow> bytes" where
  "uncarried s = drop (lk_carried s) (wire (lk_out s))"

inductive post_step :: "'m codec \<Rightarrow> 'm link \<Rightarrow> 'm link \<Rightarrow> bool" for c where
  post: "Client_DispatchSend c m async (lk_client s) = Ret (Some i, k) \<Longrightarrow>
    post_step c s (s\<lparr>lk_client := k, lk_sent := lk_sent s @ [m]\<rparr>)"

text \<open>A sender whose queue is empty only waits; that is not a step.\<close>

inductive work_step :: "'m codec \<Rightarrow> Endpoint \<Rightarrow> 'm link \<Rightarrow> 'm link \<Rightarrow> bool" for c ep where
  send: "\<lbrakk>queue (send_queue (lk_client s)) \<noteq> [];
      SenderTask_RunAtomic (send_queue (lk_client s)) (lk_out s) (send_results (lk_client s)) = Ret (st, q, x, res)\<rbrakk> \<Longrightarrow>
    work_step c ep s (s\<lparr>lk_client := (lk_client s)\<lparr>send_queue := q, send_results := res\<rparr>, lk_out := x\<rparr>)"
| carry: "\<lbrakk>0 < n; n \<le> length (uncarried s)\<rbrakk> \<Longrightarrow>
    work_step c ep s (s\<lparr>lk_carried := lk_carried s + n,
      lk_in := (lk_in s)\<lparr>rx := rx (lk_in s) @ [RxData (take n (uncarried s))]\<rparr>\<rparr>)"
| receive: "\<lbrakk>lk_receiver s = RUNNING;
      ReceiverTask_RunAtomic ep (lk_in s) (receive_queue (lk_node s)) = Ret (st, x, q)\<rbrakk> \<Longrightarrow>
    work_step c ep s (s\<lparr>lk_receiver := st, lk_in := x, lk_node := (lk_node s)\<lparr>receive_queue := q\<rparr>\<rparr>)"
| hand_out: "DoReceive c False True (lk_node s) = Ret (m, src, n) \<Longrightarrow>
    work_step c ep s (s\<lparr>lk_node := n, lk_got := lk_got s @ [(m, src)]\<rparr>)"

inductive_cases post_stepE: "post_step c s s'"
inductive_cases work_stepE: "work_step c ep s s'"

definition link_step :: "'m codec \<Rightarrow> Endpoint \<Rightarrow> 'm link \<Rightarrow> 'm link \<Rightarrow> bool" where
  "link_step c ep s s' \<longleftrightarrow> post_step c s s' \<or> work_step c ep s s'"

section \<open>Waiting for a message\<close>

text \<open>
  Without a complete frame in the queue, \<open>Receive\<close> takes all that there is; without a timeout it
  then waits, with one it gives up.
\<close>

lemma next_response_take:
  "local @ queue q = m # ms \<Longrightarrow> \<exists>local' q'. next_response timed local q = Ret (Some m, local', q') \<and> ms = local' @ queue q'"
  by (cases local) (simp_all add: next_response_def pop_queue_def Pop_def PopTimed_def)

lemma DoReceive_loop_waits:
  assumes "wf_parser p" and "data_from ep (local @ queue q)" and "reading = None \<or> reading = Some ep"
    and "split_frame (unread p @ payload (local @ queue q)) = None"
  shows "if timed
    then \<exists>p' r q'. DoReceive_loop timed p local saved reading q = Ret (False, p', saved, r, q') \<and> queue q' = []
    else DoReceive_loop timed p local saved reading q = Block"
  using assms
proof (induction "length (local @ queue q)" arbitrary: p reading local q rule: less_induct)
  case less
  have "split_frame (unread p) = None"
    using less.prems(4) split_frame_append [of "unread p"] by (cases "split_frame (unread p)") auto
  then have incomplete: "\<not> HasCompleteMessage p" using wf_complete_iff [OF less.prems(1)] by blast
  show ?case
  proof (cases "local @ queue q")
    case Nil
    then show ?thesis
      using incomplete
      by (subst (1 2) DoReceive_loop.simps) (simp add: next_response_def pop_queue_def Pop_def PopTimed_def)
  next
    case (Cons m ms)
    then obtain local' q' where n: "next_response timed local q = Ret (Some m, local', q')" "ms = local' @ queue q'"
      using next_response_take [of local q m ms timed] by blast
    have m: "endpoint m = ep" "0 < rstatus m" "length (rmessage m) < 2 ^ 31" "data_from ep ms"
      using less.prems(2) Cons by auto
    obtain p1 where p1: "AddNewData p (rmessage m) = Ret p1" "wf_parser p1" "unread p1 = unread p @ rmessage m"
      using add_incomplete [OF less.prems(1) incomplete m(3)] by blast
    have step: "DoReceive_loop timed p local saved reading q = DoReceive_loop timed p1 local' saved (Some ep) q'"
      using incomplete n(1) m less.prems(3) p1(1) by (subst DoReceive_loop.simps) auto
    show ?thesis
      unfolding step using less.prems(4) Cons n(2) m(4) p1 by (intro less.hyps) auto
  qed
qed

lemma DoReceive_waits:
  assumes "data_from ep (un_processed_messages n @ queue (receive_queue n))"
    and "split_frame (payload (un_processed_messages n @ queue (receive_queue n))) = None"
  shows "DoReceive c False True n = Block"
  using DoReceive_loop_waits [OF wf_new_parser, of ep _ _ None False] assms by (simp add: DoReceive_def)

section \<open>The bytes in flight\<close>

abbreviation received_entries :: "'m link \<Rightarrow> ReceiveQueueMessage list" where
  "received_entries s \<equiv> un_processed_messages (lk_node s) @ queue (receive_queue (lk_node s))"

text \<open>From the receiver back to the sender, the way the bytes will be read.\<close>

definition in_flight :: "'m link \<Rightarrow> bytes" where
  "in_flight s =
     payload (received_entries s) @ rx_stream (rx (lk_in s)) @ uncarried s @
     concat (map smessage (queue (send_queue (lk_client s))))"

definition frames :: "'m codec \<Rightarrow> 'm list \<Rightarrow> bytes" where
  "frames c ms = concat (map (\<lambda>m. frame (encode c m)) ms)"

lemma frames_simps [simp]: "frames c [] = []" "frames c (m # ms) = frame (encode c m) @ frames c ms"
  "frames c (ms @ ms') = frames c ms @ frames c ms'"
  by (simp_all add: frames_def)

lemma frame_nonempty [simp]: "frame b \<noteq> []"
  by (simp add: frame_def htonl_bytes_def)

definition only_data :: "rx_event list \<Rightarrow> bool" where
  "only_data es \<longleftrightarrow> (\<forall>e \<in> set es. \<exists>bs. e = RxData bs \<and> bs \<noteq> [])"

lemma rx_stream_append: "only_data es \<Longrightarrow> rx_stream (es @ es') = rx_stream es @ rx_stream es'"
  by (induction es) (auto simp: only_data_def)

lemma rx_size_append: "rx_size (es @ es') = rx_size es + rx_size es'"
  by (induction es rule: rx_size.induct) auto

definition plumbing :: "Endpoint \<Rightarrow> 'm link \<Rightarrow> bool" where
  "plumbing ep s \<longleftrightarrow>
     0 \<le> client_fd (lk_client s) \<and> max_length (send_queue (lk_client s)) = 0 \<and> tx (lk_out s) = [] \<and>
     lk_carried s \<le> length (wire (lk_out s)) \<and> only_data (rx (lk_in s)) \<and> lk_receiver s = RUNNING \<and>
     max_length (receive_queue (lk_node s)) = 0 \<and> length (un_processed_messages (lk_node s)) \<le> 1 \<and>
     data_from ep (received_entries s)"

definition link_inv :: "'m codec \<Rightarrow> Endpoint \<Rightarrow> 'm link \<Rightarrow> bool" where
  "link_inv c ep s \<longleftrightarrow>
     plumbing ep s \<and> (\<forall>x \<in> set (queue (send_queue (lk_client s))). smessage x \<noteq> []) \<and>
     (\<exists>ms rest. lk_sent s = ms @ rest \<and> lk_got s = map (\<lambda>m. (Some m, Some ep)) ms \<and> in_flight s = frames c rest)"

lemma link_invE:
  assumes "link_inv c ep s"
  obtains ms rest where "plumbing ep s" "\<forall>x \<in> set (queue (send_queue (lk_client s))). smessage x \<noteq> []"
    "lk_sent s = ms @ rest" "lk_got s = map (\<lambda>m. (Some m, Some ep)) ms" "in_flight s = frames c rest"
  using assms by (auto simp: link_inv_def)

lemma link_invI:
  "\<lbrakk>plumbing ep s; \<forall>x \<in> set (queue (send_queue (lk_client s))). smessage x \<noteq> []; lk_sent s = ms @ rest;
    lk_got s = map (\<lambda>m. (Some m, Some ep)) ms; in_flight s = frames c rest\<rbrakk> \<Longrightarrow> link_inv c ep s"
  unfolding link_inv_def by blast

lemma new_link_inv:
  assumes "0 \<le> client_fd k" and "send_queue k = new_queue 0"
  shows "link_inv c ep (new_link k)"
  using assms by (simp add: link_inv_def plumbing_def in_flight_def uncarried_def new_link_def new_node_def
      new_queue_def only_data_def)

text \<open>A step that moves bytes on leaves the bytes in flight as they are.\<close>

lemma link_inv_move:
  assumes "link_inv c ep s" and "plumbing ep s'" and "in_flight s' = in_flight s" and "lk_sent s' = lk_sent s"
    and "lk_got s' = lk_got s"
    and "set (queue (send_queue (lk_client s'))) \<subseteq> set (queue (send_queue (lk_client s)))"
  shows "link_inv c ep s'"
  using assms unfolding link_inv_def by (metis subsetD)

lemma post_inv:
  assumes "link_inv c ep s" and "post_step c s s'" and "codec_ok c" and "\<forall>m \<in> set (lk_sent s'). ByteSizeLong c m < 2 ^ 31"
  shows "link_inv c ep s'"
proof -
  obtain m async i k where m: "Client_DispatchSend c m async (lk_client s) = Ret (Some i, k)"
      "s' = s\<lparr>lk_client := k, lk_sent := lk_sent s @ [m]\<rparr>"
    using assms(2) by (elim post_stepE)
  obtain ms rest where inv: "plumbing ep s" "\<forall>x \<in> set (queue (send_queue (lk_client s))). smessage x \<noteq> []"
    "lk_sent s = ms @ rest" "lk_got s = map (\<lambda>m. (Some m, Some ep)) ms" "in_flight s = frames c rest"
    using assms(1) by (elim link_invE)
  have "ByteSizeLong c m < 2 ^ 31" using m(2) assms(4) by simp
  then have "k = (lk_client s)\<lparr>last_message_id := last_message_id (lk_client s) + 1,
      send_queue := (send_queue (lk_client s))\<lparr>queue := queue (send_queue (lk_client s)) @
        [\<lparr>message_id = last_message_id (lk_client s) + 1, smessage = frame (encode c m), send_async = async\<rparr>]\<rparr>\<rparr>"
    using m(1) inv(1) Serialize_frame [OF assms(3), of m "[]"]
    by (auto simp: Client_DispatchSend_def Client_EnsureConnected_def plumbing_def Let_def)
  moreover from this have "in_flight s' = frames c (rest @ [m])"
    using inv(5) m(2) by (simp add: in_flight_def uncarried_def)
  moreover have "lk_sent s' = ms @ (rest @ [m])" "lk_got s' = map (\<lambda>m. (Some m, Some ep)) ms" using inv m(2) by simp_all
  ultimately show ?thesis
    using inv(1,2) m(2) by (intro link_invI [of ep s' ms "rest @ [m]" c]) (auto simp: plumbing_def)
qed

lemma send_effect:
  assumes "plumbing ep s" and "queue (send_queue (lk_client s)) = x # xs"
  shows "SenderTask_RunAtomic (send_queue (lk_client s)) (lk_out s) (send_results (lk_client s)) =
    Ret (RUNNING, (send_queue (lk_client s))\<lparr>queue := xs\<rparr>, (lk_out s)\<lparr>wire := wire (lk_out s) @ smessage x\<rparr>,
      if send_async x then send_results (lk_client s)
      else (send_results (lk_client s))(message_id x \<mapsto> int (length (smessage x))))"
  using assms by (simp add: SenderTask_RunAtomic_def plumbing_def sys_send_def)

lemma recv_only_data:
  assumes "only_data (rx s)" and "sys_recv n s = Ret (r, s')" and "0 < n"
  shows "\<exists>bs. r = IoBytes bs \<and> bs \<noteq> [] \<and> only_data (rx s') \<and> rx_stream (rx s) = bs @ rx_stream (rx s') \<and>
    rx_size (rx s') + length bs \<le> rx_size (rx s) \<and> length bs \<le> n"
proof (cases "rx s")
  case Nil
  then show ?thesis using assms(2) by (simp add: sys_recv_def)
next
  case (Cons e es)
  then obtain d where "e = RxData d" "d \<noteq> []" using assms(1) by (auto simp: only_data_def)
  then show ?thesis
    using assms Cons by (auto simp: sys_recv_def only_data_def split: if_splits)
qed

lemma receive_effect:
  assumes "plumbing ep s" and "ReceiverTask_RunAtomic ep (lk_in s) (receive_queue (lk_node s)) = Ret (st, x, q)"
  shows "\<exists>bs. st = RUNNING \<and> q = (receive_queue (lk_node s))\<lparr>queue := queue (receive_queue (lk_node s)) @
        [\<lparr>rmessage = bs, endpoint = ep, rstatus = int (length bs)\<rparr>]\<rparr> \<and> bs \<noteq> [] \<and> length bs \<le> kReceiveChunkSize \<and>
      only_data (rx x) \<and> rx_stream (rx (lk_in s)) = bs @ rx_stream (rx x) \<and>
      rx_size (rx x) + length bs \<le> rx_size (rx (lk_in s))"
proof -
  obtain r y where r: "sys_recv kReceiveChunkSize (lk_in s) = Ret (r, y)"
    using assms(2) by (auto simp: ReceiverTask_RunAtomic_def obind_eq_Ret)
  then have "y = x"
    using assms(2) by (cases r) (auto simp: ReceiverTask_RunAtomic_def obind_eq_Ret split: if_splits)
  with r have r: "sys_recv kReceiveChunkSize (lk_in s) = Ret (r, x)" by simp
  from recv_only_data [OF _ r] assms(1) obtain bs where "r = IoBytes bs" "bs \<noteq> []" "only_data (rx x)"
      "rx_stream (rx (lk_in s)) = bs @ rx_stream (rx x)" "rx_size (rx x) + length bs \<le> rx_size (rx (lk_in s))"
      "length bs \<le> kReceiveChunkSize"
    by (auto simp: plumbing_def)
  then show ?thesis
    using assms r by (auto simp: ReceiverTask_RunAtomic_def plumbing_def)
qed

lemma DoReceive_loop_max_length:
  "DoReceive_loop timed p local saved reading q = Ret (ok, p', saved', reading', q') \<Longrightarrow> max_length q' = max_length q"
proof (induction timed p local saved reading q arbitrary: ok p' saved' reading' q' rule: DoReceive_loop.induct)
  case (1 timed p local saved reading q)
  show ?case
  proof (cases "HasCompleteMessage p")
    case True
    then show ?thesis using "1.prems" by (subst (asm) DoReceive_loop.simps) simp
  next
    case False
    obtain x local' q1 where n: "next_response timed local q = Ret (x, local', q1)"
      using "1.prems" False by (subst (asm) DoReceive_loop.simps) (auto simp: obind_eq_Ret)
    have "max_length q1 = max_length q"
      using n by (cases local; cases "queue q")
        (auto simp: next_response_def pop_queue_def Pop_def PopTimed_def split: if_splits)
    moreover have "max_length q' = max_length q1"
    proof (cases x)
      case None
      then show ?thesis using "1.prems" False n by (subst (asm) DoReceive_loop.simps) simp
    next
      case (Some y)
      note IH = "1.IH" [OF False n refl refl Some]
      have eq: "DoReceive_loop timed p local saved reading q =
          (if reading \<noteq> None \<and> reading \<noteq> Some (endpoint y)
           then DoReceive_loop timed p local' (saved @ [y]) reading q1
           else if rstatus y \<le> 0 then Ret (False, p, saved, Some (endpoint y), q1)
           else obind (AddNewData p (rmessage y)) (\<lambda>p'. DoReceive_loop timed p' local' saved (Some (endpoint y)) q1))"
        using False n Some by (subst DoReceive_loop.simps) simp
      show ?thesis
      proof (cases "reading \<noteq> None \<and> reading \<noteq> Some (endpoint y)")
        case True
        then have "DoReceive_loop timed p local' (saved @ [y]) reading q1 = Ret (ok, p', saved', reading', q')"
          using "1.prems" by (simp add: eq)
        then show ?thesis by (rule IH(1) [OF True])
      next
        case other: False
        show ?thesis
        proof (cases "rstatus y \<le> 0")
          case True
          have "Ret (False, p, saved, Some (endpoint y), q1) = Ret (ok, p', saved', reading', q')"
            using "1.prems" by (simp only: eq if_not_P [OF other] if_P [OF True])
          then show ?thesis by simp
        next
          case pos: False
          then have "obind (AddNewData p (rmessage y)) (\<lambda>p'. DoReceive_loop timed p' local' saved (Some (endpoint y)) q1) =
              Ret (ok, p', saved', reading', q')"
            using "1.prems" other unfolding eq by (simp only: if_False)
          then obtain p1 where "AddNewData p (rmessage y) = Ret p1"
              "DoReceive_loop timed p1 local' saved (Some (endpoint y)) q1 = Ret (ok, p', saved', reading', q')"
            unfolding obind_eq_Ret by blast
          then show ?thesis using IH(2) [OF other pos] by blast
        qed
      qed
    qed
    ultimately show ?thesis by simp
  qed
qed

lemma hand_out_effect:
  assumes "link_inv c ep s" and "codec_ok c" and "\<forall>m \<in> set (lk_sent s). ByteSizeLong c m < 2 ^ 31"
    and "DoReceive c False True (lk_node s) = Ret (x, src, n)"
  shows "\<exists>ms m rest. x = Some m \<and> src = Some ep \<and> lk_sent s = ms @ m # rest \<and>
    lk_got s = map (\<lambda>m. (Some m, Some ep)) ms \<and> length (un_processed_messages n) \<le> 1 \<and>
    data_from ep (un_processed_messages n @ queue (receive_queue n)) \<and> max_length (receive_queue n) = 0 \<and>
    payload (received_entries s) = frame (encode c m) @ payload (un_processed_messages n @ queue (receive_queue n)) \<and>
    in_flight s = frames c (m # rest)"
proof -
  obtain ms rest where inv: "plumbing ep s" "lk_sent s = ms @ rest" "lk_got s = map (\<lambda>m. (Some m, Some ep)) ms"
      "in_flight s = frames c rest"
    using assms(1) by (elim link_invE)
  define P where "P = payload (received_entries s)"
  obtain T where T: "P @ T = frames c rest" using inv(4) by (auto simp: in_flight_def P_def)
  have data: "data_from ep (received_entries s)" and un: "length (un_processed_messages (lk_node s)) \<le> 1"
    using inv(1) by (auto simp: plumbing_def)
  then obtain b r where br: "split_frame P = Some (b, r)"
    using DoReceive_waits [OF data, of c] assms(4) by (cases "split_frame P") (auto simp: P_def)
  then have "P \<noteq> []" by (auto simp: split_frame_def)
  then obtain m rest' where m: "rest = m # rest'" using T by (cases rest) auto
  have small: "ByteSizeLong c m < 2 ^ 31" using assms(3) inv(2) m by simp
  then have "length (encode c m) < 2 ^ 32" using codec_okD(2) [OF assms(2) small] by simp
  then have "r @ T = frames c rest'" "b = encode c m"
    using split_frame_append [OF br, of T] T m by (simp_all add: split_frame_frame)
  then have P: "P = frame (encode c m) @ r" using T m by (metis append.assoc append_same_eq frames_simps(2))
  from DoReceive_next [OF assms(2) small un data, of r False] P obtain n' where
    n': "DoReceive c False True (lk_node s) = Ret (Some m, Some ep, n')" "length (un_processed_messages n') \<le> 1"
      "data_from ep (un_processed_messages n' @ queue (receive_queue n'))"
      "payload (un_processed_messages n' @ queue (receive_queue n')) = r"
    by (auto simp: P_def)
  have "max_length (receive_queue n) = 0"
    using assms(4) inv(1) DoReceive_loop_max_length
    by (auto simp: DoReceive_def plumbing_def obind_eq_Ret Let_def split: if_splits)
  then show ?thesis using n' assms(4) inv m P by (auto simp: P_def)
qed

lemma work_inv:
  assumes "link_inv c ep s" and "work_step c ep s s'" and "codec_ok c" and "\<forall>m \<in> set (lk_sent s). ByteSizeLong c m < 2 ^ 31"
  shows "link_inv c ep s'"
  using assms(2)
proof (cases rule: work_step.cases)
  case (send st q x res)
  then obtain y ys where y: "queue (send_queue (lk_client s)) = y # ys" by (cases "queue (send_queue (lk_client s))") auto
  have pl: "plumbing ep s" using assms(1) by (simp add: link_inv_def)
  show ?thesis
    using send pl y send_effect [OF pl y]
    by (intro link_inv_move [OF assms(1)]) (auto simp: plumbing_def in_flight_def uncarried_def)
next
  case (carry n)
  have pl: "plumbing ep s" using assms(1) by (simp add: link_inv_def)
  have "take n (uncarried s) @ drop (lk_carried s + n) (wire (lk_out s)) = uncarried s"
    by (simp add: uncarried_def add.commute flip: drop_drop)
  then show ?thesis
    using carry pl
    by (intro link_inv_move [OF assms(1)])
      (auto simp: plumbing_def in_flight_def uncarried_def rx_stream_append only_data_def)
next
  case (receive st x q)
  have pl: "plumbing ep s" using assms(1) by (simp add: link_inv_def)
  from receive_effect [OF pl receive(3)] obtain bs where "st = RUNNING"
      "q = (receive_queue (lk_node s))\<lparr>queue := queue (receive_queue (lk_node s)) @
        [\<lparr>rmessage = bs, endpoint = ep, rstatus = int (length bs)\<rparr>]\<rparr>" "bs \<noteq> []" "length bs \<le> kReceiveChunkSize"
      "only_data (rx x)" "rx_stream (rx (lk_in s)) = bs @ rx_stream (rx x)"
    by blast
  then show ?thesis
    using receive pl
    by (intro link_inv_move [OF assms(1)]) (auto simp: plumbing_def in_flight_def uncarried_def)
next
  case (hand_out x src n)
  from hand_out_effect [OF assms(1,3,4) hand_out(2)] obtain ms m rest where
    h: "x = Some m" "src = Some ep" "lk_sent s = ms @ m # rest" "lk_got s = map (\<lambda>m. (Some m, Some ep)) ms"
      "length (un_processed_messages n) \<le> 1" "data_from ep (un_processed_messages n @ queue (receive_queue n))"
      "max_length (receive_queue n) = 0"
      "payload (received_entries s) = frame (encode c m) @ payload (un_processed_messages n @ queue (receive_queue n))"
      "in_flight s = frames c (m # rest)"
    by blast
  have "plumbing ep s'" using assms(1) h(5-7) hand_out(1) by (auto simp: link_inv_def plumbing_def)
  moreover have "in_flight s' = frames c rest"
    using h(8,9) hand_out(1) by (simp add: in_flight_def uncarried_def)
  ultimately show ?thesis
    using assms(1) h(1-4) hand_out(1) by (intro link_invI [of ep s' "ms @ [m]" rest c]) (auto simp: link_inv_def)
qed

lemma link_sent_mono: "link_step c ep s s' \<Longrightarrow> set (lk_sent s) \<subseteq> set (lk_sent s')"
  by (auto simp: link_step_def elim!: post_stepE work_stepE)

lemma link_reach_inv:
  assumes "(link_step c ep)\<^sup>*\<^sup>* s s'" and "link_inv c ep s" and "codec_ok c"
    and "\<forall>m \<in> set (lk_sent s'). ByteSizeLong c m < 2 ^ 31"
  shows "link_inv c ep s'"
  using assms(1,4)
proof (induction rule: rtranclp_induct)
  case base
  then show ?case using assms(2) by simp
next
  case (step s1 s2)
  have "\<forall>m \<in> set (lk_sent s1). ByteSizeLong c m < 2 ^ 31" using link_sent_mono [OF step.hyps(2)] step.prems by blast
  then show ?case
    using step post_inv [OF _ _ assms(3)] work_inv [OF _ _ assms(3)] unfolding link_step_def by blast
qed

section \<open>Progress\<close>

text \<open>The nearer a byte is to the receiver, the less it counts.\<close>

definition link_work :: "'m link \<Rightarrow> nat" where
  "link_work s =
     6 * length (concat (map smessage (queue (send_queue (lk_client s))))) + 5 * length (uncarried s) +
     2 * rx_size (rx (lk_in s)) + length (payload (received_entries s))"

lemma link_work_decreases:
  assumes "link_inv c ep s" and "work_step c ep s s'" and "codec_ok c" and "\<forall>m \<in> set (lk_sent s). ByteSizeLong c m < 2 ^ 31"
  shows "link_work s' < link_work s"
  using assms(2)
proof (cases rule: work_step.cases)
  case (send st q x res)
  then obtain y ys where y: "queue (send_queue (lk_client s)) = y # ys" by (cases "queue (send_queue (lk_client s))") auto
  have pl: "plumbing ep s" and "smessage y \<noteq> []" using assms(1) y by (auto simp: link_inv_def)
  then obtain z zs where "smessage y = z # zs" by (cases "smessage y") auto
  then show ?thesis
    using send pl y send_effect [OF pl y] by (auto simp: link_work_def uncarried_def plumbing_def)
next
  case (carry n)
  then show ?thesis by (auto simp: link_work_def uncarried_def rx_size_append)
next
  case (receive st x q)
  have pl: "plumbing ep s" using assms(1) by (simp add: link_inv_def)
  from receive_effect [OF pl receive(3)] obtain bs where
      "q = (receive_queue (lk_node s))\<lparr>queue := queue (receive_queue (lk_node s)) @
        [\<lparr>rmessage = bs, endpoint = ep, rstatus = int (length bs)\<rparr>]\<rparr>" "bs \<noteq> []"
      "rx_size (rx x) + length bs \<le> rx_size (rx (lk_in s))"
    by auto
  moreover from this obtain b bs' where "bs = b # bs'" by (cases bs) auto
  ultimately show ?thesis using receive(1) by (simp add: link_work_def uncarried_def)
next
  case (hand_out x src n)
  from hand_out_effect [OF assms(1,3,4) hand_out(2)] obtain m where
    "payload (received_entries s) = frame (encode c m) @ payload (un_processed_messages n @ queue (receive_queue n))"
    by blast
  moreover have "0 < length (frame (encode c m))" by simp
  ultimately show ?thesis using hand_out(1) by (simp add: link_work_def uncarried_def)
qed

lemma work_enabled:
  assumes "link_inv c ep s" and "codec_ok c" and "\<forall>m \<in> set (lk_sent s). ByteSizeLong c m < 2 ^ 31"
    and "length (lk_got s) < length (lk_sent s)"
  shows "\<exists>s'. work_step c ep s s'"
proof -
  obtain ms rest where inv: "plumbing ep s" "lk_sent s = ms @ rest" "lk_got s = map (\<lambda>m. (Some m, Some ep)) ms"
      "in_flight s = frames c rest"
    using assms(1) by (elim link_invE)
  obtain m rest' where m: "rest = m # rest'" using assms(4) inv(2,3) by (cases rest) auto
  consider "queue (send_queue (lk_client s)) \<noteq> []" | "uncarried s \<noteq> []" | "rx_stream (rx (lk_in s)) \<noteq> []"
    | "queue (send_queue (lk_client s)) = []" "uncarried s = []" "rx_stream (rx (lk_in s)) = []" by blast
  then show ?thesis
  proof cases
    case 1
    then obtain y ys where y: "queue (send_queue (lk_client s)) = y # ys" by (cases "queue (send_queue (lk_client s))") auto
    then show ?thesis using work_step.send [OF 1 send_effect [OF inv(1) y]] by blast
  next
    case 2
    then show ?thesis using work_step.carry [of 1 s c ep] by (cases "uncarried s") auto
  next
    case 3
    then obtain bs x where "sys_recv kReceiveChunkSize (lk_in s) = Ret (IoBytes bs, x)"
      using sys_recv_data [of "lk_in s" kReceiveChunkSize] by auto
    then have "\<exists>st q. ReceiverTask_RunAtomic ep (lk_in s) (receive_queue (lk_node s)) = Ret (st, x, q)"
      using inv(1) by (simp add: ReceiverTask_RunAtomic_def plumbing_def)
    then show ?thesis using work_step.receive inv(1) unfolding plumbing_def by blast
  next
    case 4
    then have "payload (received_entries s) = frame (encode c m) @ frames c rest'"
      using inv(4) m by (simp add: in_flight_def)
    moreover have "ByteSizeLong c m < 2 ^ 31" using assms(3) inv(2) m by simp
    ultimately obtain n where "DoReceive c False True (lk_node s) = Ret (Some m, Some ep, n)"
      using DoReceive_next [OF assms(2), of m "lk_node s" ep _ False] inv(1) unfolding plumbing_def by blast
    then show ?thesis using work_step.hand_out by blast
  qed
qed

text \<open>A connection on which the message \<open>[7]\<close> is sent, written and half carried, for the witnesses.\<close>

definition demo_link_client :: mp_client where
  "demo_link_client =
     \<lparr>base = new_node, dest = \<lparr>hostname = ''h'', port = 1\<rparr>, client_fd = 4, connect_results = [], send_queue = new_queue 0,
      senders = [4], receivers = [4], send_results = Map.empty, last_message_id = 0\<rparr>"

lemma three_steps: "r a b \<Longrightarrow> r b d \<Longrightarrow> r d e \<Longrightarrow> r\<^sup>*\<^sup>* a e"
  by (rule converse_rtranclp_into_rtranclp, assumption, rule converse_rtranclp_into_rtranclp, assumption) (rule r_into_rtranclp)

lemma demo_link:
  "\<exists>s. (link_step raw_codec ep)\<^sup>*\<^sup>* (new_link demo_link_client) s \<and> lk_sent s = [[7]] \<and> lk_got s = [] \<and>
     rx (lk_in s) = [RxData [0, 0, 0]]"
proof -
  have frame: "Serialize raw_codec [7] [] = (True, [0, 0, 0, 1, 7])"
    by (simp add: raw_codec_def Serialize_def resize_def htonl_bytes_def)
  let ?q = "\<lparr>message_id = 1, smessage = [0, 0, 0, 1, 7], send_async = True\<rparr>"
  let ?k = "demo_link_client\<lparr>last_message_id := 1, send_queue := (new_queue 0)\<lparr>queue := [?q]\<rparr>\<rparr>"
  let ?s1 = "(new_link demo_link_client)\<lparr>lk_client := ?k, lk_sent := [[7 :: u8]]\<rparr>"
  let ?s2 = "?s1\<lparr>lk_client := ?k\<lparr>send_queue := new_queue 0, send_results := Map.empty\<rparr>,
    lk_out := (lk_out ?s1)\<lparr>wire := [0, 0, 0, 1, 7]\<rparr>\<rparr>"
  let ?s3 = "?s2\<lparr>lk_carried := 3, lk_in := (lk_in ?s2)\<lparr>rx := [RxData [0, 0, 0]]\<rparr>\<rparr>"
  have p: "post_step raw_codec (new_link demo_link_client) ?s1"
    using post_step.post [of raw_codec "[7]" True "new_link demo_link_client" 1 ?k] frame
    by (simp add: new_link_def demo_link_client_def Client_DispatchSend_def Client_EnsureConnected_def Push_def is_full_def
        new_queue_def)
  have w: "work_step raw_codec ep ?s1 ?s2"
    using work_step.send [of ?s1 RUNNING "new_queue 0" "(lk_out ?s1)\<lparr>wire := [0, 0, 0, 1, 7]\<rparr>" Map.empty raw_codec ep]
    by (simp add: new_link_def demo_link_client_def SenderTask_RunAtomic_def sys_send_def PopTimed_def new_queue_def)
  have d: "work_step raw_codec ep ?s2 ?s3"
    using work_step.carry [of 3 ?s2 raw_codec ep] by (simp add: new_link_def uncarried_def)
  have "(link_step raw_codec ep)\<^sup>*\<^sup>* (new_link demo_link_client) ?s3"
    by (rule three_steps [of _ _ ?s1 ?s2]) (unfold link_step_def, rule disjI1 [OF p], rule disjI2 [OF w], rule disjI2 [OF d])
  then show ?thesis by (intro exI [of _ ?s3]) (simp add: new_link_def)
qed

section \<open>Properties\<close>

text \<open>
  C17. Messages arrive whole, once and in order, in every interleaving. A connected client whose
  sends are taken by the kernel, and the node at the other end of its connection, may do their work
  in any order, with any number of messages and any segments. At every moment the calls of \<open>Receive\<close>
  have returned the first messages that were sent, with the sender's endpoint, and the bytes on their
  way, from the receiving node back to the send queue, are the frames of the others.
\<close>

theorem link_in_order:
  assumes "codec_ok c" and "0 \<le> client_fd k" and "send_queue k = new_queue 0"
    and "(link_step c ep)\<^sup>*\<^sup>* (new_link k) s" and "\<forall>m \<in> set (lk_sent s). ByteSizeLong c m < 2 ^ 31"
  shows "\<exists>ms rest. lk_sent s = ms @ rest \<and> lk_got s = map (\<lambda>m. (Some m, Some ep)) ms \<and> in_flight s = frames c rest"
  using link_reach_inv [OF assms(4) new_link_inv [OF assms(2,3)] assms(1,5)] by (auto simp: link_inv_def)

theorem link_in_order_witness:
  "\<exists>s. (link_step raw_codec \<lparr>hostname = ''h'', port = 1\<rparr>)\<^sup>*\<^sup>* (new_link demo_link_client) s \<and> lk_sent s = [[7]] \<and>
     lk_got s = [] \<and> in_flight s = frame [7]"
proof -
  obtain s where s: "(link_step raw_codec \<lparr>hostname = ''h'', port = 1\<rparr>)\<^sup>*\<^sup>* (new_link demo_link_client) s"
      "lk_sent s = [[7]]" "lk_got s = []"
    using demo_link by blast
  then show ?thesis
    using link_in_order [OF raw_codec_ok _ _ s(1)]
    by (fastforce simp: demo_link_client_def raw_codec_def encode_def)
qed

text \<open>
  C18. Every message arrives. In every state that such a connection can reach, each further step of the
  tasks, of the network or of a caller of \<open>Receive\<close> lowers a number that the state determines, so
  without new messages these steps come to an end; and as long as a message that was sent has not been
  received, one of them is possible. So they end with everything received.
\<close>

theorem link_delivers:
  assumes "codec_ok c" and "0 \<le> client_fd k" and "send_queue k = new_queue 0"
    and "(link_step c ep)\<^sup>*\<^sup>* (new_link k) s" and "\<forall>m \<in> set (lk_sent s). ByteSizeLong c m < 2 ^ 31"
  shows "(\<forall>s'. work_step c ep s s' \<longrightarrow> link_work s' < link_work s) \<and>
    ((\<exists>s'. work_step c ep s s') \<or> lk_got s = map (\<lambda>m. (Some m, Some ep)) (lk_sent s))"
proof -
  have inv: "link_inv c ep s" by (rule link_reach_inv [OF assms(4) new_link_inv [OF assms(2,3)] assms(1,5)])
  obtain ms rest where "lk_sent s = ms @ rest" "lk_got s = map (\<lambda>m. (Some m, Some ep)) ms"
    using inv by (elim link_invE)
  then have "lk_got s = map (\<lambda>m. (Some m, Some ep)) (lk_sent s)" if "\<not> length (lk_got s) < length (lk_sent s)"
    using that by simp
  then show ?thesis
    using link_work_decreases [OF inv _ assms(1,5)] work_enabled [OF inv assms(1,5)] by blast
qed

theorem link_delivers_witness:
  "\<exists>s s'. (link_step raw_codec \<lparr>hostname = ''h'', port = 1\<rparr>)\<^sup>*\<^sup>* (new_link demo_link_client) s \<and> lk_sent s = [[7]] \<and>
     work_step raw_codec \<lparr>hostname = ''h'', port = 1\<rparr> s s' \<and> link_work s' < link_work s"
proof -
  obtain s where s: "(link_step raw_codec \<lparr>hostname = ''h'', port = 1\<rparr>)\<^sup>*\<^sup>* (new_link demo_link_client) s"
      "lk_sent s = [[7]]" "lk_got s = []"
    using demo_link by blast
  then show ?thesis
    using link_delivers [OF raw_codec_ok _ _ s(1)] by (auto simp: demo_link_client_def raw_codec_def)
qed

text \<open>
  A \<open>Receive\<close> that times out in the middle of a message loses what it has read. The parser is local
  to the call: when the queue holds the first part of a message only, the call with a timeout fails
  and leaves nothing; the rest of the message, when it comes, is taken for the start of the next.
\<close>

theorem timed_receive_drops_part:
  assumes "data_from ep (queue (receive_queue n))" and "un_processed_messages n = []"
    and "split_frame (payload (queue (receive_queue n))) = None"
  shows "\<exists>n'. DoReceive c True True n = Ret (None, None, n') \<and> un_processed_messages n' = [] \<and> queue (receive_queue n') = []"
  using DoReceive_loop_waits [OF wf_new_parser, of ep "[]" "receive_queue n" None True "[]"] assms
  by (auto simp: DoReceive_def)

theorem timed_receive_drops_part_witness:
  "\<exists>n'. DoReceive raw_codec True True
      \<lparr>receive_queue = (new_queue 0)\<lparr>queue := [\<lparr>rmessage = [0, 0, 0], endpoint = \<lparr>hostname = ''h'', port = 1\<rparr>, rstatus = 3\<rparr>]\<rparr>,
       un_processed_messages = []\<rparr> = Ret (None, None, n') \<and> queue (receive_queue n') = []"
proof -
  let ?n = "\<lparr>receive_queue = (new_queue 0)\<lparr>queue := [\<lparr>rmessage = [0, 0, 0], endpoint = \<lparr>hostname = ''h'', port = 1\<rparr>, rstatus = 3\<rparr>]\<rparr>,
       un_processed_messages = []\<rparr>"
  have "split_frame (payload (queue (receive_queue ?n))) = None" by (simp add: split_frame_def)
  then show ?thesis
    using timed_receive_drops_part [of "\<lparr>hostname = ''h'', port = 1\<rparr>" ?n raw_codec] by auto
qed

end
