(* ===== verification/Console_Task.thy ===== *)
theory Console_Task
  imports Blocking_Queue Pool_Task Text_Input
begin

text \<open>
  Model of the two \<open>ConsoleTask\<close> classes (\<open>project3/participant/tasks\<close> and
  \<open>project4/name_server/tasks\<close>), which print what the other threads send them above a prompt.
  They differ in one call: the participant's task waits for the first message with \<open>Pop()\<close>,
  the name server's with \<open>PopTimed()\<close>. \<open>console_out\<close> is the text written to the terminal so far.
\<close>

record console =
  console_message_queue :: "string bqueue"
  prompt :: string
  console_out :: string

definition new_ConsoleTask :: "string \<Rightarrow> console" where
  "new_ConsoleTask p = \<lparr>console_message_queue = new_queue 0, prompt = p, console_out = []\<rparr>"

definition print :: "string \<Rightarrow> console \<Rightarrow> console" where
  "print w t = t\<lparr>console_out := console_out t @ w\<rparr>"

definition ConsoleTask_SetUp :: "console \<Rightarrow> status \<times> console" where
  "ConsoleTask_SetUp t = (RUNNING, print (prompt t) t)"

text \<open>The escape sequences that move the cursor up and clear the line.\<close>

definition ClearLine :: "console \<Rightarrow> console" where
  "ClearLine t = print (CHR 0x1B # ''[A'' @ CHR 0x1B # ''[2K'' @ [CHR 0x0D]) t"

definition SendConsole :: "string \<Rightarrow> console \<Rightarrow> console outcome" where
  "SendConsole message t =
     obind (Push message (console_message_queue t)) (\<lambda>q. Ret (t\<lparr>console_message_queue := q\<rparr>))"

text \<open>The loop over the further messages.\<close>

function print_queued :: "console \<Rightarrow> console outcome" where
  "print_queued t =
     (if Empty (console_message_queue t) then Ret t
      else obind (Pop (console_message_queue t)) (\<lambda>(m, q).
        print_queued (print (m @ [newline]) (t\<lparr>console_message_queue := q\<rparr>))))"
  by pat_completeness auto
termination
  by (relation "measure (\<lambda>t. length (queue (console_message_queue t)))")
    (auto simp: Pop_def PopTimed_def print_def Empty_def split: list.splits)

declare print_queued.simps [simp del]

definition participant_ConsoleTask_RunAtomic :: "console \<Rightarrow> (status \<times> console) outcome" where
  "participant_ConsoleTask_RunAtomic t =
     obind (Pop (console_message_queue t)) (\<lambda>(first_message, q).
     let t1 = print (first_message @ [newline]) (ClearLine (t\<lparr>console_message_queue := q\<rparr>))
     in obind (print_queued t1) (\<lambda>t2. Ret (RUNNING, print (prompt t2) t2)))"

definition nameserver_ConsoleTask_RunAtomic :: "console \<Rightarrow> (status \<times> console) outcome" where
  "nameserver_ConsoleTask_RunAtomic t =
     (case PopTimed (console_message_queue t) of
        (None, q) \<Rightarrow> Ret (RUNNING, t\<lparr>console_message_queue := q\<rparr>)
      | (Some first_message, q) \<Rightarrow>
          let t1 = print (first_message @ [newline]) (ClearLine (t\<lparr>console_message_queue := q\<rparr>))
          in obind (print_queued t1) (\<lambda>t2. Ret (RUNNING, print (prompt t2) t2)))"

section \<open>What is printed\<close>

definition lines :: "string list \<Rightarrow> string" where
  "lines ms = concat (map (\<lambda>m. m @ [newline]) ms)"

lemma lines_simps [simp]: "lines [] = []" "lines (m # ms) = m @ newline # lines ms"
  by (simp_all add: lines_def)

lemma print_queued_lines:
  "queue (console_message_queue t) = ms \<Longrightarrow>
   print_queued t = Ret (t\<lparr>console_message_queue := (console_message_queue t)\<lparr>queue := []\<rparr>,
     console_out := console_out t @ lines ms\<rparr>)"
proof (induction ms arbitrary: t)
  case Nil
  then show ?case by (subst print_queued.simps) (simp add: Empty_def)
next
  case (Cons m ms)
  let ?t = "print (m @ [newline]) (t\<lparr>console_message_queue := (console_message_queue t)\<lparr>queue := ms\<rparr>\<rparr>)"
  have "print_queued t = print_queued ?t"
    using Cons.prems by (subst print_queued.simps) (simp add: Empty_def Pop_def)
  then show ?case using Cons.IH [of ?t] by (simp add: print_def)
qed

lemma SendConsole_unbounded [simp]:
  assumes "max_length (console_message_queue t) = 0"
  shows "SendConsole m t = Ret (t\<lparr>console_message_queue :=
    (console_message_queue t)\<lparr>queue := queue (console_message_queue t) @ [m]\<rparr>\<rparr>)"
  using assms by (simp add: SendConsole_def)

text \<open>
  The two tasks as printers: with messages waiting both print all of them, in order, each on
  its line, and the prompt again.
\<close>

lemma ConsoleTask_RunAtomic_prints:
  assumes "queue (console_message_queue t) = m # ms"
  shows "participant_ConsoleTask_RunAtomic t =
      Ret (RUNNING, t\<lparr>console_message_queue := (console_message_queue t)\<lparr>queue := []\<rparr>,
        console_out := console_out (ClearLine t) @ lines (m # ms) @ prompt t\<rparr>)"
    and "nameserver_ConsoleTask_RunAtomic t = participant_ConsoleTask_RunAtomic t"
  using assms
  by (simp_all add: participant_ConsoleTask_RunAtomic_def nameserver_ConsoleTask_RunAtomic_def Pop_def
      print_queued_lines print_def ClearLine_def)

text \<open>
  The two console tasks are interchangeable while there is something to print: then one
  iteration of either prints every waiting message once, in order, each on its own line, and
  then the prompt, and leaves the queue empty. They differ only on an empty queue: the name server's returns
  to the pool, which can then cancel it; the participant's blocks.
\<close>

theorem ConsoleTask_copies_agree:
  "(queue (console_message_queue t) = [] \<and>
      nameserver_ConsoleTask_RunAtomic t = Ret (RUNNING, t) \<and> participant_ConsoleTask_RunAtomic t = Block) \<or>
   (queue (console_message_queue t) \<noteq> [] \<and>
      nameserver_ConsoleTask_RunAtomic t = participant_ConsoleTask_RunAtomic t \<and>
      (\<exists>t'. participant_ConsoleTask_RunAtomic t = Ret (RUNNING, t') \<and>
        queue (console_message_queue t') = [] \<and>
        console_out t' = console_out (ClearLine t) @ lines (queue (console_message_queue t)) @ prompt t))"
proof (cases "queue (console_message_queue t)")
  case Nil
  then show ?thesis
    by (simp add: participant_ConsoleTask_RunAtomic_def nameserver_ConsoleTask_RunAtomic_def Pop_def)
next
  case (Cons m ms)
  then show ?thesis using ConsoleTask_RunAtomic_prints [OF Cons] by simp
qed

end
