(* ===== verification/Pub_Sub_Messages.thy ===== *)
theory Pub_Sub_Messages
  imports Wire_Protocol
begin

text \<open>
  The messages between the coordinator and the participants of the publish/subscribe system
  (\<open>project3/proto/pub_sub_messages.proto\<close>). \<open>NoMessage\<close> is a \<open>CoordinatorMessage\<close> with no
  member of its \<open>oneof\<close> set; the \<open>RegistrationResponse\<close> is its one field, the id.
\<close>

datatype CoordinatorMessage =
    NoMessage
  | Register u32
  | Deregister u32
  | Disconnect u32
  | Reconnect u32 u32
  | SendMulticast string u32

record ForwardMulticast =
  fmessage :: string
  origin_id :: u32

end
