(* ===== verification/Multicast_Participant.thy ===== *)
theory Multicast_Participant
  imports Console_Task Socket_Setup Pub_Sub_Messages
begin

text \<open>
  Model of the participant of the publish/subscribe system, \<open>project3/participant\<close>: the parser
  of the command line, the task that receives the multicasts, and the shell that connects to
  the coordinator for every command. One line of the shell is one step; what the system calls
  return during the step, and what the coordinator sends, are inputs. The members that the
  constructor leaves uninitialized (\<open>port_\<close>, \<open>participant_id_\<close>) start with values that are
  arguments of \<open>new_participant_input\<close>.
\<close>

section \<open>Input parser\<close>

datatype MsgType = REG | DEREG | DISCON | RECON | MSEND | QUIT

definition commands :: "string \<Rightarrow> MsgType option" where
  "commands = [''register'' \<mapsto> REG, ''deregister'' \<mapsto> DEREG, ''disconnect'' \<mapsto> DISCON,
               ''reconnect'' \<mapsto> RECON, ''msend'' \<mapsto> MSEND, ''quit'' \<mapsto> QUIT]"

record participant_input =
  input_valid :: bool
  req_type :: MsgType
  req_port :: int
  my_id :: int
  message_text :: string

definition new_participant_input :: "int \<Rightarrow> int \<Rightarrow> participant_input" where
  "new_participant_input uninit_port uninit_id =
     \<lparr>input_valid = False, req_type = REG, req_port = uninit_port, my_id = uninit_id, message_text = []\<rparr>"

text \<open>
  The stream after the first word: \<open>operator>>\<close> that stops at the end of the text has met the
  end of the stream, so that the \<open>getline\<close> after it fails and leaves \<open>message_\<close> alone.
\<close>

definition stream_after :: "string \<Rightarrow> istream" where
  "stream_after rest = (if rest = [] then None else Some rest)"

definition Participant_Parse :: "string \<Rightarrow> participant_input \<Rightarrow> participant_input" where
  "Participant_Parse cmd ip =
     (case read_word cmd [] of
        (word, rest) \<Rightarrow>
          (case commands word of
             None \<Rightarrow> ip\<lparr>input_valid := False\<rparr>
           | Some r \<Rightarrow>
               let ip1 = ip\<lparr>input_valid := True, req_type := r\<rparr>
               in case r of
                    MSEND \<Rightarrow> ip1\<lparr>message_text := fst (snd (getline (stream_after rest) (message_text ip)))\<rparr>
                  | REG \<Rightarrow> ip1\<lparr>req_port := fst (read_int rest (req_port ip))\<rparr>
                  | RECON \<Rightarrow> ip1\<lparr>req_port := fst (read_int rest (req_port ip))\<rparr>
                  | _ \<Rightarrow> ip1))"

text \<open>\<open>None\<close> is the null pointer.\<close>

definition Participant_CreateReq :: "participant_input \<Rightarrow> CoordinatorMessage option" where
  "Participant_CreateReq ip =
     (case req_type ip of
        REG \<Rightarrow> Some (Register (of_int (req_port ip)))
      | DEREG \<Rightarrow> Some (Deregister (of_int (my_id ip)))
      | DISCON \<Rightarrow> Some (Disconnect (of_int (my_id ip)))
      | RECON \<Rightarrow> Some (Reconnect (of_int (req_port ip)) (of_int (my_id ip)))
      | MSEND \<Rightarrow> Some (SendMulticast (message_text ip) (of_int (my_id ip)))
      | QUIT \<Rightarrow> None)"

section \<open>participant_util\<close>

text \<open>The participant's own copies of the loops that ignore timeouts.\<close>

function participant_util_ReceiveForever :: "nat \<Rightarrow> sock \<Rightarrow> (io_result \<times> sock) outcome" where
  "participant_util_ReceiveForever len s =
     obind (sys_recv len s) (\<lambda>(kRecvResult, s').
       if \<not> (kRecvResult = IoErr \<and> is_timeout (errno s')) then Ret (kRecvResult, s')
       else participant_util_ReceiveForever len s')"
  by pat_completeness auto
termination
  by (relation "measure (\<lambda>(n, s). rx_size (rx s))") (auto dest: sys_recv_err_progress)

declare participant_util_ReceiveForever.simps [simp del]

partial_function (option) participant_util_SendForever_loop ::
  "bytes \<Rightarrow> u32 \<Rightarrow> sock \<Rightarrow> (int \<times> sock) option" where
  "participant_util_SendForever_loop buf total_bytes_sent s =
     (if unat total_bytes_sent < length buf
      then case sys_send (drop (unat total_bytes_sent) buf) s of
             (Inl e, s') \<Rightarrow>
               if \<not> is_timeout e then Some (-1, s')
               else participant_util_SendForever_loop buf (total_bytes_sent - 1) s'
           | (Inr n, s') \<Rightarrow>
               if n = 0 then Some (0, s')
               else participant_util_SendForever_loop buf (total_bytes_sent + of_nat n) s'
      else Some (sint total_bytes_sent, s))"

definition participant_util_SendForever :: "bytes \<Rightarrow> sock \<Rightarrow> (int \<times> sock) option" where
  "participant_util_SendForever buf s = participant_util_SendForever_loop buf 0 s"

lemma participant_util_ReceiveForever_eq: "participant_util_ReceiveForever n s = ReceiveForever n s"
proof (induction n s rule: participant_util_ReceiveForever.induct)
  case (1 n s)
  then show ?case
    by (cases "sys_recv n s")
      (auto simp: participant_util_ReceiveForever.simps [of n s] ReceiveForever.simps [of n s])
qed

lemma SendForever_loops_agree:
  "SendForever_loop buf k s = Some r \<Longrightarrow> participant_util_SendForever_loop buf k s = Some r"
  "participant_util_SendForever_loop buf k s = Some r \<Longrightarrow> SendForever_loop buf k s = Some r"
  subgoal
    by (erule SendForever_loop.raw_induct [rotated], subst participant_util_SendForever_loop.simps)
      (auto split: if_splits prod.splits sum.splits)
  subgoal
    by (erule participant_util_SendForever_loop.raw_induct [rotated], subst SendForever_loop.simps)
      (auto split: if_splits prod.splits sum.splits)
  done

lemma participant_util_SendForever_loop_eq:
  "participant_util_SendForever_loop buf k s = SendForever_loop buf k s"
  using SendForever_loops_agree [of buf k s]
  by (cases "SendForever_loop buf k s"; cases "participant_util_SendForever_loop buf k s") auto

section \<open>Multicast receiver\<close>

text \<open>
  Code from outside: the encodings, and what the fields of a message hold after a failed parse.
\<close>

record participant_env =
  request_codec :: "CoordinatorMessage codec"
  reg_response_codec :: "u32 codec"
  multicast_codec :: "ForwardMulticast codec"
  unparsed_multicast :: ForwardMulticast
  unparsed_response :: u32

text \<open>\<open>log_file\<close> is the text that this receiver has appended to its log.\<close>

record multicast_receiver =
  server_fd :: int
  receive_fd :: int
  listen_port :: int
  log_file :: string
  mparser :: parser
  msock :: sock

definition new_MulticastReceiver :: "int \<Rightarrow> multicast_receiver" where
  "new_MulticastReceiver p =
     \<lparr>server_fd = -1, receive_fd = -1, listen_port = p, log_file = [], mparser = new_parser, msock = bad_fd\<rparr>"

text \<open>What \<open>accept()\<close> does: a connection, a failure, or nobody ever connects.\<close>

datatype accept_call = AcceptFd int sock | AcceptErr | AcceptNever

definition MulticastReceiver_SetUp ::
  "listen_calls \<Rightarrow> accept_call \<Rightarrow> multicast_receiver \<Rightarrow> fd_table \<Rightarrow>
   (status \<times> multicast_receiver \<times> fd_table) outcome" where
  "MulticastReceiver_SetUp lk acc r t =
     (case participant_util_SetUpListenerSocket lk (participant_util_MakeAddress (of_int (listen_port r))) t of
        (f, t1) \<Rightarrow>
          let r1 = r\<lparr>server_fd := f\<rparr>
          in if f < 0 then Ret (FAILED, r1\<lparr>receive_fd := -1\<rparr>, t1)
             else case acc of
                    AcceptNever \<Rightarrow> Block
                  | AcceptErr \<Rightarrow> Ret (FAILED, r1\<lparr>receive_fd := -1\<rparr>, t1)
                  | AcceptFd g s \<Rightarrow>
                      Ret (RUNNING, r1\<lparr>receive_fd := g, msock := s\<rparr>,
                           t1(g \<mapsto> new_fd\<lparr>rcv_timeout := Some kSocketTimeout\<rparr>)))"

definition multicast_line :: "ForwardMulticast \<Rightarrow> string" where
  "multicast_line m = ''['' @ nat_string (unat (origin_id m)) @ ''] '' @ fmessage m"

definition MulticastReceiver_RunAtomic ::
  "participant_env \<Rightarrow> multicast_receiver \<Rightarrow> console \<Rightarrow> (status \<times> multicast_receiver \<times> console) outcome" where
  "MulticastReceiver_RunAtomic e r cn =
     (if HasCompleteMessage (mparser r)
      then
        obind (GetMessage (multicast_codec e) (mparser r)) (\<lambda>(m, p).
          let to_out = multicast_line (case m of None \<Rightarrow> unparsed_multicast e | Some m' \<Rightarrow> m')
          in obind (SendConsole to_out cn) (\<lambda>cn'.
               Ret (RUNNING, r\<lparr>mparser := p, log_file := log_file r @ to_out @ [newline]\<rparr>, cn')))
      else
        obind (sys_recv 4096 (msock r)) (\<lambda>(res, s).
          case res of
            IoErr \<Rightarrow> Ret (if is_timeout (errno s) then RUNNING else FAILED, r\<lparr>msock := s\<rparr>, cn)
          | IoBytes bs \<Rightarrow>
              if bs = [] then Ret (DONE, r\<lparr>msock := s\<rparr>, cn)
              else obind (AddNewData (mparser r) bs) (\<lambda>p. Ret (RUNNING, r\<lparr>mparser := p, msock := s\<rparr>, cn))))"

definition MulticastReceiver_CleanUp :: "multicast_receiver \<Rightarrow> fd_table \<Rightarrow> fd_table" where
  "MulticastReceiver_CleanUp r t = t(receive_fd r := None, server_fd r := None)"

section \<open>Participant\<close>

datatype receiver_phase = InSetUp | Receiving | Ended

record mc_participant =
  pinput :: participant_input
  pconsole :: console
  preceiver :: "(multicast_receiver \<times> receiver_phase) option"
  group_connected :: bool
  running :: bool
  coordinator_ip :: string
  coordinator_port :: int
  log_location :: string
  response_parser :: parser
  pfds :: fd_table
  pout :: string
  console_cancelled :: bool

definition participant_console :: "string \<Rightarrow> mc_participant \<Rightarrow> mc_participant outcome" where
  "participant_console m p = obind (SendConsole m (pconsole p)) (\<lambda>c. Ret (p\<lparr>pconsole := c\<rparr>))"

lemma participant_ReceiveForever_progress:
  "participant_util_ReceiveForever n s = Ret (IoBytes bs, s') \<Longrightarrow> bs \<noteq> [] \<Longrightarrow> rx_size (rx s') < rx_size (rx s)"
  by (simp add: participant_util_ReceiveForever_eq ReceiveForever_IoBytes)

function Participant_WaitForMessage_loop :: "parser \<Rightarrow> sock \<Rightarrow> (parser \<times> sock) outcome" where
  "Participant_WaitForMessage_loop p s =
     (if HasCompleteMessage p then Ret (p, s)
      else obind (participant_util_ReceiveForever 4096 s) (\<lambda>(r, s').
        case r of
          IoErr \<Rightarrow> Ret (p, s')
        | IoBytes bs \<Rightarrow>
            if bs = [] then Ret (p, s')
            else obind (AddNewData p bs) (\<lambda>p'. Participant_WaitForMessage_loop p' s')))"
  by pat_completeness auto
termination
  by (relation "measure (\<lambda>(p, s). rx_size (rx s))") (auto dest: participant_ReceiveForever_progress)

declare Participant_WaitForMessage_loop.simps [simp del]

definition Participant_WaitForMessage :: "sock \<Rightarrow> mc_participant \<Rightarrow> mc_participant outcome" where
  "Participant_WaitForMessage s p =
     obind (Participant_WaitForMessage_loop (ResetParser (response_parser p)) s) (\<lambda>(q, s').
       Ret (p\<lparr>response_parser := q\<rparr>))"

text \<open>
  \<open>s\<close> is the connection that a successful \<open>connect()\<close> gives. The result of \<open>Serialize\<close> is not
  looked at; without a connection the bytes go to descriptor \<open>-1\<close>.
\<close>

definition ConnectAndSend ::
  "participant_env \<Rightarrow> connect_calls \<Rightarrow> sock \<Rightarrow> CoordinatorMessage \<Rightarrow> mc_participant \<Rightarrow>
   (int \<times> sock \<times> mc_participant) option" where
  "ConnectAndSend e k s m p =
     (case participant_util_SetUpSocket k (participant_util_MakeAddress (of_int (coordinator_port p))) (coordinator_ip p) (pfds p) of
        (participant_fd, a, t) \<Rightarrow>
          let p1 = p\<lparr>pfds := t\<rparr>; outgoing_buf = snd (Serialize (request_codec e) m [])
          in case participant_util_SendForever outgoing_buf (if participant_fd < 0 then bad_fd else s) of
               None \<Rightarrow> None
             | Some (n, s') \<Rightarrow> Some (if n < 0 then -1 else participant_fd, s', p1))"

definition start_receiver :: "mc_participant \<Rightarrow> mc_participant outcome" where
  "start_receiver p =
     (if group_connected p then participant_console ''Already connected!'' p
      else
        let pt = req_port (pinput p);
            statement = (if req_type (pinput p) = REG then ''Registered'' else ''Connected'')
        in participant_console (statement @ '', listening on '' @ int_string pt)
             (p\<lparr>preceiver := Some (new_MulticastReceiver pt, InSetUp), group_connected := True\<rparr>))"

text \<open>
  \<open>CancelTask\<close> and \<open>WaitForCompletion\<close> on the receiver: a receiver that still waits in
  \<open>accept()\<close> never looks at the cancellation; one that receives stops after its iteration.
\<close>

definition stop_receiver :: "mc_participant \<Rightarrow> mc_participant outcome" where
  "stop_receiver p =
     (case preceiver p of
        None \<Rightarrow> Crash
      | Some (r, InSetUp) \<Rightarrow> Block
      | Some (r, Receiving) \<Rightarrow>
          Ret (p\<lparr>preceiver := Some (r, Ended), pfds := MulticastReceiver_CleanUp r (pfds p)\<rparr>)
      | Some (r, Ended) \<Rightarrow> Ret p)"

definition after_request :: "participant_env \<Rightarrow> sock \<Rightarrow> mc_participant \<Rightarrow> mc_participant outcome" where
  "after_request e s p =
     (case req_type (pinput p) of
        REG \<Rightarrow>
          obind (Participant_WaitForMessage s p) (\<lambda>p1.
          let complete = HasCompleteMessage (response_parser p1)
          in obind (GetMessage (reg_response_codec e) (response_parser p1)) (\<lambda>(m, q).
               let i = (case m of Some i \<Rightarrow> i | None \<Rightarrow> if complete then unparsed_response e else 0)
               in start_receiver (p1\<lparr>response_parser := q, pinput := (pinput p1)\<lparr>my_id := sint i\<rparr>\<rparr>)))
      | RECON \<Rightarrow> start_receiver p
      | DEREG \<Rightarrow>
          if \<not> group_connected p then participant_console ''Nothing to disconnect from!'' p
          else obind (stop_receiver p) (\<lambda>p1. participant_console ''Deregistered!'' (p1\<lparr>group_connected := False\<rparr>))
      | DISCON \<Rightarrow>
          if \<not> group_connected p then participant_console ''Nothing to disconnect from!'' p
          else obind (stop_receiver p) (\<lambda>p1. participant_console ''Disconnected!'' (p1\<lparr>group_connected := False\<rparr>))
      | _ \<Rightarrow> Ret p)"

text \<open>One round of the loop of \<open>Start\<close>, on a line of input.\<close>

definition Participant_line ::
  "participant_env \<Rightarrow> connect_calls \<Rightarrow> sock \<Rightarrow> string \<Rightarrow> mc_participant \<Rightarrow> mc_participant outcome option" where
  "Participant_line e k s input p =
     (let ip = Participant_Parse input (pinput p); p1 = p\<lparr>pinput := ip\<rparr>
      in if \<not> input_valid ip then Some (participant_console ''Invalid command!'' p1)
         else if req_type ip = QUIT
         then Some (participant_console ''Bye!'' (p1\<lparr>console_cancelled := True, running := False\<rparr>))
         else case Participant_CreateReq ip of
                None \<Rightarrow> Some Crash
              | Some m \<Rightarrow>
                  (case ConnectAndSend e k s m p1 of
                     None \<Rightarrow> None
                   | Some (participant_fd, s1, p2) \<Rightarrow>
                       if participant_fd = -1
                       then Some (Ret (p2\<lparr>pout := pout p2 @
                              ''Couldn't instantiate a connection with coordinator.'' @ [newline],
                              running := False\<rparr>))
                       else Some (obind (after_request e s1 p2) (\<lambda>p3.
                              Ret (p3\<lparr>pfds := (pfds p3)(participant_fd := None)\<rparr>)))))"

text \<open>The loop of \<open>Start\<close> reads its line with \<open>getline\<close> into a fresh string, whether that fails or not.\<close>

definition Participant_round ::
  "participant_env \<Rightarrow> connect_calls \<Rightarrow> sock \<Rightarrow> istream \<Rightarrow> mc_participant \<Rightarrow>
   (istream \<times> mc_participant outcome) option" where
  "Participant_round e k s cin p =
     (if \<not> running p then Some (cin, Ret p)
      else case getline cin [] of
             (ok, input, cin') \<Rightarrow> map_option (Pair cin') (Participant_line e k s input p))"

text \<open>\<open>LoadConfig\<close>: the text of the file, or \<open>None\<close> when it cannot be opened.\<close>

definition Participant_LoadConfig :: "string option \<Rightarrow> mc_participant \<Rightarrow> mc_participant" where
  "Participant_LoadConfig conf p =
     (case conf of
        None \<Rightarrow> p\<lparr>pout := pout p @ ''No config or invalid config found!'' @ [newline], running := False\<rparr>
      | Some f \<Rightarrow>
          let (_, l1, f1) = getline (Some f) [];
              (_, l2, f2) = getline f1 l1;
              (_, l3, f3) = getline f2 l2;
              (ip, ss) = read_word l3 (coordinator_ip p)
          in p\<lparr>log_location := l2, coordinator_ip := ip,
               coordinator_port := fst (read_int ss (coordinator_port p))\<rparr>)"

definition new_Participant :: "int \<Rightarrow> int \<Rightarrow> int \<Rightarrow> string option \<Rightarrow> mc_participant" where
  "new_Participant uninit_port uninit_id uninit_coordinator conf =
     Participant_LoadConfig conf
       \<lparr>pinput = new_participant_input uninit_port uninit_id, pconsole = new_ConsoleTask ''participant=> '',
        preceiver = None, group_connected = False, running = True, coordinator_ip = [],
        coordinator_port = uninit_coordinator, log_location = [], response_parser = new_parser,
        pfds = Map.empty, pout = [], console_cancelled = False\<rparr>"

text \<open>The program: its message and exit code 1, or a participant with the configuration of its argument.\<close>

definition participant_main ::
  "int \<Rightarrow> int \<Rightarrow> int \<Rightarrow> (string \<Rightarrow> string option) \<Rightarrow> string list \<Rightarrow> string \<times> int + mc_participant" where
  "participant_main uninit_port uninit_id uninit_coordinator file argv =
     (if length argv \<noteq> 2 then Inl (newline # ''Incorrect # of inputs. Configuration file expected'', 1)
      else Inr (new_Participant uninit_port uninit_id uninit_coordinator (file (argv ! 1))))"

section \<open>The receiver at work\<close>

text \<open>\<open>k\<close> iterations of the receiver, as long as it is running.\<close>

fun run_multicast ::
  "nat \<Rightarrow> participant_env \<Rightarrow> multicast_receiver \<Rightarrow> console \<Rightarrow> (status \<times> multicast_receiver \<times> console) outcome"
where
  "run_multicast 0 e r cn = Ret (RUNNING, r, cn)"
| "run_multicast (Suc k) e r cn =
     obind (MulticastReceiver_RunAtomic e r cn) (\<lambda>(st, r', cn').
       if st = RUNNING then run_multicast k e r' cn' else Ret (st, r', cn'))"

lemma run_multicast_add:
  "run_multicast j e r cn = Ret (RUNNING, r', cn') \<Longrightarrow>
   run_multicast (j + k) e r cn = run_multicast k e r' cn'"
proof (induction j arbitrary: r cn)
  case (Suc j)
  then obtain st r1 cn1 where "MulticastReceiver_RunAtomic e r cn = Ret (st, r1, cn1)"
      "(if st = RUNNING then run_multicast j e r1 cn1 else Ret (st, r1, cn1)) = Ret (RUNNING, r', cn')"
    by (auto simp: outcome_simps)
  then show ?case using Suc.IH by (auto split: if_splits)
qed simp

definition unbounded :: "console \<Rightarrow> bool" where
  "unbounded cn \<longleftrightarrow> max_length (console_message_queue cn) = 0"

definition reader_ok :: "multicast_receiver \<Rightarrow> console \<Rightarrow> bool" where
  "reader_ok r cn \<longleftrightarrow> wf_parser (mparser r) \<and> unbounded cn"

text \<open>The message that the parser holds is printed; without one, the next segment is parsed.\<close>

lemma RunAtomic_prints:
  assumes "codec_ok (multicast_codec e)" and "ByteSizeLong (multicast_codec e) m < 2 ^ 31" and "reader_ok r cn"
    and "split_frame (pending (mparser r) (msock r)) = Some (encode (multicast_codec e) m, rest)"
    and "HasCompleteMessage (mparser r)"
  shows "\<exists>p'. MulticastReceiver_RunAtomic e r cn =
      Ret (RUNNING, r\<lparr>mparser := p', log_file := log_file r @ multicast_line m @ [newline]\<rparr>,
        cn\<lparr>console_message_queue := (console_message_queue cn)
          \<lparr>queue := queue (console_message_queue cn) @ [multicast_line m]\<rparr>\<rparr>) \<and>
    wf_parser p' \<and> pending p' (msock r) = rest"
proof -
  let ?p = "mparser r" and ?s = "msock r"
  have wf: "wf_parser ?p" and un: "unbounded cn" using assms(3) by (simp_all add: reader_ok_def)
  obtain body r0 where br: "split_frame (unread ?p) = Some (body, r0)"
    using wf_complete_iff [OF wf] assms(5) by (cases "split_frame (unread ?p)") auto
  then have "split_frame (pending ?p ?s) = Some (body, r0 @ rx_stream (rx ?s))"
    using split_frame_append by (metis pending_def)
  with assms(4) br have b: "split_frame (unread ?p) = Some (encode (multicast_codec e) m, r0)"
      "rest = r0 @ rx_stream (rx ?s)"
    by auto
  then obtain p' where "GetMessage (multicast_codec e) ?p = Ret (Some m, p')" "wf_parser p'" "unread p' = r0"
    using GetMessage_encoded [OF wf assms(1,2)] by blast
  then show ?thesis
    using assms(5) un b(2)
    by (intro exI [of _ p']) (simp add: MulticastReceiver_RunAtomic_def unbounded_def pending_def Let_def)
qed

lemma RunAtomic_reads:
  assumes "reader_ok r cn" and "rx_stream (rx (msock r)) \<noteq> []" and "\<not> HasCompleteMessage (mparser r)"
  shows "\<exists>p' s'. MulticastReceiver_RunAtomic e r cn = Ret (RUNNING, r\<lparr>mparser := p', msock := s'\<rparr>, cn) \<and>
    wf_parser p' \<and> pending p' s' = pending (mparser r) (msock r) \<and> rx_size (rx s') < rx_size (rx (msock r))"
proof -
  have wf: "wf_parser (mparser r)" using assms(1) by (simp add: reader_ok_def)
  obtain bs s1 where r: "sys_recv 4096 (msock r) = Ret (IoBytes bs, s1)" "bs \<noteq> []"
    using sys_recv_data [OF assms(2), of 4096] by auto
  have "length bs < 2 ^ 31" using sys_recv_bound [OF r(1)] by simp
  then obtain p1 where "AddNewData (mparser r) bs = Ret p1" "wf_parser p1" "unread p1 = unread (mparser r) @ bs"
    using AddNewData_refines [OF wf, of bs] wf_incomplete_no_overflow [OF wf assms(3)] by auto
  then show ?thesis
    using r assms(3) sys_recv_progress [OF r] sys_recv_stream [OF r(1)]
    by (intro exI [of _ p1] exI [of _ s1]) (simp add: MulticastReceiver_RunAtomic_def pending_def)
qed

text \<open>The receiver prints the next message of its stream, in whatever segments it arrives.\<close>

lemma run_multicast_next:
  assumes "codec_ok (multicast_codec e)" and "ByteSizeLong (multicast_codec e) m < 2 ^ 31"
  shows "reader_ok r cn \<Longrightarrow> pending (mparser r) (msock r) = frame (encode (multicast_codec e) m) @ rest \<Longrightarrow>
    \<exists>k r' cn'. run_multicast k e r cn = Ret (RUNNING, r', cn') \<and> reader_ok r' cn' \<and>
      pending (mparser r') (msock r') = rest \<and>
      log_file r' = log_file r @ multicast_line m @ [newline] \<and>
      queue (console_message_queue cn') = queue (console_message_queue cn) @ [multicast_line m] \<and>
      prompt cn' = prompt cn \<and> console_out cn' = console_out cn"
proof (induction "rx_size (rx (msock r))" arbitrary: r rule: less_induct)
  case less
  let ?c = "multicast_codec e"
  have "length (encode ?c m) < 2 ^ 32" using codec_okD(2) [OF assms] assms(2) by simp
  then have split: "split_frame (pending (mparser r) (msock r)) = Some (encode ?c m, rest)"
    using less.prems(2) by (simp add: split_frame_frame)
  show ?case
  proof (cases "HasCompleteMessage (mparser r)")
    case True
    from RunAtomic_prints [OF assms less.prems(1) split True] less.prems(1) show ?thesis
      by (intro exI [of _ "Suc 0"]) (auto simp: reader_ok_def unbounded_def)
  next
    case False
    have "rx_stream (rx (msock r)) \<noteq> []"
      using False wf_complete_iff [of "mparser r"] less.prems(1) split by (auto simp: pending_def reader_ok_def)
    then obtain p1 s1 where s: "MulticastReceiver_RunAtomic e r cn = Ret (RUNNING, r\<lparr>mparser := p1, msock := s1\<rparr>, cn)"
        "wf_parser p1" "pending p1 s1 = pending (mparser r) (msock r)" "rx_size (rx s1) < rx_size (rx (msock r))"
      using RunAtomic_reads [OF less.prems(1) _ False] by blast
    let ?r = "r\<lparr>mparser := p1, msock := s1\<rparr>"
    obtain k r' cn' where k: "run_multicast k e ?r cn = Ret (RUNNING, r', cn')" "reader_ok r' cn'"
        "pending (mparser r') (msock r') = rest" "log_file r' = log_file r @ multicast_line m @ [newline]"
        "queue (console_message_queue cn') = queue (console_message_queue cn) @ [multicast_line m]"
        "prompt cn' = prompt cn" "console_out cn' = console_out cn"
      using less.hyps [of ?r] less.prems s(2-4) by (auto simp: reader_ok_def)
    have "run_multicast (Suc k) e r cn = Ret (RUNNING, r', cn')" using s(1) k(1) by simp
    then show ?thesis using k by blast
  qed
qed

lemma run_multicast_all:
  assumes "codec_ok (multicast_codec e)"
  shows "\<forall>m\<in>set ms. ByteSizeLong (multicast_codec e) m < 2 ^ 31 \<Longrightarrow> reader_ok r cn \<Longrightarrow>
    pending (mparser r) (msock r) = concat (map (\<lambda>m. frame (encode (multicast_codec e) m)) ms) @ rest \<Longrightarrow>
    \<exists>k r' cn'. run_multicast k e r cn = Ret (RUNNING, r', cn') \<and> reader_ok r' cn' \<and>
      pending (mparser r') (msock r') = rest \<and>
      log_file r' = log_file r @ lines (map multicast_line ms) \<and>
      queue (console_message_queue cn') = queue (console_message_queue cn) @ map multicast_line ms \<and>
      prompt cn' = prompt cn \<and> console_out cn' = console_out cn"
proof (induction ms arbitrary: r cn)
  case Nil
  then show ?case by (intro exI [of _ 0]) simp
next
  case (Cons m ms)
  then obtain k r1 cn1 where k: "run_multicast k e r cn = Ret (RUNNING, r1, cn1)" "reader_ok r1 cn1"
      "pending (mparser r1) (msock r1) = concat (map (\<lambda>m. frame (encode (multicast_codec e) m)) ms) @ rest"
      "log_file r1 = log_file r @ multicast_line m @ [newline]"
      "queue (console_message_queue cn1) = queue (console_message_queue cn) @ [multicast_line m]"
      "prompt cn1 = prompt cn" "console_out cn1 = console_out cn"
    using run_multicast_next [OF assms, of m r cn] by auto
  then obtain j r' cn' where j: "run_multicast j e r1 cn1 = Ret (RUNNING, r', cn')" "reader_ok r' cn'"
      "pending (mparser r') (msock r') = rest" "log_file r' = log_file r1 @ lines (map multicast_line ms)"
      "queue (console_message_queue cn') = queue (console_message_queue cn1) @ map multicast_line ms"
      "prompt cn' = prompt cn1" "console_out cn' = console_out cn1"
    using Cons.IH [of r1 cn1] Cons.prems(1) by auto
  have "run_multicast (k + j) e r cn = Ret (RUNNING, r', cn')"
    using run_multicast_add [OF k(1)] j(1) by simp
  then show ?case using k j by auto
qed

section \<open>Properties\<close>

text \<open>A codec for the witnesses, and a receiver that has just accepted.\<close>

definition demo_participant_env :: "ForwardMulticast list \<Rightarrow> CoordinatorMessage list \<Rightarrow> participant_env" where
  "demo_participant_env fs ms =
     \<lparr>request_codec = table_codec ms, reg_response_codec = table_codec [1, 2, 3],
      multicast_codec = table_codec fs, unparsed_multicast = \<lparr>fmessage = [], origin_id = 0\<rparr>,
      unparsed_response = 0\<rparr>"

text \<open>
  The receiver of a participant prints what the coordinator sends. When the stream of its
  connection is a sequence of serialized multicasts, in any segments, then after finitely many
  iterations it has appended exactly one line \<open>[id] message\<close> per multicast to its log file, in
  order, has sent the same lines to the console, is still running, and what follows in the
  stream is still to be read.
\<close>

theorem multicast_receiver_prints:
  assumes "codec_ok (multicast_codec e)" and "\<forall>m\<in>set ms. ByteSizeLong (multicast_codec e) m < 2 ^ 31"
    and "mparser r = new_parser" and "max_length (console_message_queue cn) = 0"
    and "rx_stream (rx (msock r)) = concat (map (\<lambda>m. snd (Serialize (multicast_codec e) m [])) ms) @ rest"
  shows "\<exists>k r' cn'. run_multicast k e r cn = Ret (RUNNING, r', cn') \<and>
    log_file r' = log_file r @ lines (map multicast_line ms) \<and>
    queue (console_message_queue cn') = queue (console_message_queue cn) @ map multicast_line ms \<and>
    pending (mparser r') (msock r') = rest"
proof -
  have "pending (mparser r) (msock r) = concat (map (\<lambda>m. frame (encode (multicast_codec e) m)) ms) @ rest"
    using assms(3,5) concat_Serialize_frame [OF assms(1,2)] by (simp add: pending_def)
  moreover have "reader_ok r cn" using assms(3,4) wf_new_parser by (simp add: reader_ok_def unbounded_def)
  ultimately show ?thesis using run_multicast_all [OF assms(1,2)] by blast
qed

theorem multicast_receiver_prints_witness:
  "\<exists>k r' cn'. run_multicast k (demo_participant_env [\<lparr>fmessage = ''hi'', origin_id = 2\<rparr>] [])
      ((new_MulticastReceiver 80)\<lparr>msock := \<lparr>rx = [RxData [0, 0, 0], RxData [1, 0, 0], RxData [0, 0, 1, 0, 9]],
        tx = [], wire = [], errno = NoErr\<rparr>\<rparr>) (new_ConsoleTask ''> '') = Ret (RUNNING, r', cn') \<and>
    log_file r' = lines [''[2] hi'', ''[2] hi''] \<and>
    queue (console_message_queue cn') = [''[2] hi'', ''[2] hi''] \<and>
    pending (mparser r') (msock r') = [9]"
proof -
  have ok: "codec_ok (multicast_codec (demo_participant_env [\<lparr>fmessage = ''hi'', origin_id = 2\<rparr>] []))"
    by (simp add: demo_participant_env_def table_codec_ok)
  have line: "multicast_line \<lparr>fmessage = ''hi'', origin_id = 2\<rparr> = ''[2] hi''"
    by code_simp
  show ?thesis
    using multicast_receiver_prints [OF ok,
        of "[\<lparr>fmessage = ''hi'', origin_id = 2\<rparr>, \<lparr>fmessage = ''hi'', origin_id = 2\<rparr>]"
          "(new_MulticastReceiver 80)\<lparr>msock := \<lparr>rx = [RxData [0, 0, 0], RxData [1, 0, 0], RxData [0, 0, 1, 0, 9]],
            tx = [], wire = [], errno = NoErr\<rparr>\<rparr>" "new_ConsoleTask ''> ''" "[9]"]
    by (simp add: line new_MulticastReceiver_def new_ConsoleTask_def new_queue_def demo_participant_env_def
        table_codec_def Serialize_def resize_def htonl_bytes_def)
qed

text \<open>
  The participant's copies of \<open>ReceiveForever\<close> and \<open>SendForever\<close> compute the same as the ones
  of the file client, whatever the socket does (the same result, the same failure, and neither
  returns where the other does not).
\<close>

theorem participant_util_loops_agree:
  "participant_util_ReceiveForever n s = ReceiveForever n s \<and>
   participant_util_SendForever buf s = SendForever buf s"
  by (simp add: participant_util_ReceiveForever_eq participant_util_SendForever_def SendForever_def
      participant_util_SendForever_loop_eq)

lemma Parse_msend:
  assumes "newline \<notin> set body"
  shows "Participant_Parse (''msend '' @ body) ip = ip\<lparr>input_valid := True, req_type := MSEND, message_text := '' '' @ body\<rparr>"
proof -
  have w: "is_word ''msend''" "starts_with_space ('' '' @ body)"
    by (simp_all add: is_word_def is_space_def starts_with_space_def)
  have "read_word (''msend'' @ '' '' @ body) [] = (''msend'', '' '' @ body)"
    by (rule read_word_word(1) [OF w])
  then show ?thesis using assms
    by (simp add: Participant_Parse_def commands_def stream_after_def)
qed

lemma Parse_msend_bare:
  "Participant_Parse ''msend'' ip = ip\<lparr>input_valid := True, req_type := MSEND\<rparr>"
proof -
  have w: "is_word ''msend''" "starts_with_space []"
    by (simp_all add: is_word_def is_space_def starts_with_space_def)
  have "read_word (''msend'' @ []) [] = (''msend'', [])"
    by (rule read_word_word(1) [OF w])
  then show ?thesis by (simp add: Participant_Parse_def commands_def stream_after_def)
qed

text \<open>
  \<open>msend\<close> with a text sends the text with its leading blank; \<open>msend\<close> alone sends the text of the
  \<open>msend\<close> before it once more, because the \<open>getline\<close> that should read the text fails and leaves the
  member as it was.
\<close>

theorem msend_text_stale:
  assumes "newline \<notin> set body"
  shows "Participant_CreateReq (Participant_Parse (''msend '' @ body) ip) =
      Some (SendMulticast ('' '' @ body) (of_int (my_id ip))) \<and>
    Participant_CreateReq (Participant_Parse ''msend'' (Participant_Parse (''msend '' @ body) ip)) =
      Some (SendMulticast ('' '' @ body) (of_int (my_id ip)))"
  using assms by (simp add: Parse_msend Parse_msend_bare Participant_CreateReq_def del: append.simps)

theorem msend_text_stale_witness:
  "Participant_CreateReq (Participant_Parse ''msend hi'' (new_participant_input 0 7)) =
      Some (SendMulticast '' hi'' 7) \<and>
    Participant_CreateReq (Participant_Parse ''msend'' (Participant_Parse ''msend hi'' (new_participant_input 0 7))) =
      Some (SendMulticast '' hi'' 7)"
  using msend_text_stale [of "''hi''" "new_participant_input 0 7"] by (simp add: new_participant_input_def)

text \<open>
  A command that reaches the coordinator: the request goes out whole on the new connection.
\<close>

lemma ConnectAndSend_writes:
  assumes "codec_ok (request_codec e)" and "ByteSizeLong (request_codec e) m < 2 ^ 30"
    and "0 \<le> socket_ret k" and "pton k (coordinator_ip p) \<noteq> None" and "0 \<le> connect_ret k" and "accepting s"
  shows "\<exists>s' t'. ConnectAndSend e k s m p = Some (socket_ret k, s', p\<lparr>pfds := t'\<rparr>) \<and>
    wire s' = wire s @ frame (encode (request_codec e) m) \<and> rx s' = rx s \<and>
    t'(socket_ret k := None) = (pfds p)(socket_ret k := None)"
proof -
  let ?F = "frame (encode (request_codec e) m)"
  have small: "ByteSizeLong (request_codec e) m < 2 ^ 31" using assms(2) by simp
  have len: "length (encode (request_codec e) m) < 2 ^ 30"
    using codec_okD(2) [OF assms(1) small] assms(2) by simp
  obtain ip where ip: "pton k (coordinator_ip p) = Some ip" using assms(4) by blast
  obtain a d where c: "participant_util_SetUpSocket k (participant_util_MakeAddress (of_int (coordinator_port p))) (coordinator_ip p)
      (pfds p) = (socket_ret k, a, (pfds p)(socket_ret k \<mapsto> d))"
    using participant_util.accepted [OF assms(3) ip assms(5)] by blast
  have "length ?F < 2 ^ 31" using len by (simp add: frame_def)
  then obtain s' where "SendForever ?F s = Some (int (length ?F), s')" "wire s' = wire s @ ?F" "rx s' = rx s"
    using SendForever_loop_accepting [OF _ assms(6), of ?F 0] by (auto simp: SendForever_def)
  then show ?thesis
    using c assms(3) Serialize_frame [OF assms(1) small]
    by (intro exI [of _ s'] exI [of _ "(pfds p)(socket_ret k \<mapsto> d)"])
      (simp add: ConnectAndSend_def participant_util_SendForever_def participant_util_SendForever_loop_eq
        SendForever_def)
qed

lemma new_Participant_ready:
  "running (new_Participant a b c (Some f))"
  "console_message_queue (pconsole (new_Participant a b c conf)) = new_queue 0"
  by (auto simp: new_Participant_def Participant_LoadConfig_def new_ConsoleTask_def Let_def
      split: option.split prod.split)

fun Participant_rounds ::
  "nat \<Rightarrow> participant_env \<Rightarrow> connect_calls \<Rightarrow> sock \<Rightarrow> istream \<Rightarrow> mc_participant \<Rightarrow>
   (istream \<times> mc_participant outcome) option" where
  "Participant_rounds 0 e k s cin p = Some (cin, Ret p)"
| "Participant_rounds (Suc n) e k s cin p =
     (case Participant_round e k s cin p of
        Some (cin', Ret p') \<Rightarrow> Participant_rounds n e k s cin' p'
      | r \<Rightarrow> r)"

text \<open>
  At the end of its input the participant spins. Nobody looks whether \<open>getline\<close> failed, so
  every round takes an empty command, finds it invalid and goes on: after any number of rounds
  the participant is still running, and the queue of its console has grown by as many
  messages.
\<close>

theorem participant_spins_at_eof:
  assumes "running p" and "max_length (console_message_queue (pconsole p)) = 0"
  shows "\<exists>p'. Participant_rounds n e k s None p = Some (None, Ret p') \<and> running p' \<and>
    queue (console_message_queue (pconsole p')) =
      queue (console_message_queue (pconsole p)) @ replicate n ''Invalid command!''"
  using assms
proof (induction n arbitrary: p)
  case (Suc n)
  let ?c = "console_message_queue (pconsole p)"
  let ?p = "p\<lparr>pinput := (pinput p)\<lparr>input_valid := False\<rparr>, pconsole := (pconsole p)\<lparr>console_message_queue :=
    ?c\<lparr>queue := queue ?c @ [''Invalid command!'']\<rparr>\<rparr>\<rparr>"
  have "Participant_round e k s None p = Some (None, Ret ?p)"
    using Suc.prems by (simp add: Participant_round_def Participant_line_def Participant_Parse_def commands_def
        participant_console_def)
  moreover obtain p' where "Participant_rounds n e k s None ?p = Some (None, Ret p')" "running p'"
      "queue (console_message_queue (pconsole p')) =
        queue (console_message_queue (pconsole ?p)) @ replicate n ''Invalid command!''"
    using Suc.IH [of ?p] Suc.prems by auto
  ultimately show ?case by simp
qed simp

theorem participant_spins_at_eof_witness:
  "\<exists>p'. Participant_rounds 2 (demo_participant_env [] []) \<lparr>socket_ret = 3, pton = (\<lambda>_. None), connect_ret = 0\<rparr> bad_fd
      None (new_Participant 0 0 0 (Some ''1'')) = Some (None, Ret p') \<and> running p' \<and>
    queue (console_message_queue (pconsole p')) = [''Invalid command!'', ''Invalid command!'']"
  using participant_spins_at_eof [of "new_Participant 0 0 0 (Some ''1'')" 2 "demo_participant_env [] []"
      "\<lparr>socket_ret = 3, pton = (\<lambda>_. None), connect_ret = 0\<rparr>" bad_fd]
  by (simp add: new_Participant_ready new_queue_def numeral_2_eq_2 del: Participant_rounds.simps)

text \<open>
  A participant whose coordinator never connects back cannot leave: \<open>disconnect\<close> waits for the
  receiver, which waits in \<open>accept()\<close>.
\<close>

theorem disconnect_waits_for_accept:
  assumes "req_type (pinput p) = DISCON \<or> req_type (pinput p) = DEREG" and "group_connected p"
    and "preceiver p = Some (r, InSetUp)"
  shows "after_request e s p = Block"
  using assms by (auto simp: after_request_def stop_receiver_def)

end
