(* ===== verification/Participant_Threads.thy ===== *)
theory Participant_Threads
  imports Multicast_Participant
begin

text \<open>
  The threads of a participant (\<open>project3/participant\<close>): the shell, which is the main thread with the
  loop of \<open>Start\<close> and the destructors after it; the console task, which prints; and the task that
  receives the multicasts. \<open>Multicast_Participant\<close> treats a command and an iteration of a task as one
  step; here every access to what the threads share is a step of its own, and a run is any
  interleaving of these steps. The pool is represented by what a task sees of it: whether it has been
  cancelled when its thread looks, after \<open>SetUp\<close> and after every iteration.

  The lemmas: a thread that is not interrupted does what \<open>Multicast_Participant\<close> and \<open>Console_Task\<close> say;
  everything that is sent to the console is printed once and in order, and the log of a receiver
  holds what that receiver sent; no interleaving crashes; \<open>quit\<close> ends the console task, and a failed
  connection leaves it waiting, so that the program does not end.
\<close>

section \<open>Where the threads are\<close>

text \<open>
  The shell. The descriptor of the connection that a command has opened is carried along until
  \<open>Sh_Close\<close>; \<open>Sh_Say\<close> is a call of \<open>SendConsole\<close>. \<open>Sh_Return\<close> is the end of \<open>Start\<close>, \<open>Sh_Destroy\<close> the
  wait of the destructor of the pool for its threads.
\<close>

datatype part_pc =
    Sh_Loop
  | Sh_Read
  | Sh_Cancel
  | Sh_Connect
  | Sh_Wait int sock
  | Sh_Start int
  | Sh_Stop int
  | Sh_Join int
  | Sh_Say string "int option"
  | Sh_Close int
  | Sh_Return
  | Sh_Destroy
  | Sh_Gone

text \<open>The console task: \<open>SetUp\<close>, the look at the cancellation, and the statements of \<open>RunAtomic\<close>.\<close>

datatype console_pc =
    Con_SetUp
  | Con_Update
  | Con_Pop
  | Con_Clear string
  | Con_Print string
  | Con_Test
  | Con_Next
  | Con_Prompt
  | Con_Exited

text \<open>
  \<open>ps_cleaning\<close> holds the receivers whose status is final and whose \<open>CleanUp\<close> is still to run. The
  last two fields only remember: the number of receivers so far, and what was sent to the console,
  with the number of the receiver that sent it or 0 for the shell.
\<close>

record part_sys =
  ps_part :: mc_participant
  ps_cin :: istream
  ps_shell :: part_pc
  ps_console :: console_pc
  ps_receiver_cancelled :: bool
  ps_cleaning :: "multicast_receiver list"
  ps_receivers :: nat
  ps_said :: "(nat \<times> string) list"

definition new_part_sys :: "mc_participant \<Rightarrow> istream \<Rightarrow> part_sys" where
  "new_part_sys p cin =
     \<lparr>ps_part = p, ps_cin = cin, ps_shell = Sh_Loop, ps_console = Con_SetUp, ps_receiver_cancelled = False,
      ps_cleaning = [], ps_receivers = 0, ps_said = []\<rparr>"

section \<open>Steps\<close>

text \<open>What a step has added to the queue of the console.\<close>

definition spoken :: "console \<Rightarrow> console \<Rightarrow> string list" where
  "spoken cn cn' = drop (length (queue (console_message_queue cn))) (queue (console_message_queue cn'))"

definition console_update :: "bool \<Rightarrow> console_pc" where
  "console_update cancelled = (if cancelled then Con_Exited else Con_Pop)"

fun Console_step :: "bool \<Rightarrow> console_pc \<Rightarrow> console \<Rightarrow> (console_pc \<times> console) outcome" where
  "Console_step cancelled Con_SetUp t = Ret (Con_Update, snd (ConsoleTask_SetUp t))"
| "Console_step cancelled Con_Update t = Ret (console_update cancelled, t)"
| "Console_step cancelled Con_Pop t =
     obind (Pop (console_message_queue t)) (\<lambda>(first_message, q).
       Ret (Con_Clear first_message, t\<lparr>console_message_queue := q\<rparr>))"
| "Console_step cancelled (Con_Clear m) t = Ret (Con_Print m, ClearLine t)"
| "Console_step cancelled (Con_Print m) t = Ret (Con_Test, print (m @ [newline]) t)"
| "Console_step cancelled Con_Test t =
     Ret (if Empty (console_message_queue t) then Con_Prompt else Con_Next, t)"
| "Console_step cancelled Con_Next t =
     obind (Pop (console_message_queue t)) (\<lambda>(m, q). Ret (Con_Print m, t\<lparr>console_message_queue := q\<rparr>))"
| "Console_step cancelled Con_Prompt t = Ret (Con_Update, print (prompt t) t)"
| "Console_step cancelled Con_Exited t = Block"

text \<open>The receiver after \<open>SetUp\<close> or an iteration that returned \<open>st\<close>.\<close>

definition receiver_update :: "status \<Rightarrow> multicast_receiver \<Rightarrow> part_sys \<Rightarrow> part_sys" where
  "receiver_update st r s =
     (if st = RUNNING \<and> \<not> ps_receiver_cancelled s
      then s\<lparr>ps_part := (ps_part s)\<lparr>preceiver := Some (r, Receiving)\<rparr>\<rparr>
      else s\<lparr>ps_part := (ps_part s)\<lparr>preceiver := Some (r, Ended)\<rparr>, ps_cleaning := ps_cleaning s @ [r]\<rparr>)"

definition Receiver_step :: "participant_env \<Rightarrow> listen_calls \<Rightarrow> accept_call \<Rightarrow> part_sys \<Rightarrow> part_sys outcome" where
  "Receiver_step e lk acc s =
     (let p = ps_part s
      in case preceiver p of
           None \<Rightarrow> Block
         | Some (r, InSetUp) \<Rightarrow>
             obind (MulticastReceiver_SetUp lk acc r (pfds p)) (\<lambda>(st, r', t).
               Ret (receiver_update st r' (s\<lparr>ps_part := p\<lparr>pfds := t\<rparr>\<rparr>)))
         | Some (r, Receiving) \<Rightarrow>
             obind (MulticastReceiver_RunAtomic e r (pconsole p)) (\<lambda>(st, r', cn).
               Ret (receiver_update st r' (s\<lparr>ps_part := p\<lparr>pconsole := cn\<rparr>,
                 ps_said := ps_said s @ map (Pair (ps_receivers s)) (spoken (pconsole p) cn)\<rparr>)))
         | Some (r, Ended) \<Rightarrow> Block)"

definition CleanUp_step :: "part_sys \<Rightarrow> part_sys outcome" where
  "CleanUp_step s =
     (case ps_cleaning s of
        [] \<Rightarrow> Block
      | r # rs \<Rightarrow>
          Ret (s\<lparr>ps_part := (ps_part s)\<lparr>pfds := MulticastReceiver_CleanUp r (pfds (ps_part s))\<rparr>, ps_cleaning := rs\<rparr>))"

text \<open>The branch of the \<open>switch\<close> that a request goes to.\<close>

definition after_connect :: "MsgType \<Rightarrow> int \<Rightarrow> sock \<Rightarrow> part_pc" where
  "after_connect req participant_fd s =
     (case req of
        REG \<Rightarrow> Sh_Wait participant_fd s
      | RECON \<Rightarrow> Sh_Start participant_fd
      | DEREG \<Rightarrow> Sh_Stop participant_fd
      | DISCON \<Rightarrow> Sh_Stop participant_fd
      | _ \<Rightarrow> Sh_Close participant_fd)"

text \<open>No receiver has a thread of the pool.\<close>

definition receiver_gone :: "part_sys \<Rightarrow> bool" where
  "receiver_gone s \<longleftrightarrow>
     (case preceiver (ps_part s) of None \<Rightarrow> True | Some (r, ph) \<Rightarrow> ph = Ended) \<and> ps_cleaning s = []"

definition Shell_say :: "string \<Rightarrow> int option \<Rightarrow> part_sys \<Rightarrow> part_sys outcome" where
  "Shell_say m fdopt s =
     obind (participant_console m (ps_part s)) (\<lambda>p.
       Ret (s\<lparr>ps_part := p, ps_said := ps_said s @ map (Pair 0) (spoken (pconsole (ps_part s)) (pconsole p)),
              ps_shell := (case fdopt of None \<Rightarrow> Sh_Loop | Some participant_fd \<Rightarrow> Sh_Close participant_fd)\<rparr>))"

text \<open>\<open>ConnectAndSend\<close> works on the shell's own members only; when it does not return, neither does the step.\<close>

definition Shell_connect :: "participant_env \<Rightarrow> connect_calls \<Rightarrow> sock \<Rightarrow> part_sys \<Rightarrow> part_sys outcome" where
  "Shell_connect e k x s =
     (case Participant_CreateReq (pinput (ps_part s)) of
        None \<Rightarrow> Crash
      | Some m \<Rightarrow>
          (case ConnectAndSend e k x m (ps_part s) of
             None \<Rightarrow> Block
           | Some (participant_fd, x', p) \<Rightarrow>
               if participant_fd = -1
               then Ret (s\<lparr>ps_part := p\<lparr>pout := pout p @
                      ''Couldn't instantiate a connection with coordinator.'' @ [newline], running := False\<rparr>,
                      ps_shell := Sh_Loop\<rparr>)
               else Ret (s\<lparr>ps_part := p, ps_shell := after_connect (req_type (pinput p)) participant_fd x'\<rparr>)))"

fun Shell_step :: "participant_env \<Rightarrow> connect_calls \<Rightarrow> sock \<Rightarrow> part_pc \<Rightarrow> part_sys \<Rightarrow> part_sys outcome" where
  "Shell_step e k x Sh_Loop s = Ret (s\<lparr>ps_shell := (if running (ps_part s) then Sh_Read else Sh_Return)\<rparr>)"
| "Shell_step e k x Sh_Read s =
     (case getline (ps_cin s) [] of
        (ok, input, cin') \<Rightarrow>
          let p = ps_part s; ip = Participant_Parse input (pinput p)
          in Ret (s\<lparr>ps_part := p\<lparr>pinput := ip\<rparr>, ps_cin := cin',
               ps_shell := (if \<not> input_valid ip then Sh_Say ''Invalid command!'' None
                            else if req_type ip = QUIT then Sh_Cancel else Sh_Connect)\<rparr>))"
| "Shell_step e k x Sh_Cancel s =
     Ret (s\<lparr>ps_part := (ps_part s)\<lparr>console_cancelled := True, running := False\<rparr>, ps_shell := Sh_Say ''Bye!'' None\<rparr>)"
| "Shell_step e k x Sh_Connect s = Shell_connect e k x s"
| "Shell_step e k x (Sh_Wait participant_fd y) s =
     obind (Participant_WaitForMessage y (ps_part s)) (\<lambda>p.
     let complete = HasCompleteMessage (response_parser p)
     in obind (GetMessage (reg_response_codec e) (response_parser p)) (\<lambda>(m, q).
          let i = (case m of Some i \<Rightarrow> i | None \<Rightarrow> if complete then unparsed_response e else 0)
          in Ret (s\<lparr>ps_part := p\<lparr>response_parser := q, pinput := (pinput p)\<lparr>my_id := sint i\<rparr>\<rparr>,
                    ps_shell := Sh_Start participant_fd\<rparr>)))"
| "Shell_step e k x (Sh_Start participant_fd) s =
     (let p = ps_part s
      in if group_connected p then Ret (s\<lparr>ps_shell := Sh_Say ''Already connected!'' (Some participant_fd)\<rparr>)
         else
           let pt = req_port (pinput p);
               statement = (if req_type (pinput p) = REG then ''Registered'' else ''Connected'')
           in Ret (s\<lparr>ps_part := p\<lparr>preceiver := Some (new_MulticastReceiver pt, InSetUp), group_connected := True\<rparr>,
                ps_receiver_cancelled := False, ps_receivers := Suc (ps_receivers s),
                ps_shell := Sh_Say (statement @ '', listening on '' @ int_string pt) (Some participant_fd)\<rparr>))"
| "Shell_step e k x (Sh_Stop participant_fd) s =
     (if \<not> group_connected (ps_part s)
      then Ret (s\<lparr>ps_shell := Sh_Say ''Nothing to disconnect from!'' (Some participant_fd)\<rparr>)
      else Ret (s\<lparr>ps_receiver_cancelled := True, ps_shell := Sh_Join participant_fd\<rparr>))"
| "Shell_step e k x (Sh_Join participant_fd) s =
     (case preceiver (ps_part s) of
        None \<Rightarrow> Crash
      | Some (r, Ended) \<Rightarrow>
          Ret (s\<lparr>ps_part := (ps_part s)\<lparr>group_connected := False\<rparr>,
                 ps_shell := Sh_Say (if req_type (pinput (ps_part s)) = DEREG then ''Deregistered!'' else ''Disconnected!'')
                   (Some participant_fd)\<rparr>)
      | _ \<Rightarrow> Block)"
| "Shell_step e k x (Sh_Say m fdopt) s = Shell_say m fdopt s"
| "Shell_step e k x (Sh_Close participant_fd) s =
     Ret (s\<lparr>ps_part := (ps_part s)\<lparr>pfds := (pfds (ps_part s))(participant_fd := None)\<rparr>, ps_shell := Sh_Loop\<rparr>)"
| "Shell_step e k x Sh_Return s =
     Ret (s\<lparr>ps_part := (ps_part s)\<lparr>console_cancelled := True\<rparr>, ps_receiver_cancelled := True, ps_shell := Sh_Destroy\<rparr>)"
| "Shell_step e k x Sh_Destroy s =
     (if ps_console s = Con_Exited \<and> receiver_gone s then Ret (s\<lparr>ps_shell := Sh_Gone\<rparr>) else Block)"
| "Shell_step e k x Sh_Gone s = Block"

datatype part_action =
    ShellAct connect_calls sock
  | ConsoleAct
  | ReceiverAct listen_calls accept_call
  | CleanUpAct

fun part_act :: "participant_env \<Rightarrow> part_action \<Rightarrow> part_sys \<Rightarrow> part_sys outcome" where
  "part_act e (ShellAct k x) s = Shell_step e k x (ps_shell s) s"
| "part_act e ConsoleAct s =
     obind (Console_step (console_cancelled (ps_part s)) (ps_console s) (pconsole (ps_part s))) (\<lambda>(pc, cn).
       Ret (s\<lparr>ps_console := pc, ps_part := (ps_part s)\<lparr>pconsole := cn\<rparr>\<rparr>))"
| "part_act e (ReceiverAct lk acc) s = Receiver_step e lk acc s"
| "part_act e CleanUpAct s = CleanUp_step s"

inductive part_step :: "participant_env \<Rightarrow> part_sys \<Rightarrow> part_sys \<Rightarrow> bool" for e where
  act: "part_act e a s = Ret s' \<Longrightarrow> part_step e s s'"

inductive_cases part_stepE: "part_step e s s'"

section \<open>What the steps leave alone\<close>

abbreviation ps_cn :: "part_sys \<Rightarrow> console" where
  "ps_cn s \<equiv> pconsole (ps_part s)"

abbreviation ps_queue :: "part_sys \<Rightarrow> string list" where
  "ps_queue s \<equiv> queue (console_message_queue (ps_cn s))"

definition append_console :: "string list \<Rightarrow> console \<Rightarrow> console" where
  "append_console ts cn = cn\<lparr>console_message_queue := (console_message_queue cn)
     \<lparr>queue := queue (console_message_queue cn) @ ts\<rparr>\<rparr>"

lemma append_console_simps [simp]:
  "append_console [] cn = cn"
  "queue (console_message_queue (append_console ts cn)) = queue (console_message_queue cn) @ ts"
  "max_length (console_message_queue (append_console ts cn)) = max_length (console_message_queue cn)"
  "prompt (append_console ts cn) = prompt cn" "console_out (append_console ts cn) = console_out cn"
  "spoken cn (append_console ts cn) = ts" "spoken cn cn = []"
  by (simp_all add: append_console_def spoken_def)

lemma append_console_unbounded [simp]: "unbounded (append_console ts cn) = unbounded cn"
  by (simp add: unbounded_def)

lemma SendConsole_append: "unbounded cn \<Longrightarrow> SendConsole m cn = Ret (append_console [m] cn)"
  by (simp add: unbounded_def append_console_def)

lemma ConnectAndSend_frame: "ConnectAndSend e k x m p = Some (f, x', p') \<Longrightarrow> \<exists>t. p' = p\<lparr>pfds := t\<rparr>"
  by (auto simp: ConnectAndSend_def Let_def split: prod.splits option.splits)

lemma ReceiveForever_total:
  "ReceiveForever n x \<noteq> Crash \<and> (\<forall>bs x'. ReceiveForever n x = Ret (IoBytes bs, x') \<longrightarrow> length bs \<le> n)"
proof (induction n x rule: ReceiveForever.induct)
  case (1 n x)
  then show ?case
    by (cases "sys_recv n x") (auto simp: ReceiveForever.simps [of n x] dest: sys_recv_bound split: if_splits)
qed

lemmas participant_ReceiveForever_total = ReceiveForever_total [folded participant_util_ReceiveForever_eq]

lemma WaitForMessage_loop_wf:
  "wf_parser p \<Longrightarrow> Participant_WaitForMessage_loop p x \<noteq> Crash \<and>
     (\<forall>q x'. Participant_WaitForMessage_loop p x = Ret (q, x') \<longrightarrow> wf_parser q)"
proof (induction p x rule: Participant_WaitForMessage_loop.induct)
  case (1 p x)
  show ?case
  proof (cases "HasCompleteMessage p")
    case True
    then show ?thesis using 1(2) by (subst (1 2) Participant_WaitForMessage_loop.simps) simp
  next
    case False
    show ?thesis
    proof (cases "participant_util_ReceiveForever 4096 x")
      case (Ret rx1)
      obtain r x1 where rx1: "rx1 = (r, x1)" by (cases rx1)
      show ?thesis
      proof (cases r)
        case IoErr
        then show ?thesis using False Ret rx1 1(2) by (subst (1 2) Participant_WaitForMessage_loop.simps) simp
      next
        case (IoBytes bs)
        have "length bs \<le> 4096" using participant_ReceiveForever_total [of 4096 x] Ret rx1 IoBytes by simp
        then obtain q where q: "AddNewData p bs = Ret q" "wf_parser q"
          using AddNewData_refines [OF 1(2), of bs] wf_incomplete_no_overflow [OF 1(2) False] by auto
        then show ?thesis using 1 False Ret rx1 IoBytes
          by (subst (1 2) Participant_WaitForMessage_loop.simps) auto
      qed
    next
      case Block
      then show ?thesis using False by (subst (1 2) Participant_WaitForMessage_loop.simps) simp
    qed (use participant_ReceiveForever_total in simp)
  qed
qed

lemma WaitForMessage_frame:
  assumes "wf_parser (response_parser p)"
  shows "Participant_WaitForMessage x p \<noteq> Crash"
    and "Participant_WaitForMessage x p = Ret p' \<Longrightarrow> \<exists>q. p' = p\<lparr>response_parser := q\<rparr> \<and> wf_parser q"
  using WaitForMessage_loop_wf [OF wf_ResetParser [OF assms], of x]
  by (cases "Participant_WaitForMessage_loop (ResetParser (response_parser p)) x";
      auto simp: Participant_WaitForMessage_def)+

lemma GetMessage_wf:
  assumes "wf_parser p"
  shows "\<exists>m q. GetMessage c p = Ret (m, q) \<and> wf_parser q"
  using GetMessage_refines [OF assms, of c] assms by (cases "HasCompleteMessage p") (auto simp: GetMessage_def)

text \<open>
  An iteration of the receiver either says nothing or appends one line to its log and sends the
  same to the console.
\<close>

lemma RunAtomic_effect:
  assumes "reader_ok r cn"
  shows "MulticastReceiver_RunAtomic e r cn \<noteq> Crash"
    and "MulticastReceiver_RunAtomic e r cn = Ret (st, r', cn') \<Longrightarrow>
      \<exists>ts. cn' = append_console ts cn \<and> log_file r' = log_file r @ lines ts \<and> wf_parser (mparser r')"
proof -
  have wf: "wf_parser (mparser r)" and un: "unbounded cn" using assms by (simp_all add: reader_ok_def)
  have "MulticastReceiver_RunAtomic e r cn \<noteq> Crash \<and> (\<forall>st r' cn'. MulticastReceiver_RunAtomic e r cn = Ret (st, r', cn') \<longrightarrow>
      (\<exists>ts. cn' = append_console ts cn \<and> log_file r' = log_file r @ lines ts \<and> wf_parser (mparser r')))"
  proof (cases "HasCompleteMessage (mparser r)")
    case True
    obtain m q where "GetMessage (multicast_codec e) (mparser r) = Ret (m, q)" "wf_parser q"
      using GetMessage_wf [OF wf] by blast
    then show ?thesis
      using True un by (force simp: MulticastReceiver_RunAtomic_def SendConsole_append Let_def intro: exI [of _ "[x]" for x])
  next
    case False
    show ?thesis
    proof (cases "sys_recv 4096 (msock r)")
      case (Ret rx1)
      obtain res x where rx1: "rx1 = (res, x)" by (cases rx1)
      have "\<exists>q. AddNewData (mparser r) bs = Ret q \<and> wf_parser q" if "res = IoBytes bs" for bs
        using AddNewData_refines [OF wf, of bs] wf_incomplete_no_overflow [OF wf False]
          sys_recv_bound [of 4096 "msock r" bs x] Ret rx1 that by auto
      then show ?thesis using False Ret rx1 wf
        by (cases res) (force simp: MulticastReceiver_RunAtomic_def intro: exI [of _ "[]"])+
    qed (use False in \<open>simp_all add: MulticastReceiver_RunAtomic_def\<close>)
  qed
  then show "MulticastReceiver_RunAtomic e r cn \<noteq> Crash"
    and "MulticastReceiver_RunAtomic e r cn = Ret (st, r', cn') \<Longrightarrow>
      \<exists>ts. cn' = append_console ts cn \<and> log_file r' = log_file r @ lines ts \<and> wf_parser (mparser r')"
    by blast+
qed

lemma SetUp_effect:
  "MulticastReceiver_SetUp lk acc r t \<noteq> Crash"
  "MulticastReceiver_SetUp lk acc r t = Ret (st, r', t') \<Longrightarrow> log_file r' = log_file r \<and> mparser r' = mparser r"
  by (auto simp: MulticastReceiver_SetUp_def Let_def split: prod.splits if_splits accept_call.splits)

section \<open>The console\<close>

definition clear_line :: string where
  "clear_line = CHR 0x1B # ''[A'' @ CHR 0x1B # ''[2K'' @ [CHR 0x0D]"

text \<open>The terminal after the prompt and some iterations of the console task, each with the texts it printed.\<close>

definition screen :: "string \<Rightarrow> string list list \<Rightarrow> string" where
  "screen pr bs = pr @ concat (map (\<lambda>b. clear_line @ lines b @ pr) bs)"

lemma screen_snoc [simp]: "screen pr (bs @ [b]) = screen pr bs @ clear_line @ lines b @ pr"
  by (simp add: screen_def)

lemma lines_append [simp]: "lines (as @ bs) = lines as @ lines bs"
  by (simp add: lines_def)

text \<open>The text that the console task has taken from its queue and not yet printed.\<close>

fun console_holds :: "console_pc \<Rightarrow> string list" where
  "console_holds (Con_Clear m) = [m]"
| "console_holds (Con_Print m) = [m]"
| "console_holds _ = []"

text \<open>The iterations \<open>bs\<close> are complete, the present one has printed \<open>cur\<close>.\<close>

fun shown :: "string \<Rightarrow> console_pc \<Rightarrow> string list list \<Rightarrow> string list \<Rightarrow> string \<Rightarrow> bool" where
  "shown pr Con_SetUp bs cur out \<longleftrightarrow> bs = [] \<and> cur = [] \<and> out = []"
| "shown pr Con_Update bs cur out \<longleftrightarrow> cur = [] \<and> out = screen pr bs"
| "shown pr Con_Pop bs cur out \<longleftrightarrow> cur = [] \<and> out = screen pr bs"
| "shown pr (Con_Clear m) bs cur out \<longleftrightarrow> cur = [] \<and> out = screen pr bs"
| "shown pr Con_Exited bs cur out \<longleftrightarrow> cur = [] \<and> out = screen pr bs"
| "shown pr _ bs cur out \<longleftrightarrow> out = screen pr bs @ clear_line @ lines cur"

definition prints :: "string \<Rightarrow> console_pc \<Rightarrow> console \<Rightarrow> string list \<Rightarrow> bool" where
  "prints pr pc cn texts \<longleftrightarrow> unbounded cn \<and> prompt cn = pr \<and>
     (\<exists>bs cur. shown pr pc bs cur (console_out cn) \<and>
        texts = concat bs @ cur @ console_holds pc @ queue (console_message_queue cn)) \<and>
     (pc = Con_Next \<longrightarrow> queue (console_message_queue cn) \<noteq> [])"

lemma printsI:
  "unbounded cn \<Longrightarrow> prompt cn = pr \<Longrightarrow> shown pr pc bs cur (console_out cn) \<Longrightarrow>
   texts = concat bs @ cur @ console_holds pc @ queue (console_message_queue cn) \<Longrightarrow>
   (pc = Con_Next \<Longrightarrow> queue (console_message_queue cn) \<noteq> []) \<Longrightarrow> prints pr pc cn texts"
  unfolding prints_def by blast

lemma prints_append: "prints pr pc cn texts \<Longrightarrow> prints pr pc (append_console ts cn) (texts @ ts)"
  unfolding prints_def by auto

lemma Console_step_prints:
  assumes "prints pr pc cn texts" and "Console_step c pc cn = Ret (pc', cn')"
  shows "prints pr pc' cn' texts"
proof -
  obtain bs cur where i: "unbounded cn" "prompt cn = pr" "shown pr pc bs cur (console_out cn)"
      "texts = concat bs @ cur @ console_holds pc @ queue (console_message_queue cn)"
    using assms(1) unfolding prints_def by blast
  note defs = unbounded_def ConsoleTask_SetUp_def print_def ClearLine_def clear_line_def
  show ?thesis
  proof (cases pc)
    case Con_SetUp
    then show ?thesis using i assms(2) by (intro printsI [of _ _ _ "[]" "[]"]) (auto simp: defs screen_def)
  next
    case Con_Update
    then show ?thesis using i assms(2) by (intro printsI [of _ _ _ bs "[]"]) (auto simp: console_update_def split: if_splits)
  next
    case Con_Pop
    then show ?thesis using i assms(2)
      by (cases "queue (console_message_queue cn)"; intro printsI [of _ _ _ bs "[]"]) (auto simp: Pop_def unbounded_def)
  next
    case (Con_Clear m)
    then show ?thesis using i assms(2) by (intro printsI [of _ _ _ bs "[]"]) (auto simp: defs)
  next
    case (Con_Print m)
    then show ?thesis using i assms(2) by (intro printsI [of _ _ _ bs "cur @ [m]"]) (auto simp: defs)
  next
    case Con_Test
    then show ?thesis using i assms(2) by (intro printsI [of _ _ _ bs cur]) (auto simp: Empty_def split: if_splits)
  next
    case Con_Next
    then show ?thesis using i assms(2)
      by (cases "queue (console_message_queue cn)"; intro printsI [of _ _ _ bs cur]) (auto simp: Pop_def unbounded_def)
  next
    case Con_Prompt
    then show ?thesis using i assms(2) by (intro printsI [of _ _ _ "bs @ [cur]" "[]"]) (auto simp: defs)
  next
    case Con_Exited
    then show ?thesis using assms(2) by simp
  qed
qed

text \<open>It waits only for the first message of an iteration.\<close>

lemma Console_step_enabled:
  assumes "prints pr pc cn texts" and "pc \<noteq> Con_Exited" and "pc = Con_Pop \<Longrightarrow> queue (console_message_queue cn) \<noteq> []"
  shows "\<exists>pc' cn'. Console_step c pc cn = Ret (pc', cn')"
proof (cases "pc = Con_Pop \<or> pc = Con_Next")
  case True
  then have "queue (console_message_queue cn) \<noteq> []" using assms by (auto simp: prints_def)
  then obtain m q where "Pop (console_message_queue cn) = Ret (m, q)"
    using bq.pop_Ret_iff [of "console_message_queue cn"] by auto
  then show ?thesis using True by auto
next
  case False
  then show ?thesis using assms(2) by (cases pc) auto
qed

lemma Console_step_not_Crash: "Console_step c pc cn \<noteq> Crash"
  by (cases pc; cases "queue (console_message_queue cn)") (simp_all add: Pop_def)

section \<open>The other threads\<close>

definition said_by :: "nat \<Rightarrow> (nat \<times> string) list \<Rightarrow> string list" where
  "said_by n sd = map snd (filter (\<lambda>x. fst x = n) sd)"

lemma said_by_simps [simp]:
  "said_by n [] = []" "said_by n (sd @ sd') = said_by n sd @ said_by n sd'"
  "said_by n (map (Pair k) ts) = (if k = n then ts else [])" "said_by n [(k, t)] = (if k = n then [t] else [])"
  by (induction ts) (auto simp: said_by_def)

lemma said_by_none: "\<forall>x\<in>set sd. fst x < n \<Longrightarrow> said_by n sd = []"
  by (auto simp: said_by_def filter_empty_conv)

definition logged :: "part_sys \<Rightarrow> bool" where
  "logged s \<longleftrightarrow> wf_parser (response_parser (ps_part s)) \<and> (\<forall>x\<in>set (ps_said s). fst x \<le> ps_receivers s) \<and>
     (\<forall>r ph. preceiver (ps_part s) = Some (r, ph) \<longrightarrow> wf_parser (mparser r) \<and> 0 < ps_receivers s \<and>
        log_file r = lines (said_by (ps_receivers s) (ps_said s)))"

definition placed :: "part_sys \<Rightarrow> bool" where
  "placed s \<longleftrightarrow> (group_connected (ps_part s) \<longrightarrow> preceiver (ps_part s) \<noteq> None) \<and>
     (\<forall>fdx. ps_shell s = Sh_Join fdx \<longrightarrow> group_connected (ps_part s)) \<and>
     (ps_shell s = Sh_Connect \<longrightarrow> req_type (pinput (ps_part s)) \<noteq> QUIT)"

lemma participant_console_append:
  "unbounded (pconsole p) \<Longrightarrow> participant_console m p = Ret (p\<lparr>pconsole := append_console [m] (pconsole p)\<rparr>)"
  by (simp add: participant_console_def SendConsole_append)

lemma Shell_say_append:
  assumes "unbounded (ps_cn s)"
  shows "Shell_say m fdopt s = Ret (s\<lparr>ps_part := (ps_part s)\<lparr>pconsole := append_console [m] (ps_cn s)\<rparr>,
    ps_said := ps_said s @ [(0, m)],
    ps_shell := (case fdopt of None \<Rightarrow> Sh_Loop | Some participant_fd \<Rightarrow> Sh_Close participant_fd)\<rparr>)"
  using assms by (simp add: Shell_say_def participant_console_append)

text \<open>What one step of the shell can do to what it shares.\<close>

definition silent :: "part_sys \<Rightarrow> part_sys \<Rightarrow> bool" where
  "silent s s' \<longleftrightarrow> ps_console s' = ps_console s \<and> ps_cn s' = ps_cn s \<and> ps_said s' = ps_said s"

lemma Shell_step_speaks:
  assumes "unbounded (ps_cn s)" and "wf_parser (response_parser (ps_part s))" and "Shell_step e k x pc s = Ret s'"
  shows "silent s s' \<and> (\<forall>m fdopt. pc \<noteq> Sh_Say m fdopt) \<or>
    (\<exists>m fdopt. pc = Sh_Say m fdopt \<and> Shell_say m fdopt s = Ret s')"
proof (cases pc)
  case (Sh_Wait f y)
  then obtain p m q where "Participant_WaitForMessage y (ps_part s) = Ret p"
      "GetMessage (reg_response_codec e) (response_parser p) = Ret (m, q)"
      "s' = s\<lparr>ps_part := p\<lparr>response_parser := q, pinput := (pinput p)\<lparr>my_id :=
        sint (case m of Some i \<Rightarrow> i | None \<Rightarrow> if HasCompleteMessage (response_parser p) then unparsed_response e else 0)\<rparr>\<rparr>,
        ps_shell := Sh_Start f\<rparr>"
    using assms(3) by (auto simp: obind_eq_Ret Let_def)
  then show ?thesis using WaitForMessage_frame(2) [OF assms(2), of y p] Sh_Wait by (auto simp: silent_def)
next
  case Sh_Connect
  then show ?thesis using assms(3)
    by (auto simp: Shell_connect_def silent_def dest!: ConnectAndSend_frame split: option.splits if_splits)
qed (use assms(3) in \<open>auto simp: silent_def Let_def split: prod.splits if_splits option.splits receiver_phase.splits\<close>)

lemma Receiver_step_speaks:
  assumes "unbounded (ps_cn s)" and "logged s" and "Receiver_step e lk acc s = Ret s'"
  shows "\<exists>ts. ps_console s' = ps_console s \<and> ps_cn s' = append_console ts (ps_cn s) \<and>
    ps_said s' = ps_said s @ map (Pair (ps_receivers s)) ts"
proof -
  obtain r ph where r: "preceiver (ps_part s) = Some (r, ph)"
    using assms(3) by (auto simp: Receiver_step_def Let_def split: option.splits)
  show ?thesis
  proof (cases ph)
    case InSetUp
    then show ?thesis using assms(3) r
      by (intro exI [of _ "[]"]) (auto simp: Receiver_step_def receiver_update_def obind_eq_Ret Let_def)
  next
    case Receiving
    have "reader_ok r (ps_cn s)" using assms(1,2) r by (auto simp: reader_ok_def logged_def)
    moreover obtain st r' cn where run: "MulticastReceiver_RunAtomic e r (ps_cn s) = Ret (st, r', cn)"
        "s' = receiver_update st r' (s\<lparr>ps_part := (ps_part s)\<lparr>pconsole := cn\<rparr>,
           ps_said := ps_said s @ map (Pair (ps_receivers s)) (spoken (ps_cn s) cn)\<rparr>)"
      using assms(3) r Receiving by (auto simp: Receiver_step_def obind_eq_Ret Let_def)
    ultimately obtain ts where "cn = append_console ts (ps_cn s)" using RunAtomic_effect(2) by blast
    then show ?thesis using run(2) by (intro exI [of _ ts]) (simp add: receiver_update_def)
  next
    case Ended
    then show ?thesis using assms(3) r by (simp add: Receiver_step_def Let_def)
  qed
qed

lemma CleanUp_step_silent: "CleanUp_step s = Ret s' \<Longrightarrow> silent s s' \<and> ps_shell s' = ps_shell s"
  by (auto simp: CleanUp_step_def silent_def split: list.splits)

lemma logged_cong:
  "logged s \<Longrightarrow> response_parser (ps_part s') = response_parser (ps_part s) \<Longrightarrow>
   preceiver (ps_part s') = preceiver (ps_part s) \<Longrightarrow> ps_receivers s' = ps_receivers s \<Longrightarrow>
   ps_said s' = ps_said s \<Longrightarrow> logged s'"
  by (simp add: logged_def)

lemma logged_new_receiver:
  assumes "logged s" and "ps_said s' = ps_said s" and "ps_receivers s' = Suc (ps_receivers s)"
    and "preceiver (ps_part s') = Some (new_MulticastReceiver pt, ph)"
    and "response_parser (ps_part s') = response_parser (ps_part s)"
  shows "logged s'"
proof -
  have "\<forall>y\<in>set (ps_said s). fst y < Suc (ps_receivers s)" using assms(1) by (auto simp: logged_def)
  then have "said_by (Suc (ps_receivers s)) (ps_said s) = []" by (rule said_by_none)
  then show ?thesis using assms by (auto simp: logged_def new_MulticastReceiver_def)
qed

lemma logged_say:
  "logged s \<Longrightarrow> unbounded (ps_cn s) \<Longrightarrow> Shell_say m fdopt s = Ret s' \<Longrightarrow> logged s'"
  by (force simp: logged_def Shell_say_append)

lemma Shell_wait_logged:
  assumes "logged s" and "Shell_step e k x (Sh_Wait f y) s = Ret s'"
  shows "logged s'"
proof -
  have wf: "wf_parser (response_parser (ps_part s))" using assms(1) by (simp add: logged_def)
  obtain p m q i where p: "Participant_WaitForMessage y (ps_part s) = Ret p"
      "GetMessage (reg_response_codec e) (response_parser p) = Ret (m, q)"
      "s' = s\<lparr>ps_part := p\<lparr>response_parser := q, pinput := (pinput p)\<lparr>my_id := i\<rparr>\<rparr>, ps_shell := Sh_Start f\<rparr>"
    using assms(2) by (auto simp: obind_eq_Ret Let_def)
  obtain q0 where "p = (ps_part s)\<lparr>response_parser := q0\<rparr>" "wf_parser q0"
    using WaitForMessage_frame(2) [OF wf p(1)] by blast
  moreover from this have "wf_parser q" using GetMessage_wf [of q0 "reg_response_codec e"] p(2) by auto
  ultimately show ?thesis using assms(1) p(3) by (simp add: logged_def)
qed

lemma Shell_step_logged:
  assumes "logged s" and "unbounded (ps_cn s)" and "Shell_step e k x pc s = Ret s'"
  shows "logged s'"
proof (cases pc)
  case (Sh_Wait f y)
  then show ?thesis using Shell_wait_logged assms by blast
next
  case (Sh_Say m fdopt)
  then show ?thesis using logged_say assms by simp
next
  case (Sh_Start f)
  then show ?thesis
    using assms(3) by (cases "group_connected (ps_part s)") (auto simp: Let_def intro: logged_new_receiver [OF assms(1)] logged_cong [OF assms(1)])
next
  case Sh_Connect
  then show ?thesis using assms(3)
    by (auto simp: Shell_connect_def intro!: logged_cong [OF assms(1)] dest!: ConnectAndSend_frame split: option.splits if_splits)
qed (use assms(3) in \<open>auto simp: Let_def intro!: logged_cong [OF assms(1)] split: prod.splits if_splits option.splits receiver_phase.splits\<close>)

lemma Receiver_step_logged:
  assumes "logged s" and "unbounded (ps_cn s)" and "Receiver_step e lk acc s = Ret s'"
  shows "logged s'"
proof -
  obtain r ph where r: "preceiver (ps_part s) = Some (r, ph)"
    using assms(3) by (auto simp: Receiver_step_def Let_def split: option.splits)
  then have log: "wf_parser (mparser r)" "0 < ps_receivers s"
      "log_file r = lines (said_by (ps_receivers s) (ps_said s))"
    using assms(1) by (auto simp: logged_def)
  show ?thesis
  proof (cases ph)
    case InSetUp
    then obtain st r' t where "MulticastReceiver_SetUp lk acc r (pfds (ps_part s)) = Ret (st, r', t)"
        "s' = receiver_update st r' (s\<lparr>ps_part := (ps_part s)\<lparr>pfds := t\<rparr>\<rparr>)"
      using assms(3) r by (auto simp: Receiver_step_def obind_eq_Ret Let_def)
    then show ?thesis using SetUp_effect(2) [of lk acc r] assms(1) log
      by (auto simp: logged_def receiver_update_def)
  next
    case Receiving
    have "reader_ok r (ps_cn s)" using assms(2) log by (auto simp: reader_ok_def)
    moreover obtain st r' cn where run: "MulticastReceiver_RunAtomic e r (ps_cn s) = Ret (st, r', cn)"
        "s' = receiver_update st r' (s\<lparr>ps_part := (ps_part s)\<lparr>pconsole := cn\<rparr>,
           ps_said := ps_said s @ map (Pair (ps_receivers s)) (spoken (ps_cn s) cn)\<rparr>)"
      using assms(3) r Receiving by (auto simp: Receiver_step_def obind_eq_Ret Let_def)
    ultimately obtain ts where "cn = append_console ts (ps_cn s)" "log_file r' = log_file r @ lines ts" "wf_parser (mparser r')"
      using RunAtomic_effect(2) by blast
    then show ?thesis using run(2) assms(1) log by (auto simp: logged_def receiver_update_def)
  next
    case Ended
    then show ?thesis using assms(3) r by (simp add: Receiver_step_def Let_def)
  qed
qed

lemma CreateReq_None: "Participant_CreateReq ip = None \<longleftrightarrow> req_type ip = QUIT"
  by (auto simp: Participant_CreateReq_def split: MsgType.splits)

lemmas shell_splits = prod.splits if_splits option.splits receiver_phase.splits

lemma after_connect_pc:
  "after_connect r f x \<noteq> Sh_Connect" "after_connect r f x \<noteq> Sh_Join g" "after_connect r f x \<noteq> Sh_Say m fdopt"
  by (cases r; simp add: after_connect_def)+

text \<open>A request that is sent, or not, changes nothing that is shared but the descriptors.\<close>

lemma Shell_connect_frame:
  assumes "Shell_connect e k x s = Ret s'"
  shows "\<exists>t o' b pc. s' = s\<lparr>ps_part := (ps_part s)\<lparr>pfds := t, pout := o', running := b\<rparr>, ps_shell := pc\<rparr> \<and>
    (pc = Sh_Loop \<or> (\<exists>r f y. pc = after_connect r f y))"
proof -
  obtain m f y p where c: "Participant_CreateReq (pinput (ps_part s)) = Some m"
      "ConnectAndSend e k x m (ps_part s) = Some (f, y, p)"
    using assms by (auto simp: Shell_connect_def split: option.splits)
  obtain t where "p = (ps_part s)\<lparr>pfds := t\<rparr>" using ConnectAndSend_frame [OF c(2)] by blast
  then have p: "p = (ps_part s)\<lparr>pfds := t, pout := pout (ps_part s), running := running (ps_part s)\<rparr>" by simp
  show ?thesis
  proof (cases "f = -1")
    case True
    then have "s' = s\<lparr>ps_part := (ps_part s)\<lparr>pfds := t, pout := pout (ps_part s) @
        ''Couldn't instantiate a connection with coordinator.'' @ [newline], running := False\<rparr>, ps_shell := Sh_Loop\<rparr>"
      using assms c p by (simp add: Shell_connect_def)
    then show ?thesis by blast
  next
    case False
    then have "s' = s\<lparr>ps_part := p, ps_shell := after_connect (req_type (pinput p)) f y\<rparr>"
      using assms c by (simp add: Shell_connect_def)
    then show ?thesis using p by metis
  qed
qed

lemma Shell_step_placed:
  assumes "placed s" and "wf_parser (response_parser (ps_part s))" and "unbounded (ps_cn s)"
    and "Shell_step e k x pc s = Ret s'"
  shows "placed s'"
proof (cases pc)
  case (Sh_Wait f y)
  then show ?thesis
    using assms(1,4) WaitForMessage_frame(2) [OF assms(2), of y] by (fastforce simp: placed_def obind_eq_Ret Let_def)
next
  case (Sh_Say m fdopt)
  then show ?thesis using assms by (auto simp: placed_def Shell_say_append split: option.splits)
next
  case Sh_Connect
  then show ?thesis using assms(1,4)
    by (auto simp: placed_def after_connect_pc dest!: Shell_connect_frame)
next
  case (Sh_Start f)
  then show ?thesis using assms(1,4) by (cases "group_connected (ps_part s)") (auto simp: placed_def Let_def)
next
  case Sh_Read
  obtain ok input cin' where "getline (ps_cin s) [] = (ok, input, cin')" by (cases "getline (ps_cin s) []")
  then show ?thesis using Sh_Read assms(1,4)
    by (cases "input_valid (Participant_Parse input (pinput (ps_part s)))";
        cases "req_type (Participant_Parse input (pinput (ps_part s))) = QUIT") (auto simp: placed_def Let_def)
next
  case (Sh_Join f)
  then show ?thesis using assms(1,4) by (auto simp: placed_def split: option.splits receiver_phase.splits)
qed (use assms(1,4) in \<open>auto simp: placed_def Let_def split: shell_splits\<close>)

lemma receiver_update_simps [simp]:
  "preceiver (ps_part (receiver_update st r s)) =
     Some (r, if st = RUNNING \<and> \<not> ps_receiver_cancelled s then Receiving else Ended)"
  "ps_shell (receiver_update st r s) = ps_shell s" "ps_console (receiver_update st r s) = ps_console s"
  "group_connected (ps_part (receiver_update st r s)) = group_connected (ps_part s)"
  "pinput (ps_part (receiver_update st r s)) = pinput (ps_part s)"
  "console_cancelled (ps_part (receiver_update st r s)) = console_cancelled (ps_part s)"
  by (simp_all add: receiver_update_def)

lemma Receiver_step_frame:
  assumes "Receiver_step e lk acc s = Ret s'"
  shows "preceiver (ps_part s') \<noteq> None \<and> ps_shell s' = ps_shell s \<and> ps_console s' = ps_console s \<and>
    group_connected (ps_part s') = group_connected (ps_part s) \<and> pinput (ps_part s') = pinput (ps_part s) \<and>
    console_cancelled (ps_part s') = console_cancelled (ps_part s)"
  using assms by (auto simp: Receiver_step_def obind_eq_Ret Let_def simp del: not_None_eq split: shell_splits)

text \<open>Once \<open>Bye!\<close> has been sent the console task is cancelled and does not wait for a message.\<close>

definition farewell :: "part_sys \<Rightarrow> bool" where
  "farewell s \<longleftrightarrow> (\<forall>fdopt. ps_shell s = Sh_Say ''Bye!'' fdopt \<longrightarrow> console_cancelled (ps_part s)) \<and>
     ((0, ''Bye!'') \<in> set (ps_said s) \<longrightarrow> console_cancelled (ps_part s) \<and> (ps_console s = Con_Pop \<longrightarrow> ps_queue s \<noteq> []))"

lemma Shell_step_cancels:
  assumes "wf_parser (response_parser (ps_part s))" and "unbounded (ps_cn s)" and "Shell_step e k x pc s = Ret s'"
  shows "(console_cancelled (ps_part s) \<longrightarrow> console_cancelled (ps_part s')) \<and>
    (\<forall>fdopt. ps_shell s' = Sh_Say ''Bye!'' fdopt \<longrightarrow> console_cancelled (ps_part s'))"
proof (cases pc)
  case (Sh_Wait f y)
  then show ?thesis using assms(3) WaitForMessage_frame(2) [OF assms(1), of y] by (fastforce simp: obind_eq_Ret Let_def)
next
  case (Sh_Say m fdopt)
  then show ?thesis using assms by (auto simp: Shell_say_append split: option.splits)
next
  case Sh_Connect
  then show ?thesis using assms(3)
    by (auto simp: after_connect_pc dest!: Shell_connect_frame)
qed (use assms(3) in \<open>auto simp: Let_def split: shell_splits\<close>)

lemma Shell_step_farewell:
  assumes "farewell s" and "wf_parser (response_parser (ps_part s))" and "unbounded (ps_cn s)"
    and "Shell_step e k x (ps_shell s) s = Ret s'"
  shows "farewell s'"
proof -
  note c = Shell_step_cancels [OF assms(2-4)]
  from Shell_step_speaks [OF assms(3,2,4)] show ?thesis
  proof (elim disjE exE conjE)
    assume "silent s s'"
    then show ?thesis using assms(1) c by (simp add: farewell_def silent_def)
  next
    fix m fdopt
    assume "ps_shell s = Sh_Say m fdopt" "Shell_say m fdopt s = Ret s'"
    then show ?thesis using assms(1,3) by (auto simp: farewell_def Shell_say_append split: option.splits)
  qed
qed

lemma Receiver_step_farewell:
  assumes "farewell s" and "logged s" and "unbounded (ps_cn s)" and "Receiver_step e lk acc s = Ret s'"
  shows "farewell s'"
proof -
  obtain ts where ts: "ps_cn s' = append_console ts (ps_cn s)" "ps_said s' = ps_said s @ map (Pair (ps_receivers s)) ts"
    using Receiver_step_speaks [OF assms(3,2,4)] by blast
  have "preceiver (ps_part s) \<noteq> None" using assms(4) by (auto simp: Receiver_step_def Let_def split: option.splits)
  then have "0 < ps_receivers s" using assms(2) by (auto simp: logged_def)
  then show ?thesis using assms(1) ts Receiver_step_frame [OF assms(4)] by (auto simp: farewell_def)
qed

lemma Console_step_cancelled:
  assumes "Console_step c pc cn = Ret (Con_Pop, cn')"
  shows "\<not> c"
  using assms by (cases pc) (auto simp: console_update_def obind_eq_Ret split: if_splits)

section \<open>All interleavings\<close>

definition part_inv :: "string \<Rightarrow> part_sys \<Rightarrow> bool" where
  "part_inv pr s \<longleftrightarrow> prints pr (ps_console s) (ps_cn s) (map snd (ps_said s)) \<and> logged s \<and> placed s \<and> farewell s"

lemma part_invD:
  assumes "part_inv pr s"
  shows "prints pr (ps_console s) (ps_cn s) (map snd (ps_said s))" "logged s" "placed s" "farewell s"
    "unbounded (ps_cn s)" "wf_parser (response_parser (ps_part s))"
  using assms by (auto simp: part_inv_def prints_def logged_def)

lemma LoadConfig_frame:
  "pconsole (Participant_LoadConfig conf p) = pconsole p"
  "response_parser (Participant_LoadConfig conf p) = response_parser p"
  "preceiver (Participant_LoadConfig conf p) = preceiver p"
  "group_connected (Participant_LoadConfig conf p) = group_connected p"
  "console_cancelled (Participant_LoadConfig conf p) = console_cancelled p"
  by (cases conf; simp add: Participant_LoadConfig_def Let_def split: prod.split)+

lemma new_Participant_parts:
  "pconsole (new_Participant a b c conf) = new_ConsoleTask ''participant=> ''"
  "response_parser (new_Participant a b c conf) = new_parser"
  "preceiver (new_Participant a b c conf) = None" "\<not> group_connected (new_Participant a b c conf)"
  "\<not> console_cancelled (new_Participant a b c conf)"
  by (simp_all add: new_Participant_def LoadConfig_frame)

lemma new_part_inv: "part_inv ''participant=> '' (new_part_sys (new_Participant a b c conf) cin)"
  by (simp add: part_inv_def prints_def logged_def placed_def farewell_def new_part_sys_def new_Participant_parts
      new_ConsoleTask_def new_queue_def unbounded_def)

lemma part_act_inv:
  assumes "part_inv pr s" and "part_act e a s = Ret s'"
  shows "part_inv pr s'"
proof (cases a)
  case (ShellAct k x)
  note i = part_invD [OF assms(1)]
  from ShellAct assms(2) have st: "Shell_step e k x (ps_shell s) s = Ret s'" by simp
  have "prints pr (ps_console s') (ps_cn s') (map snd (ps_said s'))"
    using Shell_step_speaks [OF i(5,6) st] i(1) prints_append [OF i(1)]
    by (auto simp: silent_def Shell_say_append [OF i(5)])
  then show ?thesis
    using Shell_step_logged [OF i(2,5) st] Shell_step_placed [OF i(3,6,5) st] Shell_step_farewell [OF i(4,6,5) st]
    by (simp add: part_inv_def)
next
  case ConsoleAct
  note i = part_invD [OF assms(1)]
  obtain pc cn where c: "Console_step (console_cancelled (ps_part s)) (ps_console s) (ps_cn s) = Ret (pc, cn)"
      "s' = s\<lparr>ps_console := pc, ps_part := (ps_part s)\<lparr>pconsole := cn\<rparr>\<rparr>"
    using assms(2) ConsoleAct by (auto simp: obind_eq_Ret)
  have "farewell s'"
    using i(4) c Console_step_cancelled by (auto simp: farewell_def)
  then show ?thesis using Console_step_prints [OF i(1) c(1)] i(2,3) c(2) by (simp add: part_inv_def logged_def placed_def)
next
  case (ReceiverAct lk acc)
  note i = part_invD [OF assms(1)]
  from ReceiverAct assms(2) have st: "Receiver_step e lk acc s = Ret s'" by simp
  obtain ts where "ps_console s' = ps_console s" "ps_cn s' = append_console ts (ps_cn s)"
      "ps_said s' = ps_said s @ map (Pair (ps_receivers s)) ts"
    using Receiver_step_speaks [OF i(5,2) st] by blast
  then have "prints pr (ps_console s') (ps_cn s') (map snd (ps_said s'))"
    using prints_append [OF i(1), of ts] by (simp add: comp_def)
  then show ?thesis
    using Receiver_step_logged [OF i(2,5) st] Receiver_step_farewell [OF i(4,2,5) st] Receiver_step_frame [OF st] i(3)
    by (simp add: part_inv_def placed_def)
next
  case CleanUpAct
  with assms(2) obtain r rs where "ps_cleaning s = r # rs"
      "s' = s\<lparr>ps_part := (ps_part s)\<lparr>pfds := MulticastReceiver_CleanUp r (pfds (ps_part s))\<rparr>, ps_cleaning := rs\<rparr>"
    by (auto simp: CleanUp_step_def split: list.splits)
  then show ?thesis using assms(1) by (simp add: part_inv_def logged_def placed_def farewell_def)
qed

lemma part_reach_inv:
  "(part_step e)\<^sup>*\<^sup>* s s' \<Longrightarrow> part_inv pr s \<Longrightarrow> part_inv pr s'"
proof (induction rule: rtranclp_induct)
  case (step t u)
  then obtain a where "part_act e a t = Ret u" by (auto elim: part_stepE)
  then show ?case using part_act_inv step.IH step.prems by blast
qed

lemmas new_part_reach_inv = part_reach_inv [OF _ new_part_inv]

lemma Shell_step_not_Crash:
  assumes "part_inv pr s"
  shows "Shell_step e k x (ps_shell s) s \<noteq> Crash"
proof (cases "ps_shell s")
  case (Sh_Wait f y)
  note wf = part_invD(6) [OF assms]
  show ?thesis
  proof (cases "Participant_WaitForMessage y (ps_part s)")
    case (Ret p)
    then obtain q where "p = (ps_part s)\<lparr>response_parser := q\<rparr>" "wf_parser q" using WaitForMessage_frame(2) [OF wf] by blast
    then show ?thesis using Sh_Wait Ret GetMessage_wf [of q "reg_response_codec e"] by (auto simp: Let_def)
  qed (use Sh_Wait WaitForMessage_frame(1) [OF wf] in auto)
next
  case Sh_Connect
  then have "Participant_CreateReq (pinput (ps_part s)) \<noteq> None"
    using part_invD(3) [OF assms] by (simp add: placed_def CreateReq_None)
  then show ?thesis using Sh_Connect by (auto simp: Shell_connect_def split: option.splits prod.splits)
next
  case (Sh_Join f)
  then show ?thesis using part_invD(3) [OF assms] by (auto simp: placed_def split: option.splits receiver_phase.splits)
next
  case (Sh_Say m fdopt)
  then show ?thesis by (simp add: Shell_say_append [OF part_invD(5) [OF assms]])
qed (auto simp: Let_def split: prod.splits)

lemma Receiver_step_not_Crash:
  assumes "part_inv pr s"
  shows "Receiver_step e lk acc s \<noteq> Crash"
proof (cases "preceiver (ps_part s)")
  case (Some rp)
  obtain r ph where rp: "rp = (r, ph)" by (cases rp)
  have "reader_ok r (ps_cn s)" using part_invD(2,5) [OF assms] Some rp by (auto simp: logged_def reader_ok_def)
  then have "MulticastReceiver_RunAtomic e r (ps_cn s) \<noteq> Crash" by (rule RunAtomic_effect(1))
  then show ?thesis using Some rp SetUp_effect(1) [of lk acc r "pfds (ps_part s)"]
    by (cases ph; cases "MulticastReceiver_RunAtomic e r (ps_cn s)"; cases "MulticastReceiver_SetUp lk acc r (pfds (ps_part s))")
      (auto simp: Receiver_step_def Let_def)
qed (simp add: Receiver_step_def Let_def)

lemma part_act_not_Crash:
  assumes "part_inv pr s"
  shows "part_act e a s \<noteq> Crash"
proof (cases a)
  case ConsoleAct
  then show ?thesis
    using Console_step_not_Crash [of "console_cancelled (ps_part s)" "ps_console s" "ps_cn s"]
    by (cases "Console_step (console_cancelled (ps_part s)) (ps_console s) (ps_cn s)") auto
qed (use Shell_step_not_Crash [OF assms] Receiver_step_not_Crash [OF assms] in
    \<open>auto simp: CleanUp_step_def split: list.splits\<close>)

section \<open>The end of the console task\<close>

text \<open>The steps that a cancelled console task has left.\<close>

fun console_rank :: "console_pc \<Rightarrow> nat" where
  "console_rank Con_Exited = 0"
| "console_rank Con_Update = 1"
| "console_rank Con_Test = 3"
| "console_rank (Con_Print m) = 4"
| "console_rank (Con_Clear m) = 5"
| "console_rank _ = 2"

definition console_work :: "part_sys \<Rightarrow> nat" where
  "console_work s = 4 * length (ps_queue s) + console_rank (ps_console s)"

lemma Console_step_decreases:
  assumes "Console_step True pc cn = Ret (pc', cn')"
  shows "4 * length (queue (console_message_queue cn')) + console_rank pc' <
    4 * length (queue (console_message_queue cn)) + console_rank pc"
  using assms
  by (cases pc; cases "queue (console_message_queue cn)")
    (auto simp: console_update_def Pop_def ConsoleTask_SetUp_def print_def ClearLine_def Empty_def split: if_splits)

lemma other_act_work:
  assumes "part_inv pr s" and "a \<noteq> ConsoleAct" and "part_act e a s = Ret s'"
  shows "console_work s' = console_work s + 4 * (length (ps_said s') - length (ps_said s))"
proof (cases a)
  case (ShellAct k x)
  then have "Shell_step e k x (ps_shell s) s = Ret s'" using assms(3) by simp
  from Shell_step_speaks [OF part_invD(5,6) [OF assms(1)] this] show ?thesis
    by (auto simp: console_work_def silent_def Shell_say_append [OF part_invD(5) [OF assms(1)]])
next
  case (ReceiverAct lk acc)
  then have "Receiver_step e lk acc s = Ret s'" using assms(3) by simp
  from Receiver_step_speaks [OF part_invD(5,2) [OF assms(1)] this] show ?thesis by (auto simp: console_work_def)
next
  case CleanUpAct
  then show ?thesis using CleanUp_step_silent assms(3) by (auto simp: console_work_def silent_def)
qed (use assms(2) in simp)

section \<open>Threads that are not interrupted\<close>

definition console_alone :: "bool \<Rightarrow> console_pc \<times> console \<Rightarrow> console_pc \<times> console \<Rightarrow> bool" where
  "console_alone c x y \<longleftrightarrow> Console_step c (fst x) (snd x) = Ret y"

lemma console_alone_step:
  "Console_step c pc t = Ret y \<Longrightarrow> (console_alone c)\<^sup>*\<^sup>* y z \<Longrightarrow> (console_alone c)\<^sup>*\<^sup>* (pc, t) z"
  by (rule converse_rtranclp_into_rtranclp [of _ _ y]) (simp_all add: console_alone_def)

lemma console_alone_prints_queued:
  "print_queued t = Ret t' \<Longrightarrow> (console_alone c)\<^sup>*\<^sup>* (Con_Test, t) (Con_Update, print (prompt t') t')"
proof (induction "queue (console_message_queue t)" arbitrary: t)
  case Nil
  then have "t' = t" by (subst (asm) print_queued.simps) (simp add: Empty_def)
  moreover have "(console_alone c)\<^sup>*\<^sup>* (Con_Prompt, t) (Con_Update, print (prompt t) t)"
    by (rule console_alone_step [OF _ rtranclp.rtrancl_refl]) simp
  ultimately show ?case using Nil(1)
    by (intro console_alone_step [of c Con_Test t "(Con_Prompt, t)"]) (simp_all add: Empty_def)
next
  case (Cons m ms)
  let ?t = "t\<lparr>console_message_queue := (console_message_queue t)\<lparr>queue := ms\<rparr>\<rparr>"
  have q: "queue (console_message_queue t) = m # ms" using Cons(2) by simp
  then have "print_queued (print (m @ [newline]) ?t) = Ret t'"
    using Cons.prems by (subst (asm) print_queued.simps) (simp add: Empty_def Pop_def)
  then have "(console_alone c)\<^sup>*\<^sup>* (Con_Test, print (m @ [newline]) ?t) (Con_Update, print (prompt t') t')"
    using Cons(1) [of "print (m @ [newline]) ?t"] by (simp add: print_def)
  then have "(console_alone c)\<^sup>*\<^sup>* (Con_Print m, ?t) (Con_Update, print (prompt t') t')"
    by (rule console_alone_step [rotated]) simp
  then have "(console_alone c)\<^sup>*\<^sup>* (Con_Next, t) (Con_Update, print (prompt t') t')"
    by (rule console_alone_step [rotated]) (simp add: q Pop_def)
  then show ?case by (rule console_alone_step [rotated]) (simp add: q Empty_def)
qed

text \<open>An iteration of the console task that nobody interrupts is the \<open>RunAtomic\<close> of \<open>Console_Task\<close>.\<close>

lemma console_alone_is_RunAtomic:
  assumes "participant_ConsoleTask_RunAtomic t = Ret (st, t')"
  shows "(console_alone c)\<^sup>*\<^sup>* (Con_Pop, t) (Con_Update, t')"
proof -
  obtain m q t2 where p: "Pop (console_message_queue t) = Ret (m, q)"
      "print_queued (print (m @ [newline]) (ClearLine (t\<lparr>console_message_queue := q\<rparr>))) = Ret t2"
      "t' = print (prompt t2) t2"
    using assms by (auto simp: participant_ConsoleTask_RunAtomic_def obind_eq_Ret Let_def)
  let ?t = "t\<lparr>console_message_queue := q\<rparr>"
  have "(console_alone c)\<^sup>*\<^sup>* (Con_Test, print (m @ [newline]) (ClearLine ?t)) (Con_Update, t')"
    using console_alone_prints_queued [OF p(2), of c] p(3) by simp
  then have "(console_alone c)\<^sup>*\<^sup>* (Con_Print m, ClearLine ?t) (Con_Update, t')"
    by (rule console_alone_step [rotated]) simp
  then have "(console_alone c)\<^sup>*\<^sup>* (Con_Clear m, ?t) (Con_Update, t')"
    by (rule console_alone_step [rotated]) simp
  then show ?thesis by (rule console_alone_step [rotated]) (simp add: p(1))
qed

inductive shell_alone :: "participant_env \<Rightarrow> connect_calls \<Rightarrow> sock \<Rightarrow> part_sys \<Rightarrow> part_sys \<Rightarrow> bool" for e k x where
  looping: "ps_shell s = Sh_Loop \<Longrightarrow> shell_alone e k x s s"
| going: "Shell_step e k x (ps_shell s) s = Ret s1 \<Longrightarrow> shell_alone e k x s1 s2 \<Longrightarrow> shell_alone e k x s s2"

text \<open>From a call of \<open>SendConsole\<close>, and from the branches of the \<open>switch\<close>, to the next look at \<open>running_\<close>.\<close>

definition after_close :: "int option \<Rightarrow> mc_participant \<Rightarrow> mc_participant" where
  "after_close fdopt p = (case fdopt of None \<Rightarrow> p | Some f \<Rightarrow> p\<lparr>pfds := (pfds p)(f := None)\<rparr>)"

definition alone_does :: "participant_env \<Rightarrow> connect_calls \<Rightarrow> sock \<Rightarrow> part_sys \<Rightarrow> mc_participant \<Rightarrow> bool" where
  "alone_does e k x s p \<longleftrightarrow>
     (\<exists>s'. shell_alone e k x s s' \<and> ps_part s' = p \<and> ps_cin s' = ps_cin s \<and> ps_console s' = ps_console s)"

lemma alone_doesI:
  assumes "Shell_step e k x (ps_shell s) s = Ret s1" and "alone_does e k x s1 p"
    and "ps_cin s1 = ps_cin s" and "ps_console s1 = ps_console s"
  shows "alone_does e k x s p"
  using assms shell_alone.going [OF assms(1)] unfolding alone_does_def by metis

lemma alone_does_loop: "ps_shell s = Sh_Loop \<Longrightarrow> alone_does e k x s (ps_part s)"
  unfolding alone_does_def by (blast intro: shell_alone.looping)

lemma close_alone: "ps_shell s = Sh_Close f \<Longrightarrow> alone_does e k x s (after_close (Some f) (ps_part s))"
proof -
  assume pc: "ps_shell s = Sh_Close f"
  let ?s = "s\<lparr>ps_part := (ps_part s)\<lparr>pfds := (pfds (ps_part s))(f := None)\<rparr>, ps_shell := Sh_Loop\<rparr>"
  have "alone_does e k x ?s (after_close (Some f) (ps_part s))"
    using alone_does_loop [of ?s e k x] by (simp add: after_close_def)
  then show ?thesis by (rule alone_doesI [rotated]) (simp_all add: pc)
qed

lemma say_alone:
  assumes "unbounded (ps_cn s)" and "ps_shell s = Sh_Say m fdopt" and "participant_console m (ps_part s) = Ret p"
  shows "alone_does e k x s (after_close fdopt p)"
proof -
  let ?s = "s\<lparr>ps_part := p, ps_said := ps_said s @ [(0, m)],
    ps_shell := (case fdopt of None \<Rightarrow> Sh_Loop | Some participant_fd \<Rightarrow> Sh_Close participant_fd)\<rparr>"
  have "Shell_step e k x (ps_shell s) s = Ret ?s"
    using assms by (simp add: Shell_say_append participant_console_append)
  moreover have "alone_does e k x ?s (after_close fdopt p)"
    using alone_does_loop [of ?s e k x] close_alone [of ?s] by (cases fdopt) (simp_all add: after_close_def)
  ultimately show ?thesis by (rule alone_doesI) simp_all
qed

lemma start_alone:
  assumes "unbounded (ps_cn s)" and "ps_shell s = Sh_Start f" and "start_receiver (ps_part s) = Ret p"
  shows "alone_does e k x s (after_close (Some f) p)"
proof -
  obtain s1 m where "Shell_step e k x (ps_shell s) s = Ret s1" "ps_shell s1 = Sh_Say m (Some f)"
      "participant_console m (ps_part s1) = Ret p" "unbounded (ps_cn s1)" "ps_cin s1 = ps_cin s" "ps_console s1 = ps_console s"
    using assms by (cases "group_connected (ps_part s)") (auto simp: start_receiver_def Let_def)
  then show ?thesis using say_alone alone_doesI by metis
qed

text \<open>The commands that do not wait for the receiver.\<close>

definition stops_receiver :: "mc_participant \<Rightarrow> bool" where
  "stops_receiver p \<longleftrightarrow> group_connected p \<and> req_type (pinput p) \<in> {DEREG, DISCON}"

lemma wait_alone:
  assumes "unbounded (ps_cn s)" and "ps_shell s = Sh_Wait f y" and "req_type (pinput (ps_part s)) = REG"
    and "wf_parser (response_parser (ps_part s))" and "after_request e y (ps_part s) = Ret p"
  shows "alone_does e k x s (after_close (Some f) p)"
proof -
  obtain p1 m q i where p: "Participant_WaitForMessage y (ps_part s) = Ret p1"
      "GetMessage (reg_response_codec e) (response_parser p1) = Ret (m, q)"
      "i = (case m of Some i \<Rightarrow> i | None \<Rightarrow> if HasCompleteMessage (response_parser p1) then unparsed_response e else 0)"
      "start_receiver (p1\<lparr>response_parser := q, pinput := (pinput p1)\<lparr>my_id := sint i\<rparr>\<rparr>) = Ret p"
    using assms(3,5) by (auto simp: after_request_def obind_eq_Ret Let_def)
  let ?s = "s\<lparr>ps_part := p1\<lparr>response_parser := q, pinput := (pinput p1)\<lparr>my_id := sint i\<rparr>\<rparr>, ps_shell := Sh_Start f\<rparr>"
  have "pconsole p1 = ps_cn s" using WaitForMessage_frame(2) [OF assms(4) p(1)] by auto
  then have "alone_does e k x ?s (after_close (Some f) p)"
    using assms(1) p(4) by (intro start_alone) simp_all
  then show ?thesis by (rule alone_doesI [rotated]) (use assms(2) p(1-3) in \<open>simp_all add: Let_def\<close>)
qed

lemma request_alone:
  assumes "unbounded (ps_cn s)" and "wf_parser (response_parser (ps_part s))" and "\<not> stops_receiver (ps_part s)"
    and "ps_shell s = after_connect (req_type (pinput (ps_part s))) f y" and "after_request e y (ps_part s) = Ret p"
  shows "alone_does e k x s (after_close (Some f) p)"
proof (cases "req_type (pinput (ps_part s))")
  case REG
  then show ?thesis using assms wait_alone by (simp add: after_connect_def)
next
  case RECON
  then show ?thesis using assms start_alone by (simp add: after_connect_def after_request_def)
next
  case DEREG
  then have "Shell_step e k x (ps_shell s) s = Ret (s\<lparr>ps_shell := Sh_Say ''Nothing to disconnect from!'' (Some f)\<rparr>)"
    using assms(3,4) by (simp add: after_connect_def stops_receiver_def)
  moreover have "alone_does e k x (s\<lparr>ps_shell := Sh_Say ''Nothing to disconnect from!'' (Some f)\<rparr>) (after_close (Some f) p)"
    using DEREG assms by (intro say_alone) (simp_all add: after_request_def stops_receiver_def)
  ultimately show ?thesis by (rule alone_doesI) simp_all
next
  case DISCON
  then have "Shell_step e k x (ps_shell s) s = Ret (s\<lparr>ps_shell := Sh_Say ''Nothing to disconnect from!'' (Some f)\<rparr>)"
    using assms(3,4) by (simp add: after_connect_def stops_receiver_def)
  moreover have "alone_does e k x (s\<lparr>ps_shell := Sh_Say ''Nothing to disconnect from!'' (Some f)\<rparr>) (after_close (Some f) p)"
    using DISCON assms by (intro say_alone) (simp_all add: after_request_def stops_receiver_def)
  ultimately show ?thesis by (rule alone_doesI) simp_all
qed (use assms close_alone [of s f e k x] in \<open>simp_all add: after_connect_def after_request_def\<close>)

lemma connect_alone:
  assumes "unbounded (ps_cn s)" and "wf_parser (response_parser (ps_part s))" and "\<not> stops_receiver (ps_part s)"
    and "ps_shell s = Sh_Connect" and "Participant_CreateReq (pinput (ps_part s)) = Some m"
    and "ConnectAndSend e k x m (ps_part s) = Some (f, y, p)" and "f \<noteq> -1" and "after_request e y p = Ret p'"
  shows "alone_does e k x s (after_close (Some f) p')"
proof -
  obtain t where p: "p = (ps_part s)\<lparr>pfds := t\<rparr>" using ConnectAndSend_frame [OF assms(6)] by blast
  let ?s = "s\<lparr>ps_part := p, ps_shell := after_connect (req_type (pinput p)) f y\<rparr>"
  have "Shell_step e k x (ps_shell s) s = Ret ?s" using assms(4-7) by (simp add: Shell_connect_def)
  moreover have "alone_does e k x ?s (after_close (Some f) p')"
    using assms(1-3,8) p by (intro request_alone [of _ f y]) (simp_all add: stops_receiver_def)
  ultimately show ?thesis by (rule alone_doesI) simp_all
qed

text \<open>
  A command that nobody interrupts does what \<open>Participant_line\<close> says, as long as it does not have to
  wait for the receiver: the participant that is left, its input and its console task are the same.
\<close>

theorem shell_alone_is_line:
  assumes "unbounded (ps_cn s)" and "wf_parser (response_parser (ps_part s))" and "ps_shell s = Sh_Read"
    and "getline (ps_cin s) [] = (ok, input, cin')" and "Participant_line e k x input (ps_part s) = Some (Ret p)"
    and "\<not> stops_receiver ((ps_part s)\<lparr>pinput := Participant_Parse input (pinput (ps_part s))\<rparr>)"
  shows "\<exists>s'. shell_alone e k x s s' \<and> ps_part s' = p \<and> ps_cin s' = cin' \<and> ps_console s' = ps_console s"
proof -
  let ?ip = "Participant_Parse input (pinput (ps_part s))"
  let ?p = "(ps_part s)\<lparr>pinput := ?ip\<rparr>"
  define s1 where "s1 = s\<lparr>ps_part := ?p, ps_cin := cin', ps_shell := (if \<not> input_valid ?ip
    then Sh_Say ''Invalid command!'' None else if req_type ?ip = QUIT then Sh_Cancel else Sh_Connect)\<rparr>"
  have read: "Shell_step e k x (ps_shell s) s = Ret s1" using assms(3,4) by (simp add: s1_def Let_def)
  have s1: "ps_part s1 = ?p" "ps_cin s1 = cin'" "ps_console s1 = ps_console s" by (simp_all add: s1_def)
  have "alone_does e k x s1 p"
  proof (cases "input_valid ?ip")
    case False
    then show ?thesis using say_alone [of s1 "''Invalid command!''" None p e k x] assms(1,5)
      by (simp add: s1_def Participant_line_def Let_def after_close_def)
  next
    case valid: True
    show ?thesis
    proof (cases "req_type ?ip = QUIT")
      case True
      let ?s2 = "s1\<lparr>ps_part := ?p\<lparr>console_cancelled := True, running := False\<rparr>, ps_shell := Sh_Say ''Bye!'' None\<rparr>"
      have "Shell_step e k x (ps_shell s1) s1 = Ret ?s2" using True valid by (simp add: s1_def)
      moreover have "alone_does e k x ?s2 p"
        using say_alone [of ?s2 "''Bye!''" None p e k x] True valid assms(1,5)
        by (simp add: Participant_line_def Let_def after_close_def)
      ultimately show ?thesis by (rule alone_doesI) simp_all
    next
      case False
      then obtain m where m: "Participant_CreateReq ?ip = Some m" using CreateReq_None [of ?ip] by auto
      obtain f y q where c: "ConnectAndSend e k x m ?p = Some (f, y, q)"
        using assms(5) False valid m by (auto simp: Participant_line_def Let_def split: option.splits)
      have pc: "ps_shell s1 = Sh_Connect" using False valid by (simp add: s1_def)
      show ?thesis
      proof (cases "f = -1")
        case True
        let ?s2 = "s1\<lparr>ps_part := p, ps_shell := Sh_Loop\<rparr>"
        have "Shell_step e k x (ps_shell s1) s1 = Ret ?s2"
          using True c m pc s1 assms(5) False valid by (auto simp: Shell_connect_def Participant_line_def Let_def)
        moreover have "alone_does e k x ?s2 p" using alone_does_loop [of ?s2 e k x] by simp
        ultimately show ?thesis by (rule alone_doesI) simp_all
      next
        case f: False
        obtain p3 where p3: "after_request e y q = Ret p3" "p = after_close (Some f) p3"
          using f c m False valid assms(5) by (auto simp: Participant_line_def Let_def obind_eq_Ret after_close_def)
        show ?thesis using connect_alone [of s1 m e k x f y q p3] s1 pc m c f p3 assms(1,2,6) by simp
      qed
    qed
  qed
  then obtain s' where "shell_alone e k x s1 s'" "ps_part s' = p" "ps_cin s' = cin'" "ps_console s' = ps_console s"
    unfolding alone_does_def s1 by blast
  then show ?thesis using shell_alone.going [OF read] by blast
qed

section \<open>Properties\<close>

text \<open>A participant without a coordinator, and a command that cannot reach one.\<close>

abbreviation demo_part :: mc_participant where
  "demo_part \<equiv> new_Participant 0 0 0 (Some ''1'')"

abbreviation no_coordinator :: connect_calls where
  "no_coordinator \<equiv> \<lparr>socket_ret = 3, pton = (\<lambda>_. None), connect_ret = 0\<rparr>"

fun part_run :: "participant_env \<Rightarrow> part_action list \<Rightarrow> part_sys \<Rightarrow> part_sys outcome" where
  "part_run e [] s = Ret s"
| "part_run e (a # as) s = obind (part_act e a s) (part_run e as)"

lemma part_run_reaches: "part_run e as s = Ret s' \<Longrightarrow> (part_step e)\<^sup>*\<^sup>* s s'"
proof (induction as arbitrary: s)
  case (Cons a as)
  then obtain t where "part_act e a s = Ret t" "part_run e as t = Ret s'" by (auto simp: obind_eq_Ret)
  then show ?case using Cons.IH [of t] by (meson act converse_rtranclp_into_rtranclp)
qed simp

abbreviation demo_shell :: part_action where
  "demo_shell \<equiv> ShellAct no_coordinator bad_fd"

lemma Parse_quit: "Participant_Parse ''quit'' ip = ip\<lparr>input_valid := True, req_type := QUIT\<rparr>"
proof -
  have "is_word ''quit''" "starts_with_space []"
    by (simp_all add: is_word_def is_space_def starts_with_space_def)
  then have "read_word (''quit'' @ []) [] = (''quit'', [])" by (rule read_word_word(1))
  then show ?thesis by (simp add: Participant_Parse_def commands_def)
qed

lemmas demo_run_simps = new_part_sys_def new_Participant_parts new_Participant_ready Parse_quit Let_def
  ConsoleTask_SetUp_def print_def console_update_def new_ConsoleTask_def new_queue_def unbounded_def Shell_say_def
  participant_console_def spoken_def SendConsole_def Push_def is_full_def receiver_gone_def numeral_eq_Suc

lemma demo_quit:
  "\<exists>s. part_run e [ConsoleAct, ConsoleAct, demo_shell, demo_shell, demo_shell, demo_shell]
      (new_part_sys demo_part (Some ''quit'')) = Ret s \<and>
     ps_said s = [(0, ''Bye!'')] \<and> ps_console s = Con_Pop \<and> ps_queue s = [''Bye!'']"
  by (simp add: demo_run_simps)



text \<open>
  C22. \<open>quit\<close> ends the console task, as the comment in \<open>Start\<close> says. Once \<open>Bye!\<close> has been sent, in any
  reachable state, the console task has ended or can take a step, and every step it takes lowers a
  number; the other threads raise that number only by sending further messages.
\<close>

theorem quit_ends_console:
  assumes "(part_step e)\<^sup>*\<^sup>* (new_part_sys (new_Participant a b c conf) cin) s" and "(0, ''Bye!'') \<in> set (ps_said s)"
  shows "(ps_console s = Con_Exited \<or>
      (\<exists>s'. part_act e ConsoleAct s = Ret s' \<and> console_work s' < console_work s)) \<and>
    (\<forall>act s'. act \<noteq> ConsoleAct \<longrightarrow> part_act e act s = Ret s' \<longrightarrow>
      console_work s' = console_work s + 4 * (length (ps_said s') - length (ps_said s)))"
proof -
  have inv: "part_inv ''participant=> '' s" by (rule new_part_reach_inv [OF assms(1)])
  have f: "console_cancelled (ps_part s)" "ps_console s = Con_Pop \<Longrightarrow> ps_queue s \<noteq> []"
    using part_invD(4) [OF inv] assms(2) by (auto simp: farewell_def)
  have "\<exists>s'. part_act e ConsoleAct s = Ret s' \<and> console_work s' < console_work s" if n: "ps_console s \<noteq> Con_Exited"
  proof -
    obtain pc cn where c: "Console_step True (ps_console s) (ps_cn s) = Ret (pc, cn)"
      using Console_step_enabled [OF part_invD(1) [OF inv] n f(2)] by blast
    then show ?thesis using f(1) Console_step_decreases [OF c] by (simp add: console_work_def)
  qed
  then show ?thesis using other_act_work [OF inv] by blast
qed

theorem quit_ends_console_witness:
  "\<exists>s s'. (part_step (demo_participant_env [] []))\<^sup>*\<^sup>* (new_part_sys demo_part (Some ''quit'')) s \<and>
    ps_console s = Con_Pop \<and> part_act (demo_participant_env [] []) ConsoleAct s = Ret s' \<and> console_work s' < console_work s"
proof -
  obtain s where s: "(part_step (demo_participant_env [] []))\<^sup>*\<^sup>* (new_part_sys demo_part (Some ''quit'')) s"
      "ps_said s = [(0, ''Bye!'')]" "ps_console s = Con_Pop"
    using demo_quit part_run_reaches by meson
  then show ?thesis using quit_ends_console [OF s(1)] by auto
qed

text \<open>The console task waits for a message that nobody will send, and the shell is on its way out.\<close>

definition stranded :: "part_sys \<Rightarrow> bool" where
  "stranded s \<longleftrightarrow> ps_console s = Con_Pop \<and> ps_queue s = [] \<and> preceiver (ps_part s) = None \<and> ps_cleaning s = [] \<and>
     \<not> running (ps_part s) \<and> ps_shell s \<in> {Sh_Loop, Sh_Return, Sh_Destroy}"

lemma stranded_act:
  assumes "stranded s" and "part_act e a s = Ret s'"
  shows "stranded s'"
  using assms by (cases a) (auto simp: stranded_def Pop_def Receiver_step_def CleanUp_step_def Let_def)

lemma stranded_reach: "(part_step e)\<^sup>*\<^sup>* s s' \<Longrightarrow> stranded s \<Longrightarrow> stranded s'"
proof (induction rule: rtranclp_induct)
  case (step t u)
  then obtain a where "part_act e a t = Ret u" by (auto elim: part_stepE)
  then show ?case using stranded_act step.IH step.prems by blast
qed

lemma stranded_not_gone: "stranded s \<Longrightarrow> ps_shell s \<noteq> Sh_Gone"
  by (auto simp: stranded_def)

lemma stranded_stuck: "stranded s \<Longrightarrow> ps_shell s = Sh_Destroy \<Longrightarrow> \<not> part_step e s s'"
proof
  assume s: "stranded s" "ps_shell s = Sh_Destroy" and "part_step e s s'"
  then obtain a where "part_act e a s = Ret s'" by (auto elim: part_stepE)
  then show False using s by (cases a) (auto simp: stranded_def Pop_def Receiver_step_def CleanUp_step_def Let_def)
qed

lemma stranded_destroys:
  assumes "stranded s"
  shows "\<exists>s'. (part_step e)\<^sup>*\<^sup>* s s' \<and> ps_shell s' = Sh_Destroy"
proof -
  let ?a = "ShellAct no_coordinator bad_fd"
  have r: "\<exists>s'. (part_step e)\<^sup>*\<^sup>* t s' \<and> ps_shell s' = Sh_Destroy" if "ps_shell t = Sh_Return" for t
    using that part_run_reaches [of e "[?a]" t] by fastforce
  consider "ps_shell s = Sh_Loop" | "ps_shell s = Sh_Return" | "ps_shell s = Sh_Destroy"
    using assms by (auto simp: stranded_def)
  then show ?thesis
  proof cases
    case 1
    let ?t = "s\<lparr>ps_shell := Sh_Return\<rparr>"
    have "(part_step e)\<^sup>*\<^sup>* s ?t"
      using 1 assms by (intro part_run_reaches [of e "[?a]"]) (simp add: stranded_def)
    moreover obtain s' where "(part_step e)\<^sup>*\<^sup>* ?t s'" "ps_shell s' = Sh_Destroy" using r [of ?t] by auto
    ultimately show ?thesis by (meson rtranclp_trans)
  qed (use r in auto)
qed

text \<open>
  C23. A participant that cannot reach its coordinator never ends. When the console task waits for a
  message and no receiver is there, and the request cannot be sent, \<open>Start\<close> returns without a word to
  the console task; whatever the threads do then, the destructor of the pool goes on waiting for
  that task, and at last no thread can take a step.
\<close>

theorem unreachable_coordinator_hangs:
  assumes "ps_shell s = Sh_Connect" and "ps_console s = Con_Pop" and "ps_queue s = []"
    and "preceiver (ps_part s) = None" and "ps_cleaning s = []"
    and "Participant_CreateReq (pinput (ps_part s)) = Some m" and "ConnectAndSend e k x m (ps_part s) = Some (-1, y, p)"
  shows "\<exists>s1. part_act e (ShellAct k x) s = Ret s1 \<and>
    (\<forall>s'. (part_step e)\<^sup>*\<^sup>* s1 s' \<longrightarrow> ps_shell s' \<noteq> Sh_Gone) \<and>
    (\<exists>s'. (part_step e)\<^sup>*\<^sup>* s1 s' \<and> (\<forall>s''. \<not> part_step e s' s''))"
proof -
  obtain t where p: "p = (ps_part s)\<lparr>pfds := t\<rparr>" using ConnectAndSend_frame [OF assms(7)] by blast
  obtain s1 where s1: "part_act e (ShellAct k x) s = Ret s1" "stranded s1"
    using assms p by (simp add: Shell_connect_def stranded_def)
  then obtain s' where "(part_step e)\<^sup>*\<^sup>* s1 s'" "ps_shell s' = Sh_Destroy" using stranded_destroys by blast
  moreover from this have "\<forall>s''. \<not> part_step e s' s''" using stranded_stuck stranded_reach s1(2) by blast
  moreover have "\<forall>s'. (part_step e)\<^sup>*\<^sup>* s1 s' \<longrightarrow> ps_shell s' \<noteq> Sh_Gone"
    using stranded_reach stranded_not_gone s1(2) by blast
  ultimately show ?thesis using s1(1) by blast
qed

lemma demo_unreachable:
  "\<exists>s. part_run e [ConsoleAct, ConsoleAct, demo_shell, demo_shell] (new_part_sys demo_part (Some ''msend hi'')) = Ret s \<and>
     ps_shell s = Sh_Connect \<and> ps_console s = Con_Pop \<and> ps_queue s = [] \<and> preceiver (ps_part s) = None \<and>
     ps_cleaning s = [] \<and> req_type (pinput (ps_part s)) = MSEND"
  using Parse_msend [of "''hi''" "pinput demo_part"] by (simp add: demo_run_simps)

lemma SendForever_bad_fd: "bs \<noteq> [] \<Longrightarrow> \<exists>y. participant_util_SendForever bs bad_fd = Some (-1, y)"
  by (simp add: participant_util_SendForever_def bad_fd_def sys_send_def is_timeout_def
      participant_util_SendForever_loop.simps [of bs])

lemma ConnectAndSend_no_coordinator:
  "\<exists>y p'. ConnectAndSend e no_coordinator x m p = Some (-1, y, p')"
proof -
  let ?b = "snd (Serialize (request_codec e) m [])"
  have "\<exists>n y. participant_util_SendForever ?b bad_fd = Some (n, y)"
    using SendForever_bad_fd [of ?b]
    by (cases "?b = []") (auto simp: participant_util_SendForever_def participant_util_SendForever_loop.simps [of "[]"])
  then show ?thesis
    using participant_util.bad_host [of no_coordinator "coordinator_ip p"] by (auto simp: ConnectAndSend_def)
qed

theorem unreachable_coordinator_hangs_witness:
  "\<exists>s s1. (part_step (demo_participant_env [] []))\<^sup>*\<^sup>* (new_part_sys demo_part (Some ''msend hi'')) s \<and>
    part_act (demo_participant_env [] []) demo_shell s = Ret s1 \<and>
    (\<forall>s'. (part_step (demo_participant_env [] []))\<^sup>*\<^sup>* s1 s' \<longrightarrow> ps_shell s' \<noteq> Sh_Gone)"
proof -
  obtain s where s: "(part_step (demo_participant_env [] []))\<^sup>*\<^sup>* (new_part_sys demo_part (Some ''msend hi'')) s"
      "ps_shell s = Sh_Connect" "ps_console s = Con_Pop" "ps_queue s = []" "preceiver (ps_part s) = None"
      "ps_cleaning s = []" "req_type (pinput (ps_part s)) = MSEND"
    using demo_unreachable part_run_reaches by meson
  from s(7) obtain m where m: "Participant_CreateReq (pinput (ps_part s)) = Some m"
    using CreateReq_None [of "pinput (ps_part s)"] by auto
  obtain y p where "ConnectAndSend (demo_participant_env [] []) no_coordinator bad_fd m (ps_part s) = Some (-1, y, p)"
    using ConnectAndSend_no_coordinator by blast
  from unreachable_coordinator_hangs [OF s(2-6) m this] show ?thesis using s(1) by blast
qed

text \<open>
  The farewell can get lost: when the console task looks at its cancellation after \<open>CancelTask\<close> and
  before \<open>SendConsole\<close>, it ends, and the program ends with \<open>Bye!\<close> in the queue.
\<close>

theorem bye_can_get_lost:
  "\<exists>s. (part_step e)\<^sup>*\<^sup>* (new_part_sys demo_part (Some ''quit'')) s \<and> ps_shell s = Sh_Gone \<and>
    ps_queue s = [''Bye!''] \<and> console_out (ps_cn s) = ''participant=> ''"
proof -
  have "\<exists>s. part_run e [ConsoleAct, demo_shell, demo_shell, demo_shell, ConsoleAct, demo_shell, demo_shell, demo_shell, demo_shell]
      (new_part_sys demo_part (Some ''quit'')) = Ret s \<and> ps_shell s = Sh_Gone \<and>
    ps_queue s = [''Bye!''] \<and> console_out (ps_cn s) = ''participant=> ''"
    by (simp add: demo_run_simps)
  then show ?thesis using part_run_reaches by blast
qed

end
