(* ===== verification/Coordinator.thy ===== *)
theory Coordinator
  imports Blocking_Queue Command_Ids Pool_Task Pub_Sub_Messages
begin

text \<open>
  Model of the publish/subscribe coordinator, \<open>project3/coordinator\<close>: the message log, the
  participant manager, the registrar, the messengers and their manager, and the handlers of
  \<open>coordinator.cpp\<close>. A client's request is served by one \<open>Coordinator\<close> object; the objects it
  shares with the others are the fields of \<open>coord\<close>.

  The clock is a parameter: \<open>clock i\<close> is the value of the \<open>i\<close>-th call of
  \<open>steady_clock::now()\<close>, and \<open>reads\<close> counts the calls. Descriptors index the open connections;
  the results of the next connection attempts are an input. The sets of the C++ are unordered:
  the messengers are kept in the order of iteration, and the order in which missed messages
  are visited is an argument.
\<close>

section \<open>Message log\<close>

record Message =
  msg :: string
  timestamp :: int
  participant_id :: u32

record message_log =
  coordinator_messages :: "Message set"
  td :: int

definition Log_Insert :: "Message \<Rightarrow> message_log \<Rightarrow> message_log" where
  "Log_Insert m l = l\<lparr>coordinator_messages := insert m (coordinator_messages l)\<rparr>"

definition Log_Clear :: "message_log \<Rightarrow> message_log" where
  "Log_Clear l = l\<lparr>coordinator_messages := {}\<rparr>"

definition GetMissedMessages :: "int \<Rightarrow> int \<Rightarrow> message_log \<Rightarrow> Message set" where
  "GetMissedMessages disconnection_time reconnection_time l =
     {m \<in> coordinator_messages l.
        disconnection_time < timestamp m \<and> reconnection_time - timestamp m \<le> td l}"

section \<open>Participants\<close>

record Participant =
  pid :: u32
  sock_fd :: int
  pport :: u16
  phostname :: string
  connected :: bool
  disconnect_time :: int

text \<open>\<open>Participant{}\<close>, with all members zero.\<close>

definition zero_participant :: Participant where
  "zero_participant =
     \<lparr>pid = 0, sock_fd = 0, pport = 0, phostname = [], connected = False, disconnect_time = 0\<rparr>"

text \<open>
  Participants are equal when their ids are, so the set of connected participants is a map
  from ids; inserting a participant that is already there changes nothing.
\<close>

record participant_manager =
  connected_participants :: "u32 \<rightharpoonup> Participant"
  id_to_participant :: "u32 \<rightharpoonup> Participant"

definition set_insert :: "Participant \<Rightarrow> (u32 \<rightharpoonup> Participant) \<Rightarrow> (u32 \<rightharpoonup> Participant)" where
  "set_insert p s = (if s (pid p) = None then s(pid p \<mapsto> p) else s)"

definition PM_RegisterParticipant :: "Participant \<Rightarrow> participant_manager \<Rightarrow> participant_manager" where
  "PM_RegisterParticipant p pm =
     pm\<lparr>id_to_participant := (id_to_participant pm)(pid p \<mapsto> p),
        connected_participants := set_insert p (connected_participants pm)\<rparr>"

definition PM_DeregisterParticipant :: "Participant \<Rightarrow> participant_manager \<Rightarrow> participant_manager" where
  "PM_DeregisterParticipant p pm =
     pm\<lparr>id_to_participant := (id_to_participant pm)(pid p := None),
        connected_participants := (connected_participants pm)(pid p := None)\<rparr>"

definition PM_IsConnected :: "Participant \<Rightarrow> participant_manager \<Rightarrow> bool" where
  "PM_IsConnected p pm \<longleftrightarrow> connected_participants pm (pid p) \<noteq> None"

text \<open>\<open>operator[]\<close> of the map creates a zero participant where there is none.\<close>

definition PM_DisconnectParticipant ::
  "int \<Rightarrow> Participant \<Rightarrow> participant_manager \<Rightarrow> bool \<times> participant_manager" where
  "PM_DisconnectParticipant now p pm =
     (if connected_participants pm (pid p) = None then (False, pm)
      else
        let q = (case id_to_participant pm (pid p) of None \<Rightarrow> zero_participant | Some q \<Rightarrow> q)
        in (True, pm\<lparr>id_to_participant := (id_to_participant pm)
                       (pid p \<mapsto> q\<lparr>connected := False, disconnect_time := now\<rparr>),
                     connected_participants := (connected_participants pm)(pid p := None)\<rparr>))"

definition PM_ReconnectParticipant :: "Participant \<Rightarrow> participant_manager \<Rightarrow> bool \<times> participant_manager" where
  "PM_ReconnectParticipant p pm =
     (case id_to_participant pm (pid p) of
        None \<Rightarrow> (False, pm)
      | Some q \<Rightarrow>
          let q' = q\<lparr>connected := True\<rparr>
          in (True, pm\<lparr>id_to_participant := (id_to_participant pm)(pid p \<mapsto> q'),
                       connected_participants := set_insert q' (connected_participants pm)\<rparr>))"

definition PM_GetParticipant :: "u32 \<Rightarrow> participant_manager \<Rightarrow> Participant option" where
  "PM_GetParticipant i pm = id_to_participant pm i"

section \<open>Shared state of the coordinators\<close>

record Messenger =
  mid :: nat
  participant :: Participant

record coord =
  pm :: participant_manager
  log :: message_log
  messengers :: "Messenger list"
  next_mid :: nat
  msg_queue :: "Message bqueue"
  last_pid :: u32
  conns :: "int \<rightharpoonup> sock"
  attempts :: "(int \<times> sock) list"
  reads :: nat

text \<open>
  The code and the values from outside the repository: the clock, the encodings, and what an
  uninitialized descriptor happens to hold.
\<close>

record coord_env =
  clock :: "nat \<Rightarrow> int"
  uninitialized_fd :: int
  message_codec :: "CoordinatorMessage codec"
  registration_codec :: "u32 codec"
  forward_codec :: "ForwardMulticast codec"

definition now :: "coord_env \<Rightarrow> coord \<Rightarrow> int \<times> coord" where
  "now e w = (clock e (reads w), w\<lparr>reads := Suc (reads w)\<rparr>)"

text \<open>
  \<open>send()\<close> and \<open>close()\<close> on a descriptor. \<open>send()\<close> on one that is not open fails.
\<close>

definition fd_send :: "int \<Rightarrow> bytes \<Rightarrow> coord \<Rightarrow> bool \<times> coord" where
  "fd_send f bs w =
     (case conns w f of
        None \<Rightarrow> (False, w)
      | Some s \<Rightarrow>
          (case sys_send bs s of
             (Inl err, s') \<Rightarrow> (False, w\<lparr>conns := (conns w)(f \<mapsto> s')\<rparr>)
           | (Inr n, s') \<Rightarrow> (True, w\<lparr>conns := (conns w)(f \<mapsto> s')\<rparr>)))"

definition fd_close :: "int \<Rightarrow> coord \<Rightarrow> coord" where
  "fd_close f w = w\<lparr>conns := (conns w)(f := None)\<rparr>"

section \<open>Registrar\<close>

text \<open>
  One entry of \<open>attempts\<close> is the result of one \<open>SetUpSocket\<close>: a descriptor with its connection,
  or a negative number.
\<close>

fun SetUpSocketRetry :: "nat \<Rightarrow> coord \<Rightarrow> int \<times> coord" where
  "SetUpSocketRetry 0 w = (-1, w)"
| "SetUpSocketRetry (Suc n) w =
     (case attempts w of
        [] \<Rightarrow> (-1, w)
      | (f, s) # as \<Rightarrow>
          if f < 0
          then SetUpSocketRetry n (w\<lparr>attempts := as\<rparr>)
          else (f, w\<lparr>attempts := as, conns := (conns w)(f \<mapsto> s)\<rparr>))"

definition ConnectToParticipant :: "Participant \<Rightarrow> coord \<Rightarrow> bool \<times> Participant \<times> coord" where
  "ConnectToParticipant p w =
     (case SetUpSocketRetry 3 w of
        (sock, w') \<Rightarrow> if 0 < sock then (True, p\<lparr>sock_fd := sock\<rparr>, w') else (False, p, w'))"

definition Registrar_RegisterParticipant :: "Participant \<Rightarrow> coord \<Rightarrow> Participant \<times> coord" where
  "Registrar_RegisterParticipant p w =
     (case ConnectToParticipant p w of
        (ok, p', w') \<Rightarrow> (p', if ok then w'\<lparr>pm := PM_RegisterParticipant p' (pm w')\<rparr> else w'))"

definition Registrar_ReconnectParticipant :: "Participant \<Rightarrow> coord \<Rightarrow> Participant \<times> coord" where
  "Registrar_ReconnectParticipant p w =
     (case ConnectToParticipant p w of
        (ok, p', w') \<Rightarrow> (p', if ok then w'\<lparr>pm := snd (PM_ReconnectParticipant p' (pm w'))\<rparr> else w'))"

definition Registrar_DisconnectParticipant :: "coord_env \<Rightarrow> Participant \<Rightarrow> coord \<Rightarrow> coord" where
  "Registrar_DisconnectParticipant e p w =
     (case PM_DisconnectParticipant (clock e (reads w)) p (pm w) of
        (ok, pm') \<Rightarrow> if ok then (snd (now e w))\<lparr>pm := pm'\<rparr> else w)"

definition Registrar_DeregisterParticipant :: "Participant \<Rightarrow> coord \<Rightarrow> coord" where
  "Registrar_DeregisterParticipant p w =
     fd_close (sock_fd p) (w\<lparr>pm := PM_DeregisterParticipant p (pm w)\<rparr>)"

section \<open>Messengers\<close>

definition SerializeMessage :: "coord_env \<Rightarrow> Message \<Rightarrow> bytes" where
  "SerializeMessage e m =
     snd (Serialize (forward_codec e) \<lparr>fmessage = msg m, origin_id = participant_id m\<rparr> [])"

definition SendMessage :: "coord_env \<Rightarrow> Messenger \<Rightarrow> Message \<Rightarrow> coord \<Rightarrow> bool \<times> coord" where
  "SendMessage e ms m w = fd_send (sock_fd (participant ms)) (SerializeMessage e m) w"

definition LogMessage :: "coord_env \<Rightarrow> Message \<Rightarrow> coord \<Rightarrow> Message \<times> coord" where
  "LogMessage e m w =
     (case now e w of
        (t, w1) \<Rightarrow> (m\<lparr>timestamp := t\<rparr>, w1\<lparr>log := Log_Insert (m\<lparr>timestamp := t\<rparr>) (log w1)\<rparr>))"

text \<open>The loop over the missed messages, in the order \<open>ms\<close> of the iteration.\<close>

fun send_all :: "coord_env \<Rightarrow> Messenger \<Rightarrow> Message list \<Rightarrow> coord \<Rightarrow> bool \<times> coord" where
  "send_all e mr [] w = (True, w)"
| "send_all e mr (m # ms) w =
     (case SendMessage e mr m w of (ok, w') \<Rightarrow> if \<not> ok then (False, w') else send_all e mr ms w')"

definition SendMissedMessages ::
  "coord_env \<Rightarrow> (Message set \<Rightarrow> Message list) \<Rightarrow> Messenger \<Rightarrow> int \<Rightarrow> coord \<Rightarrow> bool \<times> coord" where
  "SendMissedMessages e order mr reconnection_time w =
     send_all e mr (order (GetMissedMessages (disconnect_time (participant mr)) reconnection_time (log w))) w"

definition AddMessenger :: "Participant \<Rightarrow> coord \<Rightarrow> Messenger \<times> coord" where
  "AddMessenger p w =
     (let mr = \<lparr>mid = next_mid w, participant = p\<rparr>
      in (mr, w\<lparr>messengers := messengers w @ [mr], next_mid := Suc (next_mid w)\<rparr>))"

definition DeleteMessenger :: "Messenger option \<Rightarrow> coord \<Rightarrow> coord" where
  "DeleteMessenger mr w =
     (case mr of
        None \<Rightarrow> w
      | Some m \<Rightarrow> w\<lparr>messengers := filter (\<lambda>x. mid x \<noteq> mid m) (messengers w)\<rparr>)"

text \<open>
  \<open>BroadcastMessage\<close>: every messenger of a connected participant sends the message; the first
  one that does also logs it, with the time of that moment, which the later sends carry.
\<close>

fun broadcast_loop :: "coord_env \<Rightarrow> Messenger list \<Rightarrow> bool \<Rightarrow> Message \<Rightarrow> coord \<Rightarrow> coord" where
  "broadcast_loop e [] is_logged m w = w"
| "broadcast_loop e (mr # mrs) is_logged m w =
     (if PM_IsConnected (participant mr) (pm w)
      then
        let w1 = snd (SendMessage e mr m w);
            (m', w2) = (if is_logged then (m, w1) else LogMessage e m w1)
        in broadcast_loop e mrs True m' w2
      else broadcast_loop e mrs is_logged m w)"

definition BroadcastMessage :: "coord_env \<Rightarrow> Message \<Rightarrow> coord \<Rightarrow> bool \<times> coord" where
  "BroadcastMessage e m w = (True, broadcast_loop e (messengers w) False m w)"

section \<open>Request handlers\<close>

datatype ClientState = ACTIVE | DISCONNECTED | ERROR

partial_function (option) Coordinator_GenerateID :: "coord \<Rightarrow> (u32 \<times> coord) option" where
  "Coordinator_GenerateID w =
     (let w' = w\<lparr>last_pid := last_pid w + 1\<rparr>
      in if connected_participants (pm w') (last_pid w') \<noteq> None then Coordinator_GenerateID w'
         else Some (last_pid w', w'))"

definition DetermineMessenger :: "u32 \<Rightarrow> coord \<Rightarrow> Messenger option" where
  "DetermineMessenger i w = find (\<lambda>mr. pid (participant mr) = i) (messengers w)"

definition DetermineParticipant :: "u32 \<Rightarrow> coord \<Rightarrow> Participant" where
  "DetermineParticipant i w =
     (case PM_GetParticipant i (pm w) of None \<Rightarrow> zero_participant | Some p \<Rightarrow> p)"

definition SendRegistrationResponse :: "coord_env \<Rightarrow> int \<Rightarrow> Participant \<Rightarrow> coord \<Rightarrow> bool \<times> coord" where
  "SendRegistrationResponse e client_fd p w =
     (case Serialize (registration_codec e) (pid p) [] of
        (ok, bs) \<Rightarrow> if \<not> ok then (False, w) else fd_send client_fd bs w)"

definition HandleRegister :: "coord_env \<Rightarrow> int \<Rightarrow> string \<Rightarrow> u32 \<Rightarrow> coord \<Rightarrow> (ClientState \<times> coord) option" where
  "HandleRegister e client_fd hostname port_number w =
     (case Coordinator_GenerateID w of
        None \<Rightarrow> None
      | Some (i, w1) \<Rightarrow>
          let (t, w2) = now e w1;
              p = \<lparr>pid = i, sock_fd = uninitialized_fd e, pport = ucast port_number, phostname = hostname,
                   connected = True, disconnect_time = t\<rparr>;
              w3 = fd_close client_fd (snd (SendRegistrationResponse e client_fd p w2));
              (p', w4) = Registrar_RegisterParticipant p w3
          in Some (ACTIVE, snd (AddMessenger p' w4)))"

definition HandleDeregister :: "int \<Rightarrow> u32 \<Rightarrow> coord \<Rightarrow> ClientState \<times> coord" where
  "HandleDeregister client_fd i w =
     (let p = DetermineParticipant i w; mr = DetermineMessenger i w
      in (ACTIVE, fd_close client_fd (DeleteMessenger mr (Registrar_DeregisterParticipant p w))))"

definition HandleDisconnect :: "coord_env \<Rightarrow> int \<Rightarrow> u32 \<Rightarrow> coord \<Rightarrow> ClientState \<times> coord" where
  "HandleDisconnect e client_fd i w =
     (let p = DetermineParticipant i w; mr = DetermineMessenger i w
      in (ACTIVE, fd_close client_fd (DeleteMessenger mr (Registrar_DisconnectParticipant e p w))))"

definition HandleReconnect ::
  "coord_env \<Rightarrow> (Message set \<Rightarrow> Message list) \<Rightarrow> int \<Rightarrow> u32 \<Rightarrow> u32 \<Rightarrow> coord \<Rightarrow> ClientState \<times> coord" where
  "HandleReconnect e order client_fd port_number i w =
     (let (p, w1) = Registrar_ReconnectParticipant (DetermineParticipant i w) w;
          (mr, w2) = AddMessenger p w1;
          (t, w3) = now e w2
      in (ACTIVE, fd_close client_fd (snd (SendMissedMessages e order mr t w3))))"

definition HandleSendMulticast :: "coord_env \<Rightarrow> int \<Rightarrow> string \<Rightarrow> u32 \<Rightarrow> coord \<Rightarrow> (ClientState \<times> coord) outcome" where
  "HandleSendMulticast e client_fd text i w =
     (let p = DetermineParticipant i w;
          m = \<lparr>msg = text, timestamp = 0, participant_id = pid p\<rparr>
      in obind (Push m (msg_queue w)) (\<lambda>q.
         obind (Pop q) (\<lambda>(m', q').
           Ret (ACTIVE, fd_close client_fd (snd (BroadcastMessage e m' (w\<lparr>msg_queue := q'\<rparr>)))))))"

definition Coordinator_DispatchMessage ::
  "coord_env \<Rightarrow> (Message set \<Rightarrow> Message list) \<Rightarrow> int \<Rightarrow> string \<Rightarrow> CoordinatorMessage \<Rightarrow> coord \<Rightarrow>
   (ClientState \<times> coord) outcome option" where
  "Coordinator_DispatchMessage e order client_fd hostname message w =
     (case message of
        Register port_number \<Rightarrow> map_option Ret (HandleRegister e client_fd hostname port_number w)
      | Deregister i \<Rightarrow> Some (Ret (HandleDeregister client_fd i w))
      | Disconnect i \<Rightarrow> Some (Ret (HandleDisconnect e client_fd i w))
      | Reconnect port_number i \<Rightarrow> Some (Ret (HandleReconnect e order client_fd port_number i w))
      | SendMulticast text i \<Rightarrow> Some (HandleSendMulticast e client_fd text i w)
      | NoMessage \<Rightarrow> Some (Ret (ERROR, w)))"

definition Coordinator_ReadNextMessage ::
  "coord_env \<Rightarrow> sock \<Rightarrow> (ClientState \<times> CoordinatorMessage option \<times> sock) outcome" where
  "Coordinator_ReadNextMessage e s =
     obind (fill_parser 1000 new_parser s) (\<lambda>(st, p, s').
       case st of
         FillError \<Rightarrow> Ret (ERROR, None, s')
       | FillClosed \<Rightarrow> Ret (DISCONNECTED, None, s')
       | FillDone \<Rightarrow>
           obind (GetMessage (message_codec e) p) (\<lambda>(m, p').
             Ret (case m of None \<Rightarrow> (ERROR, None, s') | Some x \<Rightarrow> (ACTIVE, Some x, s'))))"

text \<open>One client, from its first bytes to the end of its request; true unless it failed.\<close>

definition Coordinate ::
  "coord_env \<Rightarrow> (Message set \<Rightarrow> Message list) \<Rightarrow> int \<Rightarrow> string \<Rightarrow> coord \<Rightarrow> (bool \<times> coord) outcome option" where
  "Coordinate e order client_fd hostname w =
     (case conns w client_fd of
        None \<Rightarrow> Some (Ret (False, w))
      | Some s \<Rightarrow>
          (case Coordinator_ReadNextMessage e s of
             Block \<Rightarrow> Some Block
           | Crash \<Rightarrow> Some Crash
           | Ret (st, m, s') \<Rightarrow>
               let w' = w\<lparr>conns := (conns w)(client_fd \<mapsto> s')\<rparr>
               in case m of
                    None \<Rightarrow> Some (Ret (st \<noteq> ERROR, w'))
                  | Some message \<Rightarrow>
                      (case Coordinator_DispatchMessage e order client_fd hostname message w' of
                         None \<Rightarrow> None
                       | Some r \<Rightarrow> Some (obind r (\<lambda>(st', w''). Ret (st' \<noteq> ERROR, w''))))))"

text \<open>\<open>coordinator_task.cpp\<close>: the task of a client is over after one request.\<close>

definition CoordinatorTask_SetUp :: status where
  "CoordinatorTask_SetUp = RUNNING"

definition CoordinatorTask_RunAtomic ::
  "coord_env \<Rightarrow> (Message set \<Rightarrow> Message list) \<Rightarrow> int \<Rightarrow> string \<Rightarrow> coord \<Rightarrow> (status \<times> coord) outcome option" where
  "CoordinatorTask_RunAtomic e order participant_fd hostname w =
     map_option (\<lambda>r. obind r (\<lambda>(ok, w'). Ret (if ok then DONE else FAILED, w')))
       (Coordinate e order participant_fd hostname w)"

text \<open>The shared structures that \<open>CoordinatorDriver::Start\<close> creates.\<close>

definition new_coord :: "int \<Rightarrow> (int \<rightharpoonup> sock) \<Rightarrow> (int \<times> sock) list \<Rightarrow> coord" where
  "new_coord threshold cs as =
     \<lparr>pm = \<lparr>connected_participants = Map.empty, id_to_participant = Map.empty\<rparr>,
      log = \<lparr>coordinator_messages = {}, td = threshold\<rparr>, messengers = [], next_mid = 0,
      msg_queue = new_queue 0, last_pid = 0, conns = cs, attempts = as, reads = 0\<rparr>"

section \<open>Identifiers\<close>

lemma Coordinator_GenerateID_finds:
  "0 < k \<Longrightarrow> connected_participants (pm w) (last_pid w + of_nat k) = None \<Longrightarrow>
   \<exists>i. Coordinator_GenerateID w = Some (i, w\<lparr>last_pid := i\<rparr>) \<and> connected_participants (pm w) i = None"
proof (induction k arbitrary: w)
  case 0
  then show ?case by simp
next
  case (Suc k)
  show ?case
  proof (cases "connected_participants (pm w) (last_pid w + 1) = None")
    case True
    then show ?thesis by (subst Coordinator_GenerateID.simps) (simp add: Let_def)
  next
    case False
    then have "0 < k" using Suc.prems by (cases k) auto
    then show ?thesis
      using Suc.IH [of "w\<lparr>last_pid := last_pid w + 1\<rparr>"] Suc.prems(2) False
      by (subst Coordinator_GenerateID.simps) (simp add: Let_def add.assoc)
  qed
qed

lemma Coordinator_GenerateID_some:
  assumes "connected_participants (pm w) x = None"
  shows "\<exists>i. Coordinator_GenerateID w = Some (i, w\<lparr>last_pid := i\<rparr>) \<and>
    connected_participants (pm w) i = None"
proof -
  let ?d = "unat (x - last_pid w) + 2 ^ 32"
  have "(2 ^ LENGTH(32) :: u32) = 0" by (rule word_exp_length_eq_0)
  then have "last_pid w + of_nat ?d = x" by simp
  then have "connected_participants (pm w) (last_pid w + of_nat ?d) = None" using assms by metis
  then show ?thesis by (rule Coordinator_GenerateID_finds [rotated]) simp
qed

text \<open>The coordinator allocates ids under the same contract as the FTP server.\<close>

interpretation pids: id_source "\<lambda>w. dom (connected_participants (pm w))" Coordinator_GenerateID
  "\<lambda>i w. w\<lparr>pm := PM_RegisterParticipant (zero_participant\<lparr>pid := i\<rparr>) (pm w)\<rparr>" UNIV
proof
  fix w :: coord
  assume "\<not> UNIV \<subseteq> dom (connected_participants (pm w))"
  then obtain x where "connected_participants (pm w) x = None" by auto
  from Coordinator_GenerateID_some [OF this]
  show "\<exists>i w'. Coordinator_GenerateID w = Some (i, w') \<and> i \<in> UNIV \<and>
      i \<notin> dom (connected_participants (pm w)) \<and>
      dom (connected_participants (pm w')) = dom (connected_participants (pm w))"
    by auto
qed (auto simp: PM_RegisterParticipant_def set_insert_def)

section \<open>The invariant of the shared structures\<close>

definition pm_inv :: "participant_manager \<Rightarrow> bool" where
  "pm_inv m \<longleftrightarrow>
     (\<forall>i p. id_to_participant m i = Some p \<longrightarrow>
        pid p = i \<and> (connected p \<longleftrightarrow> connected_participants m i \<noteq> None)) \<and>
     dom (connected_participants m) \<subseteq> dom (id_to_participant m)"

definition messengers_inv :: "coord \<Rightarrow> bool" where
  "messengers_inv w \<longleftrightarrow>
     distinct (map mid (messengers w)) \<and> (\<forall>mr \<in> set (messengers w). mid mr < next_mid w) \<and>
     dom (connected_participants (pm w)) \<subseteq> (pid \<circ> participant) ` set (messengers w)"

definition coord_inv :: "coord \<Rightarrow> bool" where
  "coord_inv w \<longleftrightarrow> pm_inv (pm w) \<and> messengers_inv w \<and> msg_queue w = new_queue 0"

text \<open>What the operations on descriptors and on the clock leave alone.\<close>

definition same_shared :: "coord \<Rightarrow> coord \<Rightarrow> bool" where
  "same_shared w w' \<longleftrightarrow>
     pm w' = pm w \<and> messengers w' = messengers w \<and> next_mid w' = next_mid w \<and> msg_queue w' = msg_queue w"

lemma same_shared_refl [simp]: "same_shared w w"
  by (simp add: same_shared_def)

lemma same_shared_trans: "same_shared w w' \<Longrightarrow> same_shared w' w'' \<Longrightarrow> same_shared w w''"
  by (simp add: same_shared_def)

lemma coord_inv_same_shared: "same_shared w w' \<Longrightarrow> coord_inv w' = coord_inv w"
  by (simp add: same_shared_def coord_inv_def messengers_inv_def)

lemma same_shared_fd_close [simp]: "same_shared w (fd_close f w)"
  by (simp add: same_shared_def fd_close_def)

lemma same_shared_fd_send [simp]: "same_shared w (snd (fd_send f bs w))"
  by (auto simp: same_shared_def fd_send_def split: option.splits prod.splits sum.splits)

lemma same_shared_now [simp]: "same_shared w (snd (now e w))"
  by (simp add: same_shared_def now_def)

lemma same_shared_LogMessage [simp]: "same_shared w (snd (LogMessage e m w))"
  by (simp add: same_shared_def LogMessage_def now_def)

lemma same_shared_broadcast: "same_shared w (broadcast_loop e mrs is_logged m w)"
proof (induction mrs arbitrary: is_logged m w)
  case (Cons mr mrs)
  let ?w1 = "snd (SendMessage e mr m w)"
  have sent: "same_shared w ?w1" by (simp add: SendMessage_def)
  show ?case
    using Cons.IH [of w] same_shared_trans [OF sent Cons.IH [of ?w1]]
      same_shared_trans [OF sent same_shared_trans [OF same_shared_LogMessage Cons.IH]]
    by (auto simp: Let_def split: prod.splits) (metis snd_conv)
qed simp

lemma same_shared_send_all: "same_shared w (snd (send_all e mr ms w))"
proof (induction ms arbitrary: w)
  case (Cons m ms)
  have "same_shared w (snd (SendMessage e mr m w))" by (simp add: SendMessage_def)
  then show ?case using same_shared_trans [OF _ Cons.IH]
    by (auto split: prod.splits)
qed simp

lemma same_shared_SetUpSocketRetry: "same_shared w (snd (SetUpSocketRetry n w))"
proof (induction n arbitrary: w)
  case (Suc n)
  show ?case
  proof (cases "attempts w")
    case (Cons a as)
    then show ?thesis using Suc [of "w\<lparr>attempts := as\<rparr>"] by (cases a) (simp add: same_shared_def)
  qed simp
qed simp

lemma ConnectToParticipant_shared:
  "ConnectToParticipant p w = (ok, p', w') \<Longrightarrow>
   same_shared w w' \<and> pid p' = pid p \<and> connected p' = connected p"
  using same_shared_SetUpSocketRetry [of w 3]
  by (auto simp: ConnectToParticipant_def split: prod.splits if_splits)

lemma pm_inv_Register:
  "pm_inv m \<Longrightarrow> connected p \<Longrightarrow> pm_inv (PM_RegisterParticipant p m)"
  by (auto simp: pm_inv_def PM_RegisterParticipant_def set_insert_def)

lemma pm_inv_Deregister: "pm_inv m \<Longrightarrow> pm_inv (PM_DeregisterParticipant p m)"
  by (auto simp: pm_inv_def PM_DeregisterParticipant_def)

lemma pm_inv_Disconnect: "pm_inv m \<Longrightarrow> pm_inv (snd (PM_DisconnectParticipant t p m))"
  by (auto simp: pm_inv_def PM_DisconnectParticipant_def Let_def split: option.splits)

lemma pm_inv_Reconnect: "pm_inv m \<Longrightarrow> pm_inv (snd (PM_ReconnectParticipant p m))"
  by (auto simp: pm_inv_def PM_ReconnectParticipant_def set_insert_def Let_def split: option.splits)

lemma coord_inv_add:
  assumes "coord_inv w" and "same_shared w w1" and "pm_inv m"
    and "dom (connected_participants m) \<subseteq> insert (pid p) (dom (connected_participants (pm w)))"
  shows "coord_inv (snd (AddMessenger p (w1\<lparr>pm := m\<rparr>)))"
proof -
  have "mid mr \<noteq> next_mid w" if "mr \<in> set (messengers w)" for mr
    using assms(1) that by (auto simp: coord_inv_def messengers_inv_def)
  moreover have "dom (connected_participants m) \<subseteq> insert (pid p) ((pid \<circ> participant) ` set (messengers w))"
    using assms(1,4) unfolding coord_inv_def messengers_inv_def by blast
  ultimately show ?thesis
    using assms(1-3)
    by (auto simp: coord_inv_def messengers_inv_def same_shared_def AddMessenger_def Let_def less_Suc_eq)
qed

text \<open>
  Removing the messenger of \<open>i\<close> keeps the invariant when \<open>i\<close> is no longer connected: the ids of
  the messengers are distinct, so no other messenger goes with it.
\<close>

lemma coord_inv_remove:
  assumes "coord_inv w" and "pm_inv m"
    and "dom (connected_participants m) \<subseteq> dom (connected_participants (pm w)) - {i}"
  shows "coord_inv (DeleteMessenger (DetermineMessenger i w) (w\<lparr>pm := m\<rparr>))"
proof (cases "DetermineMessenger i w")
  case None
  then show ?thesis using assms
    by (simp add: DeleteMessenger_def coord_inv_def messengers_inv_def) blast
next
  case (Some d)
  then have d: "d \<in> set (messengers w)" "pid (participant d) = i"
    by (auto simp: DetermineMessenger_def find_Some_iff)
  have ids: "distinct (map mid (messengers w))" using assms(1) by (simp add: coord_inv_def messengers_inv_def)
  have "j \<in> (pid \<circ> participant) ` set (filter (\<lambda>x. mid x \<noteq> mid d) (messengers w))"
    if "j \<in> dom (connected_participants m)" for j
  proof -
    have "j \<noteq> i" and "j \<in> (pid \<circ> participant) ` set (messengers w)"
      using that assms(1,3) unfolding coord_inv_def messengers_inv_def by blast+
    then obtain mr where "mr \<in> set (messengers w)" "pid (participant mr) = j" by auto
    moreover from this have "mid mr \<noteq> mid d"
      using d \<open>j \<noteq> i\<close> ids by (metis distinct_map inj_onD)
    ultimately show ?thesis by force
  qed
  then show ?thesis using assms(1,2) Some ids
    by (auto simp: DeleteMessenger_def coord_inv_def messengers_inv_def distinct_map inj_on_def)
qed

lemma unregistered_not_connected:
  "pm_inv m \<Longrightarrow> id_to_participant m i = None \<Longrightarrow> connected_participants m i = None"
  by (auto simp: pm_inv_def)

lemma DetermineParticipant_pid:
  "pm_inv (pm w) \<Longrightarrow> pid (DetermineParticipant i w) = i \<or>
     (id_to_participant (pm w) i = None \<and> DetermineParticipant i w = zero_participant)"
  by (auto simp: DetermineParticipant_def PM_GetParticipant_def pm_inv_def split: option.splits)

lemma HandleDeregister_inv:
  assumes "coord_inv w"
  shows "coord_inv (snd (HandleDeregister fd i w))"
proof -
  let ?m = "PM_DeregisterParticipant (DetermineParticipant i w) (pm w)"
  have "pm_inv (pm w)" using assms by (simp add: coord_inv_def)
  then have "coord_inv (DeleteMessenger (DetermineMessenger i w) (w\<lparr>pm := ?m\<rparr>))"
    using assms DetermineParticipant_pid [of w i] unregistered_not_connected [of "pm w" i]
    by (intro coord_inv_remove pm_inv_Deregister) (auto simp: PM_DeregisterParticipant_def)
  moreover have "same_shared (DeleteMessenger (DetermineMessenger i w) (w\<lparr>pm := ?m\<rparr>))
      (snd (HandleDeregister fd i w))"
    by (simp add: HandleDeregister_def Let_def Registrar_DeregisterParticipant_def DeleteMessenger_def
        fd_close_def same_shared_def split: option.splits)
  ultimately show ?thesis by (simp add: coord_inv_same_shared)
qed

lemma HandleDisconnect_inv:
  assumes "coord_inv w"
  shows "coord_inv (snd (HandleDisconnect e fd i w))"
proof -
  let ?m = "snd (PM_DisconnectParticipant (clock e (reads w)) (DetermineParticipant i w) (pm w))"
  have inv: "pm_inv (pm w)" using assms by (simp add: coord_inv_def)
  have "dom (connected_participants ?m) \<subseteq> dom (connected_participants (pm w)) - {i}"
    using DetermineParticipant_pid [OF inv, of i] unregistered_not_connected [OF inv, of i]
    by (auto simp: PM_DisconnectParticipant_def Let_def split: if_splits)
  then have "coord_inv (DeleteMessenger (DetermineMessenger i w) (w\<lparr>pm := ?m\<rparr>))"
    by (intro coord_inv_remove assms pm_inv_Disconnect inv)
  moreover have "same_shared (DeleteMessenger (DetermineMessenger i w) (w\<lparr>pm := ?m\<rparr>))
      (snd (HandleDisconnect e fd i w))"
    by (auto simp: HandleDisconnect_def Let_def Registrar_DisconnectParticipant_def DeleteMessenger_def
        fd_close_def same_shared_def now_def PM_DisconnectParticipant_def split: option.splits prod.splits)
  ultimately show ?thesis by (simp add: coord_inv_same_shared)
qed

lemma Registrar_Register_shape:
  assumes "Registrar_RegisterParticipant p w = (p', w')" and "pm_inv (pm w)" and "connected p"
  shows "\<exists>w1 m. same_shared w w1 \<and> w' = w1\<lparr>pm := m\<rparr> \<and> pm_inv m \<and> pid p' = pid p \<and>
    dom (connected_participants m) \<subseteq> insert (pid p') (dom (connected_participants (pm w)))"
proof -
  obtain ok q w1 where c: "ConnectToParticipant p w = (ok, q, w1)" by (metis prod_cases3)
  have w1: "same_shared w w1" "pid q = pid p" "connected q = connected p"
    using ConnectToParticipant_shared [OF c] by auto
  let ?m = "if ok then PM_RegisterParticipant q (pm w1) else pm w1"
  have eq: "pm w1 = pm w" using w1(1) by (simp add: same_shared_def)
  have "pm_inv (PM_RegisterParticipant q (pm w))" using pm_inv_Register assms(2,3) w1(3) by blast
  moreover have "dom (connected_participants (PM_RegisterParticipant q (pm w))) \<subseteq>
      insert (pid q) (dom (connected_participants (pm w)))"
    by (auto simp: PM_RegisterParticipant_def set_insert_def)
  moreover have "p' = q" "w' = w1\<lparr>pm := ?m\<rparr>"
    using assms(1) by (auto simp: Registrar_RegisterParticipant_def c)
  ultimately show ?thesis using w1 assms(2) eq
    by (intro exI [of _ w1] exI [of _ ?m]) auto
qed

lemma Registrar_Reconnect_shape:
  assumes "Registrar_ReconnectParticipant p w = (p', w')" and "pm_inv (pm w)"
  shows "\<exists>w1 m. same_shared w w1 \<and> w' = w1\<lparr>pm := m\<rparr> \<and> pm_inv m \<and> pid p' = pid p \<and>
    dom (connected_participants m) \<subseteq> insert (pid p') (dom (connected_participants (pm w)))"
proof -
  obtain ok q w1 where c: "ConnectToParticipant p w = (ok, q, w1)" by (metis prod_cases3)
  have w1: "same_shared w w1" "pid q = pid p" using ConnectToParticipant_shared [OF c] by auto
  let ?m = "if ok then snd (PM_ReconnectParticipant q (pm w1)) else pm w1"
  have eq: "pm w1 = pm w" using w1(1) by (simp add: same_shared_def)
  have "dom (connected_participants (snd (PM_ReconnectParticipant q (pm w)))) \<subseteq>
      insert (pid q) (dom (connected_participants (pm w)))"
    using assms(2)
    by (auto simp: PM_ReconnectParticipant_def set_insert_def Let_def pm_inv_def split: option.splits if_splits)
  moreover have "p' = q" "w' = w1\<lparr>pm := ?m\<rparr>"
    using assms(1) by (auto simp: Registrar_ReconnectParticipant_def c)
  ultimately show ?thesis using w1 assms(2) eq
    by (intro exI [of _ w1] exI [of _ ?m]) (auto simp: pm_inv_Reconnect)
qed

lemma HandleRegister_inv:
  assumes "coord_inv w" and "connected_participants (pm w) x = None"
  shows "\<exists>w'. HandleRegister e fd h port w = Some (ACTIVE, w') \<and> coord_inv w'"
proof -
  obtain i where g: "Coordinator_GenerateID w = Some (i, w\<lparr>last_pid := i\<rparr>)"
    using Coordinator_GenerateID_some [OF assms(2)] by blast
  obtain t w2 where tw: "now e (w\<lparr>last_pid := i\<rparr>) = (t, w2)" by fastforce
  let ?p = "\<lparr>pid = i, sock_fd = uninitialized_fd e, pport = ucast port, phostname = h,
    connected = True, disconnect_time = t\<rparr>"
  let ?w3 = "fd_close fd (snd (SendRegistrationResponse e fd ?p w2))"
  obtain p' w4 where r: "Registrar_RegisterParticipant ?p ?w3 = (p', w4)" by fastforce
  have "same_shared w w2" using tw by (auto simp: same_shared_def now_def)
  moreover have "same_shared w2 (snd (SendRegistrationResponse e fd ?p w2))"
    by (simp add: SendRegistrationResponse_def split: prod.splits)
  ultimately have w3: "same_shared w ?w3" using same_shared_trans same_shared_fd_close by blast
  then have i3: "coord_inv ?w3" using assms(1) by (simp add: coord_inv_same_shared)
  obtain w1 m where "same_shared ?w3 w1" "w4 = w1\<lparr>pm := m\<rparr>" "pm_inv m"
    "dom (connected_participants m) \<subseteq> insert (pid p') (dom (connected_participants (pm ?w3)))"
    using Registrar_Register_shape [OF r] i3 by (auto simp: coord_inv_def)
  then have "coord_inv (snd (AddMessenger p' w4))" using coord_inv_add [OF i3] by blast
  then show ?thesis by (simp add: HandleRegister_def g tw r Let_def)
qed

lemma HandleReconnect_inv:
  assumes "coord_inv w"
  shows "coord_inv (snd (HandleReconnect e order fd port i w))"
proof -
  obtain p' w' where r: "Registrar_ReconnectParticipant (DetermineParticipant i w) w = (p', w')" by fastforce
  obtain w1 m where "same_shared w w1" "w' = w1\<lparr>pm := m\<rparr>" "pm_inv m"
    "dom (connected_participants m) \<subseteq> insert (pid p') (dom (connected_participants (pm w)))"
    using Registrar_Reconnect_shape [OF r] assms by (auto simp: coord_inv_def)
  then have inv: "coord_inv (snd (AddMessenger p' w'))" using coord_inv_add [OF assms] by blast
  obtain mr w2 where a: "AddMessenger p' w' = (mr, w2)" by fastforce
  obtain t w3 where n: "now e w2 = (t, w3)" by fastforce
  have "same_shared w2 w3" using n by (auto simp: same_shared_def now_def)
  moreover have "same_shared w3 (snd (SendMissedMessages e order mr t w3))"
    by (simp add: SendMissedMessages_def same_shared_send_all)
  ultimately have "same_shared w2 (snd (HandleReconnect e order fd port i w))"
    using same_shared_trans [OF same_shared_trans same_shared_fd_close]
    by (simp add: HandleReconnect_def r a n Let_def)
  then show ?thesis using inv a by (simp add: coord_inv_same_shared)
qed

lemma HandleSendMulticast_eq:
  assumes "msg_queue w = new_queue 0"
  shows "HandleSendMulticast e fd text i w =
    Ret (ACTIVE, fd_close fd (broadcast_loop e (messengers w) False
      \<lparr>msg = text, timestamp = 0, participant_id = pid (DetermineParticipant i w)\<rparr> w))"
  using assms
  by (cases w) (simp add: HandleSendMulticast_def Push_def Pop_def PopTimed_def is_full_def
      new_queue_def BroadcastMessage_def Let_def)

lemma new_coord_inv: "coord_inv (new_coord threshold cs as)"
  by (simp add: new_coord_def coord_inv_def pm_inv_def messengers_inv_def)

text \<open>A concrete coordinator with two participants, for the witnesses.\<close>

definition demo_sock :: sock where
  "demo_sock = \<lparr>rx = [], tx = [], wire = [], errno = NoErr\<rparr>"

definition demo_participant :: "u32 \<Rightarrow> int \<Rightarrow> Participant" where
  "demo_participant i f =
     \<lparr>pid = i, sock_fd = f, pport = 9000, phostname = ''h'', connected = True, disconnect_time = 0\<rparr>"

definition demo_coord :: "u32 list \<Rightarrow> coord" where
  "demo_coord is =
     (let ps = map (\<lambda>i. demo_participant i (10 + uint i)) is
      in (new_coord 10 [11 \<mapsto> demo_sock, 12 \<mapsto> demo_sock] [(20, demo_sock)])
           \<lparr>pm := \<lparr>connected_participants = map_of (zip is ps), id_to_participant = map_of (zip is ps)\<rparr>,
            messengers := map (\<lambda>(n, p). \<lparr>mid = n, participant = p\<rparr>) (enumerate 0 ps),
            next_mid := length is, last_pid := 2\<rparr>)"

definition demo_coord_env :: coord_env where
  "demo_coord_env =
     \<lparr>clock = int, uninitialized_fd = 0, message_codec = table_codec [NoMessage],
      registration_codec = table_codec [3], forward_codec = table_codec [\<lparr>fmessage = ''hi'', origin_id = 2\<rparr>]\<rparr>"

lemma demo_coord_inv: "coord_inv (demo_coord [1, 2])" "coord_inv (demo_coord [1])"
  by (auto simp: demo_coord_def new_coord_def coord_inv_def pm_inv_def messengers_inv_def demo_participant_def
      Let_def split: if_splits)

lemma demo_forward:
  "codec_ok (forward_codec demo_coord_env)"
  "ByteSizeLong (forward_codec demo_coord_env) \<lparr>fmessage = ''hi'', origin_id = 2\<rparr> < 2 ^ 31"
  "frame (encode (forward_codec demo_coord_env) \<lparr>fmessage = ''hi'', origin_id = 2\<rparr>) = [0, 0, 0, 1, 0]"
  using table_codec_ok [of "[\<lparr>fmessage = ''hi'', origin_id = 2\<rparr>]"]
  by (simp_all add: demo_coord_env_def table_codec_def frame_def encode_def htonl_bytes_def)

lemmas demo_coord_defs = demo_coord_def new_coord_def demo_participant_def demo_sock_def Let_def

text \<open>
  C11. The coordinator serves every request. In a state where the participant manager is
  consistent (a participant is marked connected exactly when it is in the connected set, and
  every connected one is registered), every connected participant has a messenger, and some id
  is free, \<open>DispatchMessage\<close> returns, fails only on a message with no request in it, and leaves
  such a state.
\<close>

theorem coordinator_serves_request:
  assumes "coord_inv w" and "connected_participants (pm w) x = None"
  shows "\<exists>st w'. Coordinator_DispatchMessage e order fd h m w = Some (Ret (st, w')) \<and>
    (st = ERROR \<longleftrightarrow> m = NoMessage) \<and> coord_inv w'"
proof (cases m)
  case (SendMulticast body i)
  have "msg_queue w = new_queue 0" using assms(1) by (simp add: coord_inv_def)
  from HandleSendMulticast_eq [OF this] show ?thesis
    using assms(1) SendMulticast
      coord_inv_same_shared [OF same_shared_trans [OF same_shared_broadcast same_shared_fd_close]]
    by (simp add: Coordinator_DispatchMessage_def)
next
  case (Register port)
  then show ?thesis using HandleRegister_inv [OF assms, of e fd h port]
    by (auto simp: Coordinator_DispatchMessage_def)
next
  case (Deregister i)
  then show ?thesis using HandleDeregister_inv [OF assms(1), of fd i]
    by (auto simp: Coordinator_DispatchMessage_def HandleDeregister_def Let_def)
next
  case (Disconnect i)
  then show ?thesis using HandleDisconnect_inv [OF assms(1), of e fd i]
    by (auto simp: Coordinator_DispatchMessage_def HandleDisconnect_def Let_def)
next
  case (Reconnect port i)
  then show ?thesis using HandleReconnect_inv [OF assms(1), of e order fd port i]
    by (auto simp: Coordinator_DispatchMessage_def HandleReconnect_def Let_def split: prod.splits)
qed (use assms in \<open>simp_all add: Coordinator_DispatchMessage_def\<close>)

theorem coordinator_serves_request_witness:
  "\<exists>st w'. Coordinator_DispatchMessage demo_coord_env (\<lambda>S. []) 7 ''h'' (Register 9000) (demo_coord [1, 2]) =
      Some (Ret (st, w')) \<and> (st = ERROR \<longleftrightarrow> Register 9000 = NoMessage) \<and> coord_inv w'"
  by (rule coordinator_serves_request [OF demo_coord_inv(1), of 5]) (simp add: demo_coord_defs)

section \<open>Delivery\<close>

lemma fd_send_ok:
  "conns w f = Some s \<Longrightarrow> tx s = [] \<Longrightarrow>
   fd_send f bs w = (True, w\<lparr>conns := (conns w)(f \<mapsto> s\<lparr>wire := wire s @ bs\<rparr>)\<rparr>)"
  by (simp add: fd_send_def sys_send_def)

lemma fd_send_keeps:
  "log (snd (fd_send f bs w)) = log w" "reads (snd (fd_send f bs w)) = reads w"
  "attempts (snd (fd_send f bs w)) = attempts w"
  by (simp_all add: fd_send_def split: option.splits prod.splits sum.splits)

lemma SerializeMessage_timestamp [simp]: "SerializeMessage e (m\<lparr>timestamp := t\<rparr>) = SerializeMessage e m"
  by (simp add: SerializeMessage_def)

lemma SerializeMessage_frame:
  assumes "codec_ok (forward_codec e)"
    and "ByteSizeLong (forward_codec e) \<lparr>fmessage = msg m, origin_id = participant_id m\<rparr> < 2 ^ 31"
  shows "SerializeMessage e m = frame (encode (forward_codec e) \<lparr>fmessage = msg m, origin_id = participant_id m\<rparr>)"
  by (simp add: SerializeMessage_def Serialize_frame [OF assms])

definition messenger_fd :: "Messenger \<Rightarrow> int" where
  "messenger_fd mr = sock_fd (participant mr)"

definition receivers :: "Messenger list \<Rightarrow> participant_manager \<Rightarrow> Messenger list" where
  "receivers mrs m = filter (\<lambda>mr. PM_IsConnected (participant mr) m) mrs"

lemma SendMessage_pm [simp]: "pm (snd (SendMessage e mr m w)) = pm w"
  using same_shared_fd_send by (simp add: SendMessage_def same_shared_def)

lemma LogMessage_simps [simp]:
  "fst (LogMessage e m w) = m\<lparr>timestamp := clock e (reads w)\<rparr>"
  "pm (snd (LogMessage e m w)) = pm w" "conns (snd (LogMessage e m w)) = conns w"
  "attempts (snd (LogMessage e m w)) = attempts w" "reads (snd (LogMessage e m w)) = Suc (reads w)"
  "log (snd (LogMessage e m w)) = Log_Insert (m\<lparr>timestamp := clock e (reads w)\<rparr>) (log w)"
  by (simp_all add: LogMessage_def now_def)

lemma broadcast_loop_log:
  defines "logs mrs is_logged w \<equiv> \<not> is_logged \<and> receivers mrs (pm w) \<noteq> []"
  shows "log (broadcast_loop e mrs is_logged m w) =
      (if logs mrs is_logged w then Log_Insert (m\<lparr>timestamp := clock e (reads w)\<rparr>) (log w) else log w) \<and>
    reads (broadcast_loop e mrs is_logged m w) = (if logs mrs is_logged w then Suc (reads w) else reads w) \<and>
    attempts (broadcast_loop e mrs is_logged m w) = attempts w"
proof (induction mrs arbitrary: is_logged m w)
  case (Cons mr mrs)
  have "log (snd (SendMessage e mr m w)) = log w" "reads (snd (SendMessage e mr m w)) = reads w"
    "attempts (snd (SendMessage e mr m w)) = attempts w"
    by (simp_all add: SendMessage_def fd_send_keeps)
  then show ?case using Cons.IH by (simp add: Let_def logs_def receivers_def case_prod_unfold)
qed (simp add: logs_def receivers_def)

lemma broadcast_loop_conns:
  assumes "\<And>mr. mr \<in> set (receivers mrs (pm w)) \<Longrightarrow>
      \<exists>s. conns w (messenger_fd mr) = Some s \<and> tx s = []"
    and "distinct (map messenger_fd (receivers mrs (pm w)))"
  shows "conns (broadcast_loop e mrs is_logged m w) f =
    (if f \<in> messenger_fd ` set (receivers mrs (pm w))
     then map_option (\<lambda>s. s\<lparr>wire := wire s @ SerializeMessage e m\<rparr>) (conns w f) else conns w f)"
  using assms
proof (induction mrs arbitrary: is_logged m w)
  case (Cons mr mrs)
  show ?case
  proof (cases "PM_IsConnected (participant mr) (pm w)")
    case False
    then show ?thesis using Cons by (simp add: receivers_def)
  next
    case True
    let ?g = "messenger_fd mr"
    obtain s where s: "conns w ?g = Some s" "tx s = []"
      using Cons.prems(1) [of mr] True by (auto simp: receivers_def)
    let ?w1 = "w\<lparr>conns := (conns w)(?g \<mapsto> s\<lparr>wire := wire s @ SerializeMessage e m\<rparr>)\<rparr>"
    have send: "SendMessage e mr m w = (True, ?w1)" by (simp add: SendMessage_def fd_send_ok [OF s] flip: messenger_fd_def)
    have fresh: "?g \<notin> messenger_fd ` set (receivers mrs (pm w))"
      using Cons.prems(2) True by (auto simp: receivers_def)
    have rest: "\<exists>s. conns ?w1 (messenger_fd mr') = Some s \<and> tx s = []"
      if "mr' \<in> set (receivers mrs (pm w))" for mr'
    proof -
      have "messenger_fd mr' \<noteq> ?g" using fresh that by (metis image_eqI)
      then show ?thesis using Cons.prems(1) [of mr'] that by (simp add: receivers_def split: if_splits)
    qed
    have dist: "distinct (map messenger_fd (receivers mrs (pm w)))"
      using Cons.prems(2) True by (simp add: receivers_def)
    have "conns (broadcast_loop e (mr # mrs) is_logged m w) f =
       (if f \<in> messenger_fd ` set (receivers mrs (pm w))
        then map_option (\<lambda>s. s\<lparr>wire := wire s @ SerializeMessage e m\<rparr>) (conns ?w1 f) else conns ?w1 f)"
    proof (cases is_logged)
      case True
      then show ?thesis using Cons.IH [of ?w1 True m] rest dist send \<open>PM_IsConnected _ _\<close> by simp
    next
      case False
      let ?w2 = "snd (LogMessage e m ?w1)"
      have "conns ?w2 = conns ?w1" "pm ?w2 = pm w" by simp_all
      then show ?thesis
        using False Cons.IH [of ?w2 True "fst (LogMessage e m ?w1)"] rest dist send \<open>PM_IsConnected _ _\<close>
        by (simp add: Let_def case_prod_unfold del: fun_upd_apply)
    qed
    then show ?thesis using fresh s True by (auto simp: receivers_def)
  qed
qed (simp add: receivers_def)

lemma send_all_ok:
  assumes "conns w (messenger_fd mr) = Some s" and "tx s = []"
  shows "\<exists>w'. send_all e mr ms w = (True, w') \<and>
    conns w' (messenger_fd mr) = Some (s\<lparr>wire := wire s @ concat (map (SerializeMessage e) ms)\<rparr>) \<and>
    log w' = log w"
  using assms
proof (induction ms arbitrary: w s)
  case (Cons m ms)
  let ?g = "messenger_fd mr"
  let ?s = "s\<lparr>wire := wire s @ SerializeMessage e m\<rparr>"
  let ?w1 = "w\<lparr>conns := (conns w)(?g \<mapsto> ?s)\<rparr>"
  show ?case using Cons.IH [of ?w1 ?s] Cons.prems
    by (simp add: SendMessage_def fd_send_ok flip: messenger_fd_def)
qed simp

lemma connected_has_receiver:
  assumes "coord_inv w" and "connected_participants (pm w) j \<noteq> None"
  shows "\<exists>mr \<in> set (receivers (messengers w) (pm w)). pid (participant mr) = j"
proof -
  have "j \<in> (pid \<circ> participant) ` set (messengers w)"
    using assms unfolding coord_inv_def messengers_inv_def by blast
  then show ?thesis using assms(2) by (auto simp: receivers_def PM_IsConnected_def)
qed

lemma Dispatch_SendMulticast_delivers:
  assumes "coord_inv w" and "connected_participants (pm w) j \<noteq> None"
    and "id_to_participant (pm w) i \<noteq> None"
    and "\<And>mr. mr \<in> set (receivers (messengers w) (pm w)) \<Longrightarrow> messenger_fd mr \<noteq> fd \<and>
      (\<exists>s. conns w (messenger_fd mr) = Some s \<and> tx s = [])"
    and "distinct (map messenger_fd (receivers (messengers w) (pm w)))"
    and "codec_ok (forward_codec e)" and "ByteSizeLong (forward_codec e) \<lparr>fmessage = body, origin_id = i\<rparr> < 2 ^ 31"
  shows "\<exists>w'. Coordinator_DispatchMessage e order fd h (SendMulticast body i) w = Some (Ret (ACTIVE, w')) \<and>
    (\<exists>mr \<in> set (receivers (messengers w) (pm w)). \<exists>s. pid (participant mr) = j \<and>
       conns w (messenger_fd mr) = Some s \<and>
       conns w' (messenger_fd mr) =
         Some (s\<lparr>wire := wire s @ frame (encode (forward_codec e) \<lparr>fmessage = body, origin_id = i\<rparr>)\<rparr>)) \<and>
    log w' = Log_Insert \<lparr>msg = body, timestamp = clock e (reads w), participant_id = i\<rparr> (log w)"
proof -
  have inv: "pm_inv (pm w)" "msg_queue w = new_queue 0" using assms(1) by (simp_all add: coord_inv_def)
  have i: "pid (DetermineParticipant i w) = i" using DetermineParticipant_pid [OF inv(1), of i] assms(3) by auto
  obtain mr where mr: "mr \<in> set (receivers (messengers w) (pm w))" "pid (participant mr) = j"
    using connected_has_receiver [OF assms(1,2)] by blast
  obtain s where s: "conns w (messenger_fd mr) = Some s" "messenger_fd mr \<noteq> fd"
    using assms(4) [OF mr(1)] by blast
  let ?m = "\<lparr>msg = body, timestamp = 0, participant_id = i\<rparr>"
  let ?w' = "broadcast_loop e (messengers w) False ?m w"
  have out: "conns ?w' (messenger_fd mr) = Some (s\<lparr>wire := wire s @ SerializeMessage e ?m\<rparr>)"
    using broadcast_loop_conns [of "messengers w" w e False ?m "messenger_fd mr"] assms(4,5) mr(1) s
    by auto
  have lg: "log ?w' = Log_Insert \<lparr>msg = body, timestamp = clock e (reads w), participant_id = i\<rparr> (log w)"
    using broadcast_loop_log [of e "messengers w" False ?m w] mr(1) by auto
  have "Coordinator_DispatchMessage e order fd h (SendMulticast body i) w = Some (Ret (ACTIVE, fd_close fd ?w'))"
    by (simp add: Coordinator_DispatchMessage_def HandleSendMulticast_eq [OF inv(2)] i)
  moreover have "SerializeMessage e ?m = frame (encode (forward_codec e) \<lparr>fmessage = body, origin_id = i\<rparr>)"
    using SerializeMessage_frame [of e ?m] assms(6,7) by simp
  ultimately show ?thesis using out lg mr s by (auto simp: fd_close_def)
qed

text \<open>A request that the client has sent is read whole and dispatched.\<close>

lemma Coordinate_request:
  assumes "codec_ok (message_codec e)" and "ByteSizeLong (message_codec e) m < 2 ^ 31"
    and "conns w fd = Some s" and "rx_stream (rx s) = frame (encode (message_codec e) m) @ rest"
  shows "\<exists>s'. tx s' = tx s \<and> wire s' = wire s \<and> Coordinate e order fd h w =
    map_option (\<lambda>r. obind r (\<lambda>(st, w'). Ret (st \<noteq> ERROR, w')))
      (Coordinator_DispatchMessage e order fd h m (w\<lparr>conns := (conns w)(fd \<mapsto> s')\<rparr>))"
proof -
  have "pending new_parser s = frame (encode (message_codec e) m) @ rest"
    using assms(4) by (simp add: pending_def)
  then obtain p1 s1 p2 where f: "fill_parser 1000 new_parser s = Ret (FillDone, p1, s1)"
      "GetMessage (message_codec e) p1 = Ret (Some m, p2)" "wire s1 = wire s" "tx s1 = tx s"
    using fill_GetMessage [OF assms(1,2) wf_new_parser, of 1000 s rest] by auto
  then have "Coordinator_ReadNextMessage e s = Ret (ACTIVE, Some m, s1)"
    by (simp add: Coordinator_ReadNextMessage_def)
  then have "Coordinate e order fd h w =
    map_option (\<lambda>r. obind r (\<lambda>(st, w'). Ret (st \<noteq> ERROR, w')))
      (Coordinator_DispatchMessage e order fd h m (w\<lparr>conns := (conns w)(fd \<mapsto> s1)\<rparr>))"
    using assms(3) by (simp add: Coordinate_def Let_def split: option.split)
  then show ?thesis using f(3,4) by blast
qed

text \<open>
  A multicast reaches every connected participant. If the connections of the messengers in
  use are open, distinct and accept data, then after \<open>DispatchMessage\<close> of a multicast every
  connected participant has a messenger on whose connection exactly one frame was written, that
  of the message with the id of its sender, and the message is in the log with the current
  time.
\<close>

theorem multicast_reaches_connected:
  assumes "coord_inv w" and "connected_participants (pm w) j \<noteq> None"
    and "id_to_participant (pm w) i \<noteq> None"
    and "\<And>mr. mr \<in> set (receivers (messengers w) (pm w)) \<Longrightarrow> messenger_fd mr \<noteq> fd \<and>
      (\<exists>s. conns w (messenger_fd mr) = Some s \<and> tx s = [])"
    and "distinct (map messenger_fd (receivers (messengers w) (pm w)))"
    and "codec_ok (forward_codec e)" and "ByteSizeLong (forward_codec e) \<lparr>fmessage = body, origin_id = i\<rparr> < 2 ^ 31"
  shows "\<exists>w'. Coordinator_DispatchMessage e order fd h (SendMulticast body i) w = Some (Ret (ACTIVE, w')) \<and>
    (\<exists>mr \<in> set (messengers w). \<exists>s. pid (participant mr) = j \<and>
       conns w (messenger_fd mr) = Some s \<and>
       conns w' (messenger_fd mr) =
         Some (s\<lparr>wire := wire s @ frame (encode (forward_codec e) \<lparr>fmessage = body, origin_id = i\<rparr>)\<rparr>)) \<and>
    log w' = Log_Insert \<lparr>msg = body, timestamp = clock e (reads w), participant_id = i\<rparr> (log w)"
  using Dispatch_SendMulticast_delivers [OF assms] unfolding receivers_def by fastforce

theorem multicast_reaches_connected_witness:
  "\<exists>w'. Coordinator_DispatchMessage demo_coord_env (\<lambda>S. []) 7 ''h'' (SendMulticast ''hi'' 2) (demo_coord [1, 2]) =
      Some (Ret (ACTIVE, w')) \<and>
    (\<exists>mr \<in> set (messengers (demo_coord [1, 2])). \<exists>s. pid (participant mr) = 1 \<and>
       conns (demo_coord [1, 2]) (messenger_fd mr) = Some s \<and>
       conns w' (messenger_fd mr) = Some (s\<lparr>wire := wire s @
         frame (encode (forward_codec demo_coord_env) \<lparr>fmessage = ''hi'', origin_id = 2\<rparr>)\<rparr>)) \<and>
    log w' = Log_Insert \<lparr>msg = ''hi'', timestamp = clock demo_coord_env (reads (demo_coord [1, 2])),
      participant_id = 2\<rparr> (log (demo_coord [1, 2]))"
  by (rule multicast_reaches_connected [OF demo_coord_inv(1) _ _ _ _ demo_forward(1,2)])
    (auto simp: demo_coord_defs receivers_def PM_IsConnected_def messenger_fd_def split: if_splits)

lemma SetUpSocketRetry_first:
  "attempts w = (f, s) # as \<Longrightarrow> 0 < f \<Longrightarrow>
   SetUpSocketRetry 3 w = (f, w\<lparr>attempts := as, conns := (conns w)(f \<mapsto> s)\<rparr>)"
  by (simp add: numeral_3_eq_3)

lemma HandleReconnect_sends:
  assumes "id_to_participant (pm w) i = Some p" and "pm_inv (pm w)"
    and "attempts w = (f, s) # as" and "0 < f" and "f \<noteq> fd" and "tx s = []"
    and "set (order missed) = missed"
    and "missed = GetMissedMessages (disconnect_time p) (clock e (reads w)) (log w)"
  shows "\<exists>w' ms. HandleReconnect e order fd port i w = (ACTIVE, w') \<and> set ms = missed \<and>
    conns w' f = Some (s\<lparr>wire := wire s @ concat (map (SerializeMessage e) ms)\<rparr>) \<and>
    connected_participants (pm w') i \<noteq> None \<and> log w' = log w"
proof -
  let ?p = "p\<lparr>sock_fd := f\<rparr>"
  let ?w1 = "w\<lparr>attempts := as, conns := (conns w)(f \<mapsto> s), pm := snd (PM_ReconnectParticipant ?p (pm w))\<rparr>"
  let ?mr = "\<lparr>mid = next_mid w, participant = ?p\<rparr>"
  let ?w3 = "?w1\<lparr>messengers := messengers w @ [?mr], next_mid := Suc (next_mid w), reads := Suc (reads w)\<rparr>"
  have i: "pid p = i" using assms(1,2) by (simp add: pm_inv_def)
  have "Registrar_ReconnectParticipant p w = (?p, ?w1)"
    by (simp add: Registrar_ReconnectParticipant_def ConnectToParticipant_def SetUpSocketRetry_first [OF assms(3,4)]
        assms(4))
  then have h: "HandleReconnect e order fd port i w =
      (ACTIVE, fd_close fd (snd (SendMissedMessages e order ?mr (clock e (reads w)) ?w3)))"
    by (simp add: HandleReconnect_def DetermineParticipant_def PM_GetParticipant_def assms(1) AddMessenger_def
        now_def Let_def)
  obtain w' where w': "send_all e ?mr (order missed) ?w3 = (True, w')"
    "conns w' f = Some (s\<lparr>wire := wire s @ concat (map (SerializeMessage e) (order missed))\<rparr>)" "log w' = log w"
    using send_all_ok [of ?w3 ?mr s e "order missed"] assms(6) by (auto simp: messenger_fd_def)
  have "connected_participants (pm w') i \<noteq> None"
    using same_shared_send_all [of ?w3 e ?mr "order missed"] w'(1) assms(1) i
    by (auto simp: same_shared_def PM_ReconnectParticipant_def set_insert_def Let_def)
  then show ?thesis using h w' assms(5,7,8) by (auto simp: SendMissedMessages_def fd_close_def)
qed

lemma HandleDisconnect_result:
  assumes "pm_inv (pm w)" and "id_to_participant (pm w) i = Some p" and "connected_participants (pm w) i \<noteq> None"
  shows "\<exists>w'. HandleDisconnect e fd i w = (ACTIVE, w') \<and>
    id_to_participant (pm w') =
      (id_to_participant (pm w))(i \<mapsto> p\<lparr>connected := False, disconnect_time := clock e (reads w)\<rparr>) \<and>
    connected_participants (pm w') = (connected_participants (pm w))(i := None) \<and>
    log w' = log w \<and> reads w' = Suc (reads w) \<and> attempts w' = attempts w"
proof -
  have "pid p = i" using assms(1,2) by (simp add: pm_inv_def)
  then show ?thesis using assms(2,3)
    by (auto simp: HandleDisconnect_def Registrar_DisconnectParticipant_def PM_DisconnectParticipant_def
        DetermineParticipant_def PM_GetParticipant_def Let_def now_def DeleteMessenger_def fd_close_def
        split: option.splits)
qed

lemma HandleSendMulticast_logs:
  assumes "coord_inv w" and "id_to_participant (pm w) i \<noteq> None"
  shows "\<exists>w'. HandleSendMulticast e fd body i w = Ret (ACTIVE, w') \<and> pm w' = pm w \<and> attempts w' = attempts w \<and>
    reads w' = (if receivers (messengers w) (pm w) = [] then reads w else Suc (reads w)) \<and>
    log w' = (if receivers (messengers w) (pm w) = [] then log w
      else Log_Insert \<lparr>msg = body, timestamp = clock e (reads w), participant_id = i\<rparr> (log w))"
proof -
  have inv: "pm_inv (pm w)" "msg_queue w = new_queue 0" using assms(1) by (simp_all add: coord_inv_def)
  have i: "pid (DetermineParticipant i w) = i" using DetermineParticipant_pid [OF inv(1), of i] assms(2) by auto
  let ?m = "\<lparr>msg = body, timestamp = 0, participant_id = i\<rparr>"
  show ?thesis
    using same_shared_broadcast [of w e "messengers w" False ?m] broadcast_loop_log [of e "messengers w" False ?m w]
    by (simp add: HandleSendMulticast_eq [OF inv(2)] i fd_close_def same_shared_def)
qed

text \<open>
  C10. A disconnected participant gets what it missed. Participant \<open>i\<close> disconnects, another
  request multicasts a message of \<open>j\<close> while some participant \<open>k\<close> is connected, and \<open>i\<close> reconnects
  within the threshold of that message: on the connection the coordinator then opens, the frame
  of the message is sent, whatever the order in which the log is walked.
\<close>

theorem missed_message_delivered:
  assumes "coord_inv w" and "connected_participants (pm w) i \<noteq> None"
    and "connected_participants (pm w) k \<noteq> None" and "k \<noteq> i" and "id_to_participant (pm w) j \<noteq> None"
    and "clock e (reads w) < clock e (reads w + 1)" and "clock e (reads w + 2) - clock e (reads w + 1) \<le> td (log w)"
    and "attempts w = (f, s) # as" and "0 < f" and "f \<noteq> fd3" and "tx s = []"
    and "\<And>S. S \<subseteq> insert \<lparr>msg = body, timestamp = clock e (reads w + 1), participant_id = j\<rparr>
      (coordinator_messages (log w)) \<Longrightarrow> set (order S) = S"
    and "codec_ok (forward_codec e)" and "ByteSizeLong (forward_codec e) \<lparr>fmessage = body, origin_id = j\<rparr> < 2 ^ 31"
  shows "\<exists>w1 w2 w3 s' pre post.
    Coordinator_DispatchMessage e order fd1 h (Disconnect i) w = Some (Ret (ACTIVE, w1)) \<and>
    Coordinator_DispatchMessage e order fd2 h (SendMulticast body j) w1 = Some (Ret (ACTIVE, w2)) \<and>
    Coordinator_DispatchMessage e order fd3 h (Reconnect port i) w2 = Some (Ret (ACTIVE, w3)) \<and>
    conns w3 f = Some s' \<and>
    wire s' = wire s @ pre @ frame (encode (forward_codec e) \<lparr>fmessage = body, origin_id = j\<rparr>) @ post"
proof -
  have inv: "pm_inv (pm w)" using assms(1) by (simp add: coord_inv_def)
  obtain p where p: "id_to_participant (pm w) i = Some p"
    using unregistered_not_connected [OF inv, of i] assms(2) by blast
  obtain w1 where w1: "HandleDisconnect e fd1 i w = (ACTIVE, w1)"
    "id_to_participant (pm w1) = (id_to_participant (pm w))
       (i \<mapsto> p\<lparr>connected := False, disconnect_time := clock e (reads w)\<rparr>)"
    "connected_participants (pm w1) = (connected_participants (pm w))(i := None)"
    "log w1 = log w" "reads w1 = Suc (reads w)" "attempts w1 = attempts w"
    using HandleDisconnect_result [OF inv p assms(2), of e fd1] by blast
  have inv1: "coord_inv w1" using HandleDisconnect_inv [OF assms(1), of e fd1 i] w1(1) by simp
  have "receivers (messengers w1) (pm w1) \<noteq> []"
    using connected_has_receiver [OF inv1, of k] assms(3,4) w1(3) by auto
  moreover have "id_to_participant (pm w1) j \<noteq> None" using assms(5) w1(2) by simp
  ultimately obtain w2 where w2: "HandleSendMulticast e fd2 body j w1 = Ret (ACTIVE, w2)" "pm w2 = pm w1"
    "attempts w2 = (f, s) # as" "reads w2 = reads w + 2"
    "log w2 = Log_Insert \<lparr>msg = body, timestamp = clock e (reads w + 1), participant_id = j\<rparr> (log w)"
    using HandleSendMulticast_logs [OF inv1, of j e fd2 body] w1 assms(8) by auto
  let ?m = "\<lparr>msg = body, timestamp = clock e (reads w + 1), participant_id = j\<rparr>"
  let ?S = "GetMissedMessages (clock e (reads w)) (clock e (reads w2)) (log w2)"
  have m: "?m \<in> ?S" using assms(6,7) w2(4,5) by (simp add: GetMissedMessages_def Log_Insert_def)
  have S: "set (order ?S) = ?S" using w2(5) by (intro assms(12)) (auto simp: GetMissedMessages_def Log_Insert_def)
  have p2: "id_to_participant (pm w2) i = Some (p\<lparr>connected := False, disconnect_time := clock e (reads w)\<rparr>)"
    using w1(2) w2(2) by simp
  have inv2: "pm_inv (pm w2)" using inv1 w2(2) by (simp add: coord_inv_def)
  have S_eq: "?S = GetMissedMessages
      (disconnect_time (p\<lparr>connected := False, disconnect_time := clock e (reads w)\<rparr>)) (clock e (reads w2)) (log w2)"
    by simp
  obtain w3 ms where w3: "HandleReconnect e order fd3 port i w2 = (ACTIVE, w3)" "set ms = ?S"
    "conns w3 f = Some (s\<lparr>wire := wire s @ concat (map (SerializeMessage e) ms)\<rparr>)"
    using HandleReconnect_sends [OF p2 inv2 w2(3) assms(9-11), where missed = ?S and order = order and e = e and port = port,
        OF S S_eq] by blast
  obtain xs ys where "ms = xs @ ?m # ys" using m w3(2) by (metis split_list)
  then have "concat (map (SerializeMessage e) ms) = concat (map (SerializeMessage e) xs) @
      frame (encode (forward_codec e) \<lparr>fmessage = body, origin_id = j\<rparr>) @ concat (map (SerializeMessage e) ys)"
    using SerializeMessage_frame [of e ?m] assms(13,14) by simp
  then show ?thesis using w1(1) w2(1) w3 by (auto simp: Coordinator_DispatchMessage_def)
qed

theorem missed_message_delivered_witness:
  "\<exists>w1 w2 w3 s' pre post.
    Coordinator_DispatchMessage demo_coord_env (\<lambda>S. if S = {} then [] else [\<lparr>msg = ''hi'', timestamp = 1, participant_id = 2\<rparr>])
      7 ''h'' (Disconnect 1) (demo_coord [1, 2]) = Some (Ret (ACTIVE, w1)) \<and>
    Coordinator_DispatchMessage demo_coord_env (\<lambda>S. if S = {} then [] else [\<lparr>msg = ''hi'', timestamp = 1, participant_id = 2\<rparr>])
      8 ''h'' (SendMulticast ''hi'' 2) w1 = Some (Ret (ACTIVE, w2)) \<and>
    Coordinator_DispatchMessage demo_coord_env (\<lambda>S. if S = {} then [] else [\<lparr>msg = ''hi'', timestamp = 1, participant_id = 2\<rparr>])
      9 ''h'' (Reconnect 9000 1) w2 = Some (Ret (ACTIVE, w3)) \<and>
    conns w3 20 = Some s' \<and>
    wire s' = wire demo_sock @ pre @
      frame (encode (forward_codec demo_coord_env) \<lparr>fmessage = ''hi'', origin_id = 2\<rparr>) @ post"
  by (rule missed_message_delivered [where k = 2, OF demo_coord_inv(1) _ _ _ _ _ _ _ _ _ _ _ demo_forward(1,2)])
    (auto simp: demo_coord_defs demo_coord_env_def subset_singleton_iff)

text \<open>
  A message that nobody is there to hear is lost. The log is written by the first messenger
  that sends a message, so a multicast while no participant is connected is not logged: the
  participant that reconnects afterwards, however soon, receives only what the log held before.
\<close>

theorem unheard_message_lost:
  assumes "coord_inv w" and "dom (connected_participants (pm w)) = {i}"
    and "id_to_participant (pm w) j \<noteq> None"
    and "coordinator_messages (log w) = {}"
    and "attempts w = (f, s) # as" and "0 < f" and "f \<noteq> fd3" and "tx s = []" and "order {} = []"
  shows "\<exists>w1 w2 w3.
    Coordinator_DispatchMessage e order fd1 h (Disconnect i) w = Some (Ret (ACTIVE, w1)) \<and>
    Coordinator_DispatchMessage e order fd2 h (SendMulticast body j) w1 = Some (Ret (ACTIVE, w2)) \<and>
    Coordinator_DispatchMessage e order fd3 h (Reconnect port i) w2 = Some (Ret (ACTIVE, w3)) \<and>
    conns w3 f = Some s"
proof -
  have inv: "pm_inv (pm w)" using assms(1) by (simp add: coord_inv_def)
  have c: "connected_participants (pm w) i \<noteq> None" using assms(2) by blast
  obtain p where p: "id_to_participant (pm w) i = Some p"
    using unregistered_not_connected [OF inv, of i] c by blast
  obtain w1 where w1: "HandleDisconnect e fd1 i w = (ACTIVE, w1)"
    "id_to_participant (pm w1) = (id_to_participant (pm w))
       (i \<mapsto> p\<lparr>connected := False, disconnect_time := clock e (reads w)\<rparr>)"
    "connected_participants (pm w1) = (connected_participants (pm w))(i := None)"
    "log w1 = log w" "attempts w1 = attempts w"
    using HandleDisconnect_result [OF inv p c, of e fd1] by blast
  have inv1: "coord_inv w1" using HandleDisconnect_inv [OF assms(1), of e fd1 i] w1(1) by simp
  have "connected_participants (pm w1) x = None" for x using assms(2) w1(3) by (cases "x = i") auto
  then have "receivers (messengers w1) (pm w1) = []" by (simp add: receivers_def PM_IsConnected_def)
  moreover have "id_to_participant (pm w1) j \<noteq> None" using assms(3) w1(2) by simp
  ultimately obtain w2 where w2: "HandleSendMulticast e fd2 body j w1 = Ret (ACTIVE, w2)" "pm w2 = pm w1"
    "attempts w2 = (f, s) # as" "log w2 = log w"
    using HandleSendMulticast_logs [OF inv1, of j e fd2 body] w1 assms(5) by auto
  have none: "GetMissedMessages t t' (log w2) = {}" for t t' using assms(4) w2(4) by (simp add: GetMissedMessages_def)
  have inv2: "pm_inv (pm w2)" using inv1 w2(2) by (simp add: coord_inv_def)
  have "id_to_participant (pm w2) i = Some (p\<lparr>connected := False, disconnect_time := clock e (reads w)\<rparr>)"
    using w1(2) w2(2) by simp
  from HandleReconnect_sends [OF this inv2 w2(3) assms(6-8), of order "{}" e port]
  obtain w3 where "HandleReconnect e order fd3 port i w2 = (ACTIVE, w3)" "conns w3 f = Some s"
    using assms(9) none by auto
  then show ?thesis using w1(1) w2(1) by (auto simp: Coordinator_DispatchMessage_def)
qed

theorem unheard_message_lost_witness:
  "\<exists>w1 w2 w3.
    Coordinator_DispatchMessage demo_coord_env (\<lambda>S. []) 7 ''h'' (Disconnect 1) (demo_coord [1]) = Some (Ret (ACTIVE, w1)) \<and>
    Coordinator_DispatchMessage demo_coord_env (\<lambda>S. []) 8 ''h'' (SendMulticast ''hi'' 1) w1 = Some (Ret (ACTIVE, w2)) \<and>
    Coordinator_DispatchMessage demo_coord_env (\<lambda>S. []) 9 ''h'' (Reconnect 9000 1) w2 = Some (Ret (ACTIVE, w3)) \<and>
    conns w3 20 = Some demo_sock"
  by (rule unheard_message_lost [OF demo_coord_inv(2)])
    (simp_all add: demo_coord_defs)

text \<open>
  The coordinator loses track of the connection of a participant that reconnects: the new
  descriptor goes to the messenger only, the participant manager keeps the old one. When the
  participant then deregisters, the coordinator closes the old descriptor, which may meanwhile
  belong to somebody else, and leaves the new connection open.
\<close>

theorem reconnect_then_deregister_leaks:
  assumes "coord_inv w" and "id_to_participant (pm w) i = Some p"
    and "attempts w = (f, s) # as" and "0 < f" and "f \<noteq> fd1" and "f \<noteq> fd2" and "tx s = []"
    and "sock_fd p \<noteq> f" and "order {} = []" and "coordinator_messages (log w) = {}"
  shows "\<exists>w1 w2. Coordinator_DispatchMessage e order fd1 h (Reconnect port i) w = Some (Ret (ACTIVE, w1)) \<and>
    Coordinator_DispatchMessage e order fd2 h (Deregister i) w1 = Some (Ret (ACTIVE, w2)) \<and>
    id_to_participant (pm w2) i = None \<and> conns w2 (sock_fd p) = None \<and> conns w2 f = Some s"
proof -
  have inv: "pm_inv (pm w)" using assms(1) by (simp add: coord_inv_def)
  have i: "pid p = i" using inv assms(2) by (simp add: pm_inv_def)
  have none: "GetMissedMessages t t' (log w) = {}" for t t' using assms(10) by (simp add: GetMissedMessages_def)
  let ?p = "p\<lparr>sock_fd := f\<rparr>"
  let ?m = "snd (PM_ReconnectParticipant ?p (pm w))"
  let ?mr = "\<lparr>mid = next_mid w, participant = ?p\<rparr>"
  let ?w1 = "w\<lparr>attempts := as, conns := ((conns w)(f \<mapsto> s))(fd1 := None), pm := ?m,
    messengers := messengers w @ [?mr], next_mid := Suc (next_mid w), reads := Suc (reads w)\<rparr>"
  have w1: "HandleReconnect e order fd1 port i w = (ACTIVE, ?w1)"
    using assms(2,4,9) none
    by (simp add: HandleReconnect_def DetermineParticipant_def PM_GetParticipant_def
        Registrar_ReconnectParticipant_def ConnectToParticipant_def SetUpSocketRetry_first [OF assms(3,4)]
        AddMessenger_def now_def SendMissedMessages_def fd_close_def Let_def)
  have "id_to_participant ?m i = Some (p\<lparr>connected := True\<rparr>)"
    using assms(2) i by (simp add: PM_ReconnectParticipant_def Let_def)
  then have "DetermineParticipant i ?w1 = p\<lparr>connected := True\<rparr>"
    by (simp add: DetermineParticipant_def PM_GetParticipant_def)
  then show ?thesis using w1 assms(5,6,8) i
    by (auto simp: Coordinator_DispatchMessage_def HandleDeregister_def Let_def Registrar_DeregisterParticipant_def
        PM_DeregisterParticipant_def DeleteMessenger_def fd_close_def split: option.splits)
qed

theorem reconnect_then_deregister_leaks_witness:
  "\<exists>w1 w2. Coordinator_DispatchMessage demo_coord_env (\<lambda>S. []) 7 ''h'' (Reconnect 9000 1) (demo_coord [1]) =
      Some (Ret (ACTIVE, w1)) \<and>
    Coordinator_DispatchMessage demo_coord_env (\<lambda>S. []) 8 ''h'' (Deregister 1) w1 = Some (Ret (ACTIVE, w2)) \<and>
    id_to_participant (pm w2) 1 = None \<and> conns w2 (sock_fd (demo_participant 1 11)) = None \<and>
    conns w2 20 = Some demo_sock"
  by (rule reconnect_then_deregister_leaks [OF demo_coord_inv(2)]) (simp_all add: demo_coord_defs)

end
