(* ===== verification/Pub_Sub_System.thy ===== *)
theory Pub_Sub_System
  imports Coordinator Multicast_Participant
begin

text \<open>
  The publish/subscribe system as a whole: the coordinator of \<open>Coordinator\<close> between the
  participants of \<open>Multicast_Participant\<close>. The two sides share nothing but the bytes on their
  connections and the encodings of the messages.
\<close>

section \<open>A multicast from one participant to another\<close>

text \<open>
  C9. A multicast from end to end. A participant with id \<open>i\<close> types \<open>msend body\<close>; what it sends on its
  new connection is read by the task of the coordinator, which ends DONE after adding exactly
  one frame to the connection of every connected participant \<open>j\<close>; and when that frame reaches the
  receiver of \<open>j\<close>, in any segments, the line \<open>[i]  body\<close> is appended to its log and sent to its
  console (with two blanks: the text keeps the one that separated it from the command).
\<close>

theorem multicast_end_to_end:
  assumes codecs: "codec_ok (message_codec ce)" "codec_ok (forward_codec ce)"
      "request_codec pe = message_codec ce" "multicast_codec pe = forward_codec ce"
    and sizes: "ByteSizeLong (message_codec ce) (SendMulticast ('' '' @ body) i) < 2 ^ 30"
      "ByteSizeLong (forward_codec ce) \<lparr>fmessage = '' '' @ body, origin_id = i\<rparr> < 2 ^ 31"
    and sender: "newline \<notin> set body" "of_int (my_id (pinput p)) = i" "0 \<le> socket_ret k" "0 \<le> connect_ret k"
      "pton k (coordinator_ip p) \<noteq> None" "accepting s"
    and coordinator: "coord_inv w" "connected_participants (pm w) j \<noteq> None" "id_to_participant (pm w) i \<noteq> None"
      "conns w fd = Some sc"
      "rx_stream (rx sc) = frame (encode (message_codec ce) (SendMulticast ('' '' @ body) i))"
      "\<And>mr. mr \<in> set (receivers (messengers w) (pm w)) \<Longrightarrow> messenger_fd mr \<noteq> fd \<and>
        (\<exists>s. conns w (messenger_fd mr) = Some s \<and> tx s = [])"
      "distinct (map messenger_fd (receivers (messengers w) (pm w)))"
    and receiver: "mparser r = new_parser" "max_length (console_message_queue cn) = 0"
      "rx_stream (rx (msock r)) = frame (encode (forward_codec ce) \<lparr>fmessage = '' '' @ body, origin_id = i\<rparr>)"
  shows "(\<exists>m s' p'. Participant_CreateReq (Participant_Parse (''msend '' @ body) (pinput p)) = Some m \<and>
      ConnectAndSend pe k s m p = Some (socket_ret k, s', p') \<and> wire s' = wire s @ rx_stream (rx sc)) \<and>
    (\<exists>w'. CoordinatorTask_RunAtomic ce order fd h w = Some (Ret (DONE, w')) \<and>
      (\<exists>mr \<in> set (messengers w). \<exists>sj. pid (participant mr) = j \<and> conns w (messenger_fd mr) = Some sj \<and>
        conns w' (messenger_fd mr) = Some (sj\<lparr>wire := wire sj @ rx_stream (rx (msock r))\<rparr>))) \<and>
    (\<exists>n r' cn'. run_multicast n pe r cn = Ret (RUNNING, r', cn') \<and>
      log_file r' = log_file r @ ''['' @ nat_string (unat i) @ '']  '' @ body @ [newline] \<and>
      queue (console_message_queue cn') = queue (console_message_queue cn) @
        [''['' @ nat_string (unat i) @ '']  '' @ body])"
proof (intro conjI)
  let ?m = "SendMulticast ('' '' @ body) i" and ?f = "\<lparr>fmessage = '' '' @ body, origin_id = i\<rparr>"
  have small: "ByteSizeLong (message_codec ce) ?m < 2 ^ 31" using sizes(1) by simp
  have "Participant_CreateReq (Participant_Parse (''msend '' @ body) (pinput p)) = Some ?m"
    using Parse_msend [OF sender(1)] sender(2) by (simp add: Participant_CreateReq_def)
  moreover obtain s' p' where "ConnectAndSend pe k s ?m p = Some (socket_ret k, s', p')"
      "wire s' = wire s @ frame (encode (message_codec ce) ?m)"
    using ConnectAndSend_writes [of pe ?m k p s] codecs sizes(1) sender(3-6) by auto
  ultimately show "\<exists>m s' p'. Participant_CreateReq (Participant_Parse (''msend '' @ body) (pinput p)) = Some m \<and>
      ConnectAndSend pe k s m p = Some (socket_ret k, s', p') \<and> wire s' = wire s @ rx_stream (rx sc)"
    using coordinator(5) by auto
  obtain s1 where s1: "Coordinate ce order fd h w = map_option (\<lambda>r. obind r (\<lambda>(st, w'). Ret (st \<noteq> ClientState.ERROR, w')))
      (Coordinator_DispatchMessage ce order fd h ?m (w\<lparr>conns := (conns w)(fd \<mapsto> s1)\<rparr>))"
    using Coordinate_request [OF codecs(1) small coordinator(4), of "[]" order h] coordinator(5) by auto
  let ?w = "w\<lparr>conns := (conns w)(fd \<mapsto> s1)\<rparr>"
  have inv: "coord_inv ?w" using coord_inv_same_shared [of w ?w] coordinator(1) by (simp add: same_shared_def)
  obtain w' mr sj where d: "Coordinator_DispatchMessage ce order fd h ?m ?w = Some (Ret (ClientState.ACTIVE, w'))"
      "mr \<in> set (receivers (messengers w) (pm w))" "pid (participant mr) = j" "conns ?w (messenger_fd mr) = Some sj"
      "conns w' (messenger_fd mr) = Some (sj\<lparr>wire := wire sj @ frame (encode (forward_codec ce) ?f)\<rparr>)"
    using Dispatch_SendMulticast_delivers [OF inv _ _ _ _ codecs(2) sizes(2), of j fd order h] coordinator(2,3,6,7)
    by auto
  moreover have "messenger_fd mr \<noteq> fd" "mr \<in> set (messengers w)"
    using coordinator(6) [OF d(2)] d(2) by (auto simp: receivers_def)
  ultimately show "\<exists>w'. CoordinatorTask_RunAtomic ce order fd h w = Some (Ret (DONE, w')) \<and>
      (\<exists>mr \<in> set (messengers w). \<exists>sj. pid (participant mr) = j \<and> conns w (messenger_fd mr) = Some sj \<and>
        conns w' (messenger_fd mr) = Some (sj\<lparr>wire := wire sj @ rx_stream (rx (msock r))\<rparr>))"
    using s1 receiver(3) by (fastforce simp: CoordinatorTask_RunAtomic_def)
  have "pending (mparser r) (msock r) = concat (map (\<lambda>m. frame (encode (multicast_codec pe) m)) [?f]) @ []"
    using receiver(1,3) codecs(4) by (simp add: pending_def)
  then show "\<exists>n r' cn'. run_multicast n pe r cn = Ret (RUNNING, r', cn') \<and>
      log_file r' = log_file r @ ''['' @ nat_string (unat i) @ '']  '' @ body @ [newline] \<and>
      queue (console_message_queue cn') = queue (console_message_queue cn) @
        [''['' @ nat_string (unat i) @ '']  '' @ body]"
    using run_multicast_all [of pe "[?f]" r cn "[]"] codecs(2,4) sizes(2) receiver(1,2)
    by (fastforce simp: multicast_line_def reader_ok_def unbounded_def)
qed

definition demo_multicast_coord :: coord where
  "demo_multicast_coord = (demo_coord [1, 2])\<lparr>conns := [11 \<mapsto> demo_sock, 12 \<mapsto> demo_sock,
     7 \<mapsto> demo_sock\<lparr>rx := [RxData [0, 0, 0], RxData [1, 0]]\<rparr>]\<rparr>"

lemma demo_multicast_coord_inv: "coord_inv demo_multicast_coord"
  using coord_inv_same_shared [of "demo_coord [1, 2]" demo_multicast_coord] demo_coord_inv(1)
  by (simp add: same_shared_def demo_multicast_coord_def)

lemma demo_multicast_fds:
  "mr \<in> set (receivers (messengers demo_multicast_coord) (pm demo_multicast_coord)) \<Longrightarrow> messenger_fd mr \<noteq> 7 \<and>
    (\<exists>s. conns demo_multicast_coord (messenger_fd mr) = Some s \<and> tx s = [])"
  by (auto simp: demo_multicast_coord_def demo_coord_defs receivers_def PM_IsConnected_def messenger_fd_def)

theorem multicast_end_to_end_witness:
  "\<exists>n r' cn'. run_multicast n (demo_participant_env [\<lparr>fmessage = '' hi'', origin_id = 2\<rparr>] [SendMulticast '' hi'' 2])
      ((new_MulticastReceiver 80)\<lparr>msock := demo_sock\<lparr>rx := [RxData [0], RxData [0, 0, 1, 0]]\<rparr>\<rparr>)
      (new_ConsoleTask ''> '') = Ret (RUNNING, r', cn') \<and>
    log_file r' = ''['' @ nat_string (unat (2 :: u32)) @ '']  '' @ ''hi'' @ [newline] \<and>
    queue (console_message_queue cn') = [''['' @ nat_string (unat (2 :: u32)) @ '']  '' @ ''hi'']"
proof -
  let ?m = "SendMulticast ('' '' @ ''hi'') 2" and ?f = "\<lparr>fmessage = '' '' @ ''hi'', origin_id = 2\<rparr> :: ForwardMulticast"
  let ?ce = "demo_coord_env\<lparr>message_codec := table_codec [?m], forward_codec := table_codec [?f]\<rparr>"
  let ?pe = "demo_participant_env [?f] [?m]"
  have c: "codec_ok (message_codec ?ce)" "codec_ok (forward_codec ?ce)"
    by (simp_all add: table_codec_ok)
  show ?thesis
    using multicast_end_to_end [OF c _ _ _ _ _ _ _ _ _ _ demo_multicast_coord_inv _ _ _ _ demo_multicast_fds, where pe = ?pe and body = "''hi''" and i = 2 and j = 1
        and p = "new_Participant 0 2 0 None" and k = "\<lparr>socket_ret = 3, pton = (\<lambda>_. Some 1), connect_ret = 0\<rparr>"
        and s = demo_sock
        and sc = "demo_sock\<lparr>rx := [RxData [0, 0, 0], RxData [1, 0]]\<rparr>"
        and r = "(new_MulticastReceiver 80)\<lparr>msock := demo_sock\<lparr>rx := [RxData [0], RxData [0, 0, 1, 0]]\<rparr>\<rparr>"
        and cn = "new_ConsoleTask ''> ''" and order = "\<lambda>_. []" and h = "''h''"]
    by (simp add: demo_participant_env_def table_codec_def frame_def encode_def htonl_bytes_def accepting_def
        demo_multicast_coord_def demo_coord_defs receivers_def PM_IsConnected_def messenger_fd_def
        new_MulticastReceiver_def new_ConsoleTask_def new_queue_def new_Participant_def Participant_LoadConfig_def
        new_participant_input_def)
qed

end
