(* ===== verification/Coordinator_Driver.thy ===== *)
theory Coordinator_Driver
  imports Coordinator Socket_Setup Text_Input
begin

text \<open>
  Model of \<open>project3/coordinator/coordinator_driver.cpp\<close> and of the program around it,
  \<open>coordinator_main.cpp\<close>: reading the configuration, opening the listening socket, creating the
  structures that the coordinators share, and the endless loop that starts one task per accepted
  connection. The results of \<open>accept()\<close> are an input.
\<close>

text \<open>
  \<open>LoadConfig\<close> of the program: the port and the threshold in seconds; a file that is not there
  gives \<open>None\<close>, a line that is no number an exception. The string is reused, so that a missing second line
  is read as the first one.
\<close>

definition coordinator_LoadConfig :: "string option \<Rightarrow> (u16 \<times> int) option outcome" where
  "coordinator_LoadConfig conf =
     (case conf of
        None \<Rightarrow> Ret None
      | Some f \<Rightarrow>
          let (_, l1, f1) = getline (Some f) [];
              (_, l2, f2) = getline f1 l1
          in case stoi l1 of
               None \<Rightarrow> Crash
             | Some p \<Rightarrow> (case stoi l2 of None \<Rightarrow> Crash | Some t \<Rightarrow> Ret (Some (of_int p, t))))"

definition coordinator_main :: "(string \<Rightarrow> string option) \<Rightarrow> string list \<Rightarrow> (u16 \<times> int) option outcome" where
  "coordinator_main file argv =
     (if length argv \<noteq> 2 then Ret None else coordinator_LoadConfig (file (argv ! 1)))"

text \<open>
  One accepted connection: its descriptor, or a negative number; the address of the peer as
  text; the connection. A connection that could not be accepted gets a task all the same.
\<close>

record coord_driver =
  cd_server_fd :: int
  cd_coord :: coord
  cd_tasks :: "(int \<times> string) list"

definition CoordinatorDriver_setup ::
  "listen_calls \<Rightarrow> u16 \<Rightarrow> int \<Rightarrow> (int \<times> sock) list \<Rightarrow> fd_table \<Rightarrow> coord_driver \<times> fd_table" where
  "CoordinatorDriver_setup lk p threshold as t =
     (case CoordinatorDriver_CreateSocket lk (uint p) t of
        (f, t') \<Rightarrow> (\<lparr>cd_server_fd = f, cd_coord = new_coord threshold Map.empty as, cd_tasks = []\<rparr>, t'))"

definition CoordinatorDriver_accept :: "int \<times> string \<times> sock \<Rightarrow> coord_driver \<Rightarrow> coord_driver" where
  "CoordinatorDriver_accept acc d =
     (case acc of
        (client_fd, host, s) \<Rightarrow>
          d\<lparr>cd_tasks := cd_tasks d @ [(client_fd, host)],
            cd_coord := (if client_fd < 0 then cd_coord d
                         else (cd_coord d)\<lparr>conns := (conns (cd_coord d))(client_fd \<mapsto> s)\<rparr>)\<rparr>)"

text \<open>The loop of \<open>Start\<close>, which never ends: after the given results it waits for the next.\<close>

definition CoordinatorDriver_accepts :: "(int \<times> string \<times> sock) list \<Rightarrow> coord_driver \<Rightarrow> coord_driver" where
  "CoordinatorDriver_accepts as d = foldl (\<lambda>d a. CoordinatorDriver_accept a d) d as"

section \<open>Properties\<close>

lemma accepts_tasks:
  "cd_tasks (CoordinatorDriver_accepts as d) = cd_tasks d @ map (\<lambda>(f, h, s). (f, h)) as"
  by (induction as arbitrary: d)
    (auto simp: CoordinatorDriver_accepts_def CoordinatorDriver_accept_def split: prod.split)

lemma accepts_inv: "coord_inv (cd_coord d) \<Longrightarrow> coord_inv (cd_coord (CoordinatorDriver_accepts as d))"
proof (induction as arbitrary: d)
  case (Cons a as)
  obtain f h s where a: "a = (f, h, s)" by (cases a)
  have "same_shared (cd_coord d) (cd_coord (CoordinatorDriver_accept a d))"
    by (simp add: a CoordinatorDriver_accept_def same_shared_def)
  then have "coord_inv (cd_coord (CoordinatorDriver_accept a d))"
    using Cons.prems coord_inv_same_shared by blast
  then show ?case using Cons.IH by (simp add: CoordinatorDriver_accepts_def)
qed (simp add: CoordinatorDriver_accepts_def)

lemma accepts_conns:
  "f < 0 \<or> f \<notin> fst ` set as \<Longrightarrow> conns (cd_coord (CoordinatorDriver_accepts as d)) f = conns (cd_coord d) f"
proof (induction as arbitrary: d)
  case (Cons a as)
  obtain g h s where a: "a = (g, h, s)" by (cases a)
  have "conns (cd_coord (CoordinatorDriver_accept a d)) f = conns (cd_coord d) f"
    using Cons.prems a by (auto simp: CoordinatorDriver_accept_def)
  moreover have "CoordinatorDriver_accepts (a # as) d = CoordinatorDriver_accepts as (CoordinatorDriver_accept a d)"
    by (simp add: CoordinatorDriver_accepts_def)
  ultimately show ?case using Cons.IH [of "CoordinatorDriver_accept a d"] Cons.prems by auto
qed (simp add: CoordinatorDriver_accepts_def)

lemma accepts_append:
  "CoordinatorDriver_accepts (as @ bs) d = CoordinatorDriver_accepts bs (CoordinatorDriver_accepts as d)"
  by (simp add: CoordinatorDriver_accepts_def)

text \<open>
  The coordinator starts consistent and stays reachable. After the driver has set up and
  accepted any sequence of connections, some of which may fail, there is one task per result
  of \<open>accept()\<close>, in order, the shared structures satisfy their invariant, and the task of a
  connection that was accepted, with a descriptor not given out again meanwhile, finds that
  connection; the task of a failed \<open>accept()\<close>, which is started too, ends FAILED without changing
  anything.
\<close>

theorem coordinator_driver_deploys:
  assumes "d = CoordinatorDriver_accepts (as @ (f, h, s) # bs) (fst (CoordinatorDriver_setup lk p threshold atts t))"
    and "f < 0 \<or> f \<notin> fst ` set bs"
  shows "cd_tasks d = map (\<lambda>(f, h, s). (f, h)) (as @ (f, h, s) # bs) \<and> coord_inv (cd_coord d) \<and>
    (if 0 \<le> f then conns (cd_coord d) f = Some s
     else CoordinatorTask_RunAtomic e order f h (cd_coord d) = Some (Ret (FAILED, cd_coord d)))"
proof -
  let ?d0 = "fst (CoordinatorDriver_setup lk p threshold atts t)"
  have d0: "cd_coord ?d0 = new_coord threshold Map.empty atts" "cd_tasks ?d0 = []"
    by (simp_all add: CoordinatorDriver_setup_def split: prod.split)
  let ?d1 = "CoordinatorDriver_accept (f, h, s) (CoordinatorDriver_accepts as ?d0)"
  have d: "d = CoordinatorDriver_accepts bs ?d1"
    using assms(1) accepts_append [of as "(f, h, s) # bs" ?d0] by (simp add: CoordinatorDriver_accepts_def)
  have keep: "conns (cd_coord d) f = conns (cd_coord ?d1) f" unfolding d by (rule accepts_conns [OF assms(2)])
  have "cd_tasks d = map (\<lambda>(f, h, s). (f, h)) (as @ (f, h, s) # bs)"
    using assms(1) accepts_tasks d0(2) by simp
  moreover have "coord_inv (cd_coord d)"
    using assms(1) accepts_inv d0(1) new_coord_inv by simp
  moreover have "conns (cd_coord d) f = Some s" if "0 \<le> f"
    using keep that by (simp add: CoordinatorDriver_accept_def)
  moreover have "CoordinatorTask_RunAtomic e order f h (cd_coord d) = Some (Ret (FAILED, cd_coord d))"
    if "\<not> 0 \<le> f"
  proof -
    have "conns (cd_coord d) f = None"
      using keep that accepts_conns [of f as ?d0] d0(1) by (simp add: CoordinatorDriver_accept_def new_coord_def)
    then show ?thesis by (simp add: CoordinatorTask_RunAtomic_def Coordinate_def)
  qed
  ultimately show ?thesis by simp
qed

theorem coordinator_driver_deploys_witness:
  "cd_tasks (CoordinatorDriver_accepts [(-1, ''x'', demo_sock), (5, ''h'', demo_sock), (-1, ''y'', demo_sock)]
      (fst (CoordinatorDriver_setup \<lparr>lsocket_ret = 3, setsockopt_ret = 0, bind_ret = 0, listen_ret = 0\<rparr> 80 10 [] Map.empty))) =
      [(-1, ''x''), (5, ''h''), (-1, ''y'')] \<and>
    conns (cd_coord (CoordinatorDriver_accepts [(-1, ''x'', demo_sock), (5, ''h'', demo_sock), (-1, ''y'', demo_sock)]
      (fst (CoordinatorDriver_setup \<lparr>lsocket_ret = 3, setsockopt_ret = 0, bind_ret = 0, listen_ret = 0\<rparr> 80 10 [] Map.empty)))) 5 =
      Some demo_sock"
  using coordinator_driver_deploys [of _ "[(-1, ''x'', demo_sock)]" 5 "''h''" demo_sock "[(-1, ''y'', demo_sock)]"
      "\<lparr>lsocket_ret = 3, setsockopt_ret = 0, bind_ret = 0, listen_ret = 0\<rparr>" 80 10 "[]" Map.empty, OF refl]
  by simp

end
