(* ===== verification/Coordinator_Threads.thy ===== *)
theory Coordinator_Threads
  imports Coordinator
begin

text \<open>
  The coordinators as threads. \<open>Coordinator\<close> treats a request as one step; here every critical
  section of a request and every access to the unprotected shared members is a step of its own,
  and a run is any interleaving of the steps of any number of requests.

  Locked methods (of the participant manager, the message log, a messenger, the message queue)
  are one step each. \<open>Coordinator::id_\<close> has no lock: its increment is a load and a store, and
  every comparison with it reads it again. \<open>MessengerManager::messengers_\<close> is written under a
  lock but read without it, by \<open>GetMessengers\<close> (a copy) and by the loop of \<open>BroadcastMessage\<close>; a
  pass over it has a beginning and an end, and a write between the two, which C++ leaves
  undefined, is \<open>Crash\<close>.

  The lemmas: a request that nobody interrupts does what the handlers of \<open>Coordinator\<close> do; an
  invariant of all interleavings gives the invariant of the shared structures back when the
  requests are done; no request waits for another one; and the races that the missing locks
  leave open.
\<close>

section \<open>Where a coordinator is inside its request\<close>

text \<open>\<open>HandleRequest\<close> for \<open>Register\<close>, with the loop of \<open>GenerateID\<close> and its \<open>duplicate\<close> flag.\<close>

datatype register_pc =
    Reg_load u32 bool
  | Reg_store u32 bool u32
  | Reg_snapshot u32 bool
  | Reg_scan u32 bool "u32 list"
  | Reg_return u32
  | Reg_respond u32 u32
  | Reg_connect Participant
  | Reg_manager Participant
  | Reg_add Participant

text \<open>\<open>HandleRequest\<close> for \<open>Deregister\<close> and for \<open>Disconnect\<close>.\<close>

datatype removal = Deregistering | Disconnecting

datatype removal_pc =
    Rem_participant removal u32
  | Rem_copy removal u32 Participant
  | Rem_copying removal u32 Participant
  | Rem_manager removal Participant "Messenger option"
  | Rem_close Participant "Messenger option"
  | Rem_delete "Messenger option"

datatype reconnect_pc =
    Rec_participant u32
  | Rec_connect Participant
  | Rec_manager Participant
  | Rec_add Participant
  | Rec_now Messenger
  | Rec_missed Messenger int
  | Rec_send Messenger "Message list"

text \<open>
  \<open>HandleRequest\<close> for \<open>SendMulticast\<close>; the last four are inside the loop of \<open>BroadcastMessage\<close>,
  with the messengers that are left, \<open>is_logged\<close> and the message.
\<close>

datatype multicast_pc =
    Mul_participant string u32
  | Mul_push Message
  | Mul_pop
  | Mul_begin Message
  | Mul_loop "Messenger list" bool Message
  | Mul_send Messenger "Messenger list" bool Message
  | Mul_log "Messenger list" Message
  | Mul_insert "Messenger list" Message

datatype coord_pc =
    Reading
  | Registering register_pc
  | Removing removal_pc
  | Reconnecting reconnect_pc
  | Multicasting multicast_pc
  | Closing
  | Finished bool

text \<open>A \<open>Coordinator\<close> object with its thread, and all of them with what they share.\<close>

record coordinator =
  c_client_fd :: int
  c_hostname :: string
  c_pc :: coord_pc

record coord_sys =
  shared :: coord
  threads :: "coordinator list"

definition new_Coordinator :: "int \<Rightarrow> string \<Rightarrow> coordinator" where
  "new_Coordinator participant_fd host = \<lparr>c_client_fd = participant_fd, c_hostname = host, c_pc = Reading\<rparr>"

text \<open>Inside a pass over \<open>messengers_\<close> that holds no lock.\<close>

fun iterating :: "coord_pc \<Rightarrow> bool" where
  "iterating (Removing (Rem_copying k i p)) \<longleftrightarrow> True"
| "iterating (Multicasting (Mul_loop mrs is_logged m)) \<longleftrightarrow> True"
| "iterating (Multicasting (Mul_send mr mrs is_logged m)) \<longleftrightarrow> True"
| "iterating (Multicasting (Mul_log mrs m)) \<longleftrightarrow> True"
| "iterating (Multicasting (Mul_insert mrs m)) \<longleftrightarrow> True"
| "iterating _ \<longleftrightarrow> False"

section \<open>Steps\<close>

text \<open>
  The steps of one coordinator. \<open>busy\<close> tells whether another thread is iterating. The order in
  which a copy of the connected participants is visited is the argument \<open>scan\<close>.
\<close>

fun Register_step ::
  "coord_env \<Rightarrow> (u32 set \<Rightarrow> u32 list) \<Rightarrow> bool \<Rightarrow> int \<Rightarrow> string \<Rightarrow> register_pc \<Rightarrow> coord \<Rightarrow> (coord_pc \<times> coord) outcome" where
  "Register_step e scan busy client_fd host (Reg_load port duplicate) w =
     Ret (Registering (Reg_store port duplicate (last_pid w)), w)"
| "Register_step e scan busy client_fd host (Reg_store port duplicate v) w =
     Ret (Registering (Reg_snapshot port duplicate), w\<lparr>last_pid := v + 1\<rparr>)"
| "Register_step e scan busy client_fd host (Reg_snapshot port duplicate) w =
     Ret (Registering (Reg_scan port duplicate (scan (dom (connected_participants (pm w))))), w)"
| "Register_step e scan busy client_fd host (Reg_scan port duplicate []) w =
     Ret (Registering (if duplicate then Reg_load port duplicate else Reg_return port), w)"
| "Register_step e scan busy client_fd host (Reg_scan port duplicate (i # is)) w =
     Ret (Registering (if i = last_pid w then Reg_load port True else Reg_scan port False is), w)"
| "Register_step e scan busy client_fd host (Reg_return port) w =
     Ret (Registering (Reg_respond port (last_pid w)), w)"
| "Register_step e scan busy client_fd host (Reg_respond port i) w =
     (let (t, w1) = now e w;
          p = \<lparr>pid = i, sock_fd = uninitialized_fd e, pport = ucast port, phostname = host,
               connected = True, disconnect_time = t\<rparr>
      in Ret (Registering (Reg_connect p), fd_close client_fd (snd (SendRegistrationResponse e client_fd p w1))))"
| "Register_step e scan busy client_fd host (Reg_connect p) w =
     (case ConnectToParticipant p w of
        (ok, p', w') \<Rightarrow> Ret (Registering (if ok then Reg_manager p' else Reg_add p'), w'))"
| "Register_step e scan busy client_fd host (Reg_manager p) w =
     Ret (Registering (Reg_add p), w\<lparr>pm := PM_RegisterParticipant p (pm w)\<rparr>)"
| "Register_step e scan busy client_fd host (Reg_add p) w =
     (if busy then Crash else Ret (Finished True, snd (AddMessenger p w)))"

text \<open>Erasing a messenger that is not in the set writes nothing.\<close>

fun Remove_step ::
  "coord_env \<Rightarrow> bool \<Rightarrow> removal_pc \<Rightarrow> coord \<Rightarrow> (coord_pc \<times> coord) outcome" where
  "Remove_step e busy (Rem_participant k i) w = Ret (Removing (Rem_copy k i (DetermineParticipant i w)), w)"
| "Remove_step e busy (Rem_copy k i p) w = Ret (Removing (Rem_copying k i p), w)"
| "Remove_step e busy (Rem_copying k i p) w = Ret (Removing (Rem_manager k p (DetermineMessenger i w)), w)"
| "Remove_step e busy (Rem_manager Deregistering p mr) w =
     Ret (Removing (Rem_close p mr), w\<lparr>pm := PM_DeregisterParticipant p (pm w)\<rparr>)"
| "Remove_step e busy (Rem_manager Disconnecting p mr) w =
     Ret (Removing (Rem_delete mr), Registrar_DisconnectParticipant e p w)"
| "Remove_step e busy (Rem_close p mr) w = Ret (Removing (Rem_delete mr), fd_close (sock_fd p) w)"
| "Remove_step e busy (Rem_delete mr) w =
     (if busy \<and> (case mr of None \<Rightarrow> False | Some m \<Rightarrow> mid m \<in> mid ` set (messengers w)) then Crash
      else Ret (Closing, DeleteMessenger mr w))"

fun Reconnect_step ::
  "coord_env \<Rightarrow> (Message set \<Rightarrow> Message list) \<Rightarrow> bool \<Rightarrow> reconnect_pc \<Rightarrow> coord \<Rightarrow> (coord_pc \<times> coord) outcome" where
  "Reconnect_step e order busy (Rec_participant i) w = Ret (Reconnecting (Rec_connect (DetermineParticipant i w)), w)"
| "Reconnect_step e order busy (Rec_connect p) w =
     (case ConnectToParticipant p w of
        (ok, p', w') \<Rightarrow> Ret (Reconnecting (if ok then Rec_manager p' else Rec_add p'), w'))"
| "Reconnect_step e order busy (Rec_manager p) w =
     Ret (Reconnecting (Rec_add p), w\<lparr>pm := snd (PM_ReconnectParticipant p (pm w))\<rparr>)"
| "Reconnect_step e order busy (Rec_add p) w =
     (if busy then Crash else case AddMessenger p w of (mr, w') \<Rightarrow> Ret (Reconnecting (Rec_now mr), w'))"
| "Reconnect_step e order busy (Rec_now mr) w =
     (case now e w of (t, w') \<Rightarrow> Ret (Reconnecting (Rec_missed mr t), w'))"
| "Reconnect_step e order busy (Rec_missed mr t) w =
     Ret (Reconnecting (Rec_send mr (order (GetMissedMessages (disconnect_time (participant mr)) t (log w)))), w)"
| "Reconnect_step e order busy (Rec_send mr []) w = Ret (Closing, w)"
| "Reconnect_step e order busy (Rec_send mr (m # ms)) w =
     (case SendMessage e mr m w of (ok, w') \<Rightarrow> Ret (if ok then Reconnecting (Rec_send mr ms) else Closing, w'))"

fun Multicast_step :: "coord_env \<Rightarrow> multicast_pc \<Rightarrow> coord \<Rightarrow> (coord_pc \<times> coord) outcome" where
  "Multicast_step e (Mul_participant text i) w =
     Ret (Multicasting (Mul_push \<lparr>msg = text, timestamp = 0, participant_id = pid (DetermineParticipant i w)\<rparr>), w)"
| "Multicast_step e (Mul_push m) w =
     obind (Push m (msg_queue w)) (\<lambda>q. Ret (Multicasting Mul_pop, w\<lparr>msg_queue := q\<rparr>))"
| "Multicast_step e Mul_pop w =
     obind (Pop (msg_queue w)) (\<lambda>(m, q). Ret (Multicasting (Mul_begin m), w\<lparr>msg_queue := q\<rparr>))"
| "Multicast_step e (Mul_begin m) w = Ret (Multicasting (Mul_loop (messengers w) False m), w)"
| "Multicast_step e (Mul_loop [] is_logged m) w = Ret (Closing, w)"
| "Multicast_step e (Mul_loop (mr # mrs) is_logged m) w =
     Ret (Multicasting (if PM_IsConnected (participant mr) (pm w) then Mul_send mr mrs is_logged m
                        else Mul_loop mrs is_logged m), w)"
| "Multicast_step e (Mul_send mr mrs is_logged m) w =
     Ret (Multicasting (if is_logged then Mul_loop mrs True m else Mul_log mrs m), snd (SendMessage e mr m w))"
| "Multicast_step e (Mul_log mrs m) w =
     (case now e w of (t, w') \<Rightarrow> Ret (Multicasting (Mul_insert mrs (m\<lparr>timestamp := t\<rparr>)), w'))"
| "Multicast_step e (Mul_insert mrs m) w =
     Ret (Multicasting (Mul_loop mrs True m), w\<lparr>log := Log_Insert m (log w)\<rparr>)"

text \<open>\<open>DispatchMessage\<close>: the first step of the handler of a message.\<close>

fun dispatch_pc :: "CoordinatorMessage \<Rightarrow> coord_pc" where
  "dispatch_pc (Register port) = Registering (Reg_load port False)"
| "dispatch_pc (Deregister i) = Removing (Rem_participant Deregistering i)"
| "dispatch_pc (Disconnect i) = Removing (Rem_participant Disconnecting i)"
| "dispatch_pc (Reconnect port i) = Reconnecting (Rec_participant i)"
| "dispatch_pc (SendMulticast text i) = Multicasting (Mul_participant text i)"
| "dispatch_pc NoMessage = Finished False"

definition Read_step :: "coord_env \<Rightarrow> int \<Rightarrow> coord \<Rightarrow> (coord_pc \<times> coord) outcome" where
  "Read_step e client_fd w =
     (case conns w client_fd of
        None \<Rightarrow> Ret (Finished False, w)
      | Some s \<Rightarrow>
          obind (Coordinator_ReadNextMessage e s) (\<lambda>(st, m, s').
            Ret (case m of None \<Rightarrow> Finished (st \<noteq> ERROR) | Some message \<Rightarrow> dispatch_pc message,
                 w\<lparr>conns := (conns w)(client_fd \<mapsto> s')\<rparr>)))"

definition Coordinator_step ::
  "coord_env \<Rightarrow> (Message set \<Rightarrow> Message list) \<Rightarrow> (u32 set \<Rightarrow> u32 list) \<Rightarrow> bool \<Rightarrow> int \<Rightarrow> string \<Rightarrow>
   coord_pc \<Rightarrow> coord \<Rightarrow> (coord_pc \<times> coord) outcome" where
  "Coordinator_step e order scan busy client_fd host pc w =
     (case pc of
        Reading \<Rightarrow> Read_step e client_fd w
      | Registering r \<Rightarrow> Register_step e scan busy client_fd host r w
      | Removing r \<Rightarrow> Remove_step e busy r w
      | Reconnecting r \<Rightarrow> Reconnect_step e order busy r w
      | Multicasting r \<Rightarrow> Multicast_step e r w
      | Closing \<Rightarrow> Ret (Finished True, fd_close client_fd w)
      | Finished ok \<Rightarrow> Block)"

text \<open>
  The actions of the program: the driver accepts a connection and starts a thread, or a thread
  takes its next step.
\<close>

datatype coord_action = Accept int string sock | Run nat

definition busy_for :: "nat \<Rightarrow> coord_sys \<Rightarrow> bool" where
  "busy_for t s \<longleftrightarrow> list_ex (\<lambda>(u, c). u \<noteq> t \<and> iterating (c_pc c)) (enumerate 0 (threads s))"

definition thread_step ::
  "coord_env \<Rightarrow> (Message set \<Rightarrow> Message list) \<Rightarrow> (u32 set \<Rightarrow> u32 list) \<Rightarrow> nat \<Rightarrow> coord_sys \<Rightarrow> coord_sys outcome" where
  "thread_step e order scan t s =
     (if t < length (threads s)
      then let c = threads s ! t
           in obind (Coordinator_step e order scan (busy_for t s) (c_client_fd c) (c_hostname c) (c_pc c) (shared s))
                (\<lambda>(pc, w). Ret (s\<lparr>shared := w, threads := (threads s)[t := c\<lparr>c_pc := pc\<rparr>]\<rparr>))
      else Block)"

definition coord_act ::
  "coord_env \<Rightarrow> (Message set \<Rightarrow> Message list) \<Rightarrow> (u32 set \<Rightarrow> u32 list) \<Rightarrow> coord_action \<Rightarrow> coord_sys \<Rightarrow> coord_sys outcome" where
  "coord_act e order scan a s =
     (case a of
        Accept f host x \<Rightarrow>
          Ret (s\<lparr>shared := (if f < 0 then shared s else (shared s)\<lparr>conns := (conns (shared s))(f \<mapsto> x)\<rparr>),
                 threads := threads s @ [new_Coordinator f host]\<rparr>)
      | Run t \<Rightarrow> thread_step e order scan t s)"

fun coord_run ::
  "coord_env \<Rightarrow> (Message set \<Rightarrow> Message list) \<Rightarrow> (u32 set \<Rightarrow> u32 list) \<Rightarrow> coord_action list \<Rightarrow> coord_sys \<Rightarrow> coord_sys outcome" where
  "coord_run e order scan [] s = Ret s"
| "coord_run e order scan (a # as) s = obind (coord_act e order scan a s) (coord_run e order scan as)"

definition new_coord_sys :: "coord \<Rightarrow> coord_sys" where
  "new_coord_sys w = \<lparr>shared = w, threads = []\<rparr>"

lemma coord_run_append:
  "coord_run e order scan (as @ bs) s = obind (coord_run e order scan as s) (coord_run e order scan bs)"
  by (induction as arbitrary: s) (simp_all cong: obind_cong)

section \<open>A request that nobody interrupts\<close>

definition solo ::
  "coord_env \<Rightarrow> (Message set \<Rightarrow> Message list) \<Rightarrow> (u32 set \<Rightarrow> u32 list) \<Rightarrow> int \<Rightarrow> string \<Rightarrow>
   coord_pc \<times> coord \<Rightarrow> coord_pc \<times> coord \<Rightarrow> bool" where
  "solo e order scan f h x y \<longleftrightarrow> Coordinator_step e order scan False f h (fst x) (snd x) = Ret y"

lemma solo_step:
  assumes "case Coordinator_step e order scan False f h pc w of
      Ret y \<Rightarrow> (solo e order scan f h)\<^sup>*\<^sup>* y z | Block \<Rightarrow> False | Crash \<Rightarrow> False"
  shows "(solo e order scan f h)\<^sup>*\<^sup>* (pc, w) z"
  using assms by (auto simp: solo_def split: outcome.splits intro: converse_rtranclp_into_rtranclp)

text \<open>Most handlers end by closing the socket of the client.\<close>

lemma solo_close:
  assumes "(solo e order scan f h)\<^sup>*\<^sup>* x (Closing, w)"
  shows "(solo e order scan f h)\<^sup>*\<^sup>* x (Finished True, fd_close f w)"
  by (rule rtranclp_trans [OF assms], rule solo_step, simp add: Coordinator_step_def)

lemma solo_next:
  assumes "pc \<noteq> Closing"
    and "case Coordinator_step e order scan False f h pc w of
      Ret y \<Rightarrow> (solo e order scan f h)\<^sup>*\<^sup>* y z | Block \<Rightarrow> False | Crash \<Rightarrow> False"
  shows "(solo e order scan f h)\<^sup>*\<^sup>* (pc, w) z"
  using assms(2) by (rule solo_step)

lemma solo_scan:
  "(solo e order scan f h)\<^sup>*\<^sup>* (Registering (Reg_scan port dup is), w)
     (Registering (if last_pid w \<in> set is then Reg_load port True
                   else if is = [] \<and> dup then Reg_load port dup else Reg_return port), w)"
proof (induction "is" arbitrary: dup)
  case Nil
  show ?case by (rule solo_step) (auto simp: Coordinator_step_def)
next
  case (Cons i "is")
  show ?case using Cons.IH [of False] by - (rule solo_step, auto simp: Coordinator_step_def)
qed

lemma solo_GenerateID:
  assumes "Coordinator_GenerateID w = Some y" and "\<And>S. set (scan S) = S"
    and "dup \<longrightarrow> dom (connected_participants (pm w)) \<noteq> {}"
  shows "(solo e order scan f h)\<^sup>*\<^sup>* (Registering (Reg_load port dup), w) (Registering (Reg_return port), snd y) \<and>
    last_pid (snd y) = fst y"
  using assms(1,3)
proof (induction arbitrary: dup rule: Coordinator_GenerateID.raw_induct [rotated, consumes 1, case_names step])
  case (step gen w y)
  let ?w = "w\<lparr>last_pid := last_pid w + 1\<rparr>"
  let ?is = "scan (dom (connected_participants (pm w)))"
  have next_id: "(solo e order scan f h)\<^sup>*\<^sup>* (Registering (Reg_load port dup), w) z"
    if "(solo e order scan f h)\<^sup>*\<^sup>* (Registering (Reg_scan port dup ?is), ?w) z" for z
    using that
    by - (rule solo_step, simp add: Coordinator_step_def, rule solo_step, simp add: Coordinator_step_def,
        rule solo_step, simp add: Coordinator_step_def)
  show ?case
  proof (cases "connected_participants (pm w) (last_pid w + 1) = None")
    case True
    then have "y = (last_pid w + 1, ?w)" using step.hyps by (auto simp: Let_def)
    moreover have "\<not> (?is = [] \<and> dup)"
      using step.prems assms(2) [of "dom (connected_participants (pm w))"] by fastforce
    ultimately show ?thesis
      using next_id [OF solo_scan] True assms(2) by (auto simp: domIff)
  next
    case False
    then have "gen ?w = Some y" using step.hyps by (simp add: Let_def)
    moreover have "dom (connected_participants (pm ?w)) \<noteq> {}" using False by auto
    ultimately have "(solo e order scan f h)\<^sup>*\<^sup>* (Registering (Reg_load port True), ?w)
        (Registering (Reg_return port), snd y) \<and> last_pid (snd y) = fst y"
      using step.IH by blast
    moreover have "last_pid ?w \<in> set ?is" using False assms(2) by auto
    ultimately show ?thesis
      using next_id [OF rtranclp_trans [OF solo_scan]] by simp
  qed
qed

lemma solo_register:
  assumes "HandleRegister e f h port w = Some (st, w')" and "\<And>S. set (scan S) = S"
  shows "(solo e order scan f h)\<^sup>*\<^sup>* (Registering (Reg_load port False), w) (Finished True, w')"
proof -
  obtain i w1 where g: "Coordinator_GenerateID w = Some (i, w1)" "last_pid w1 = i"
    "(solo e order scan f h)\<^sup>*\<^sup>* (Registering (Reg_load port False), w) (Registering (Reg_return port), w1)"
    using assms solo_GenerateID [OF _ assms(2), where dup = False and w = w]
    by (auto simp: HandleRegister_def split: option.splits prod.splits)
  have "(solo e order scan f h)\<^sup>*\<^sup>* (Registering (Reg_return port), w1) (Finished True, w')"
    using assms(1) g(1,2)
    apply -
    apply (rule solo_step, simp add: Coordinator_step_def)
    apply (rule solo_step, simp add: Coordinator_step_def Let_def split: prod.split, intro allI impI)
    apply (rule solo_step, simp add: Coordinator_step_def split: prod.split, intro allI impI conjI)
     apply (rule solo_step, simp add: Coordinator_step_def)
     apply (rule solo_step, simp add: Coordinator_step_def HandleRegister_def Registrar_RegisterParticipant_def Let_def)
    apply (rule solo_step, simp add: Coordinator_step_def HandleRegister_def Registrar_RegisterParticipant_def Let_def)
    done
  then show ?thesis using g(3) by (rule rtranclp_trans [rotated])
qed

lemma solo_deregister:
  "(solo e order scan f h)\<^sup>*\<^sup>* (Removing (Rem_participant Deregistering i), w) (Finished True, snd (HandleDeregister f i w))"
  unfolding HandleDeregister_def Let_def snd_conv Registrar_DeregisterParticipant_def
  by (rule solo_close, (rule solo_next, simp, simp add: Coordinator_step_def)+)

lemma solo_disconnect:
  "(solo e order scan f h)\<^sup>*\<^sup>* (Removing (Rem_participant Disconnecting i), w) (Finished True, snd (HandleDisconnect e f i w))"
  unfolding HandleDisconnect_def Let_def snd_conv
  by (rule solo_close, (rule solo_next, simp, simp add: Coordinator_step_def)+)

lemma solo_send_all:
  "(solo e order scan f h)\<^sup>*\<^sup>* (Reconnecting (Rec_send mr ms), w) (Closing, snd (send_all e mr ms w))"
proof (induction ms arbitrary: w)
  case Nil
  show ?case by (rule solo_step, simp add: Coordinator_step_def)
next
  case (Cons m ms)
  show ?case using Cons.IH [of "snd (SendMessage e mr m w)"]
    by - (rule solo_step, auto simp: Coordinator_step_def split: prod.split)
qed

lemma solo_rejoin:
  assumes "AddMessenger p w = (mr, w1)" and "now e w1 = (t, w2)"
  shows "(solo e order scan f h)\<^sup>*\<^sup>* (Reconnecting (Rec_add p), w) (Closing, snd (SendMissedMessages e order mr t w2))"
  unfolding SendMissedMessages_def using assms solo_send_all
  by - (rule solo_step, simp add: Coordinator_step_def, rule solo_step, simp add: Coordinator_step_def,
      rule solo_step, simp add: Coordinator_step_def)

lemma solo_reconnect:
  "(solo e order scan f h)\<^sup>*\<^sup>* (Reconnecting (Rec_participant i), w) (Finished True, snd (HandleReconnect e order f port i w))"
proof -
  obtain ok p w1 where c: "ConnectToParticipant (DetermineParticipant i w) w = (ok, p, w1)" by (metis prod_cases3)
  define w2 where "w2 = (if ok then w1\<lparr>pm := snd (PM_ReconnectParticipant p (pm w1))\<rparr> else w1)"
  obtain mr w3 where a: "AddMessenger p w2 = (mr, w3)" by fastforce
  obtain t w4 where n: "now e w3 = (t, w4)" by fastforce
  have "(solo e order scan f h)\<^sup>*\<^sup>* (Reconnecting (Rec_connect (DetermineParticipant i w)), w) (Reconnecting (Rec_add p), w2)"
  proof (cases ok)
    case True
    then show ?thesis using c
      by - (rule solo_step, simp add: Coordinator_step_def, rule solo_step, simp add: Coordinator_step_def w2_def)
  next
    case False
    then show ?thesis using c by - (rule solo_step, simp add: Coordinator_step_def w2_def)
  qed
  then have "(solo e order scan f h)\<^sup>*\<^sup>* (Reconnecting (Rec_participant i), w) (Reconnecting (Rec_add p), w2)"
    by - (rule solo_step, simp add: Coordinator_step_def)
  from solo_close [OF rtranclp_trans [OF this solo_rejoin [OF a n]]] show ?thesis
    by (simp add: HandleReconnect_def Registrar_ReconnectParticipant_def c w2_def [symmetric] a n Let_def)
qed

lemma solo_broadcast:
  "(solo e order scan f h)\<^sup>*\<^sup>* (Multicasting (Mul_loop mrs is_logged m), w) (Closing, broadcast_loop e mrs is_logged m w)"
proof (induction mrs arbitrary: is_logged m w)
  case Nil
  show ?case by (rule solo_step, simp add: Coordinator_step_def)
next
  case (Cons mr mrs)
  show ?case
  proof (cases "PM_IsConnected (participant mr) (pm w)")
    case False
    then show ?thesis using Cons.IH [of is_logged m w] by - (rule solo_step, simp add: Coordinator_step_def)
  next
    case True
    show ?thesis
    proof (cases is_logged)
      case True
      then show ?thesis using \<open>PM_IsConnected _ _\<close> Cons.IH [of True m "snd (SendMessage e mr m w)"]
        by - (rule solo_step, simp add: Coordinator_step_def, rule solo_step, simp add: Coordinator_step_def Let_def)
    next
      case False
      let ?w1 = "snd (SendMessage e mr m w)"
      obtain m' w2 where l: "LogMessage e m ?w1 = (m', w2)" by fastforce
      then have "(solo e order scan f h)\<^sup>*\<^sup>* (Multicasting (Mul_log mrs m), ?w1) (Closing, broadcast_loop e mrs True m' w2)"
        using Cons.IH [of True m' w2]
        by - (rule solo_step, simp add: Coordinator_step_def now_def, rule solo_step,
            auto simp: Coordinator_step_def LogMessage_def now_def)
      then show ?thesis using \<open>PM_IsConnected _ _\<close> False
        by - (rule solo_step, simp add: Coordinator_step_def, rule solo_step,
            simp add: Coordinator_step_def Let_def l)
    qed
  qed
qed

lemma solo_multicast:
  assumes "HandleSendMulticast e f text i w = Ret (st, w')"
  shows "(solo e order scan f h)\<^sup>*\<^sup>* (Multicasting (Mul_participant text i), w) (Finished True, w')"
proof -
  let ?m = "\<lparr>msg = text, timestamp = 0, participant_id = pid (DetermineParticipant i w)\<rparr>"
  obtain q m' q' where q: "Push ?m (msg_queue w) = Ret q" "Pop q = Ret (m', q')"
    "w' = fd_close f (broadcast_loop e (messengers w) False m' (w\<lparr>msg_queue := q'\<rparr>))"
    using assms by (auto simp: HandleSendMulticast_def BroadcastMessage_def Let_def obind_eq_Ret)
  have "(solo e order scan f h)\<^sup>*\<^sup>* (Multicasting (Mul_participant text i), w)
      (Closing, broadcast_loop e (messengers w) False m' (w\<lparr>msg_queue := q'\<rparr>))"
    using q(1,2) solo_broadcast [of e order scan f h "messengers w" False m' "w\<lparr>msg_queue := q'\<rparr>"]
    by - (rule solo_step, simp add: Coordinator_step_def, rule solo_step, simp add: Coordinator_step_def,
        rule solo_step, simp add: Coordinator_step_def, rule solo_step, simp add: Coordinator_step_def)
  from solo_close [OF this] show ?thesis by (simp add: q(3))
qed

lemma solo_dispatch:
  assumes "Coordinator_DispatchMessage e order f h m w = Some (Ret (st, w'))" and "\<And>S. set (scan S) = S"
  shows "(solo e order scan f h)\<^sup>*\<^sup>* (dispatch_pc m, w) (Finished (st \<noteq> ERROR), w')"
proof (cases m)
  case (Register port)
  then have "HandleRegister e f h port w = Some (st, w')"
    using assms(1) by (auto simp: Coordinator_DispatchMessage_def)
  moreover from this have "st = ACTIVE"
    by (auto simp: HandleRegister_def Let_def split: option.splits prod.splits)
  ultimately show ?thesis using solo_register [OF _ assms(2)] Register by simp
next
  case (SendMulticast body i)
  then have "HandleSendMulticast e f body i w = Ret (st, w')"
    using assms(1) by (auto simp: Coordinator_DispatchMessage_def)
  moreover from this have "st = ACTIVE" by (auto simp: HandleSendMulticast_def Let_def obind_eq_Ret)
  ultimately show ?thesis using solo_multicast SendMulticast by simp
next
  case (Deregister i)
  then show ?thesis using assms(1) solo_deregister [of e order scan f h i w]
    by (auto simp: Coordinator_DispatchMessage_def HandleDeregister_def Let_def)
next
  case (Disconnect i)
  then show ?thesis using assms(1) solo_disconnect [of e order scan f h i w]
    by (auto simp: Coordinator_DispatchMessage_def HandleDisconnect_def Let_def)
next
  case (Reconnect port i)
  then show ?thesis using assms(1) solo_reconnect [of e order scan f h i w port]
    by (auto simp: Coordinator_DispatchMessage_def HandleReconnect_def Let_def split: prod.splits)
next
  case NoMessage
  then show ?thesis using assms(1) by (auto simp: Coordinator_DispatchMessage_def)
qed

lemma solo_coordinate:
  assumes "Coordinate e order f h w = Some (Ret (ok, w'))" and "\<And>S. set (scan S) = S"
  shows "(solo e order scan f h)\<^sup>*\<^sup>* (Reading, w) (Finished ok, w')"
proof (cases "conns w f")
  case None
  then show ?thesis using assms(1)
    by - (rule solo_step, auto simp: Coordinator_step_def Read_step_def Coordinate_def)
next
  case (Some s)
  then obtain st m s' where r: "Coordinator_ReadNextMessage e s = Ret (st, m, s')"
    using assms(1) by (auto simp: Coordinate_def split: outcome.splits)
  let ?w = "w\<lparr>conns := (conns w)(f \<mapsto> s')\<rparr>"
  show ?thesis
  proof (cases m)
    case None
    then show ?thesis using assms(1) Some r
      by - (rule solo_step, auto simp: Coordinator_step_def Read_step_def Coordinate_def Let_def)
  next
    case (Some message)
    then obtain st' where d: "Coordinator_DispatchMessage e order f h message ?w = Some (Ret (st', w'))" "ok = (st' \<noteq> ERROR)"
      using assms(1) \<open>conns w f = Some s\<close> r
      by (auto simp: Coordinate_def Let_def obind_eq_Ret split: option.splits)
    have "(solo e order scan f h)\<^sup>*\<^sup>* (dispatch_pc message, ?w) (Finished ok, w')"
      using solo_dispatch [OF d(1) assms(2)] d(2) by simp
    then show ?thesis using Some \<open>conns w f = Some s\<close> r
      by - (rule solo_step, simp add: Coordinator_step_def Read_step_def)
  qed
qed

text \<open>The steps of one thread, when no other one is inside a pass over the messengers.\<close>

lemma busy_for_update [simp]: "busy_for t (s\<lparr>shared := w, threads := (threads s)[t := c]\<rparr>) = busy_for t s"
  by (auto simp: busy_for_def list_ex_iff in_set_enumerate_eq nth_list_update)

lemma solo_run:
  assumes "(solo e order scan f h)\<^sup>*\<^sup>* x y" and "t < length (threads s)" and "\<not> busy_for t s"
    and "threads s ! t = \<lparr>c_client_fd = f, c_hostname = h, c_pc = fst x\<rparr>" and "shared s = snd x"
  shows "\<exists>n. coord_run e order scan (replicate n (Run t)) s =
    Ret (s\<lparr>shared := snd y, threads := (threads s)[t := \<lparr>c_client_fd = f, c_hostname = h, c_pc = fst y\<rparr>]\<rparr>)"
  using assms
proof (induction arbitrary: s rule: converse_rtranclp_induct)
  case base
  then have "(threads s)[t := \<lparr>c_client_fd = f, c_hostname = h, c_pc = fst y\<rparr>] = threads s"
    by (metis list_update_id)
  then show ?case using base by (intro exI [of _ 0]) (cases s, simp)
next
  case (step x z)
  let ?c = "\<lparr>c_client_fd = f, c_hostname = h, c_pc = fst z\<rparr>"
  let ?s = "s\<lparr>shared := snd z, threads := (threads s)[t := ?c]\<rparr>"
  have z: "thread_step e order scan t s = Ret ?s"
    using step.hyps(1) step.prems by (cases z) (simp add: thread_step_def solo_def Let_def)
  obtain n where "coord_run e order scan (replicate n (Run t)) ?s =
      Ret (s\<lparr>shared := snd y, threads := (threads s)[t := \<lparr>c_client_fd = f, c_hostname = h, c_pc = fst y\<rparr>]\<rparr>)"
    using step.IH [of ?s] step.prems by auto
  then show ?case using z by (intro exI [of _ "Suc n"]) (simp add: coord_act_def)
qed

section \<open>The invariant of all interleavings\<close>

text \<open>
  The participant for which a thread is about to add a messenger, and the messenger it is about
  to delete, by its id.
\<close>

fun adds :: "coord_pc \<Rightarrow> Participant option" where
  "adds (Registering (Reg_add p)) = Some p"
| "adds (Reconnecting (Rec_add p)) = Some p"
| "adds _ = None"

fun dooms :: "coord_pc \<Rightarrow> nat option" where
  "dooms (Removing (Rem_close p mr)) = map_option mid mr"
| "dooms (Removing (Rem_delete mr)) = map_option mid mr"
| "dooms _ = None"

definition undoomed :: "coordinator list \<Rightarrow> nat \<Rightarrow> bool" where
  "undoomed ths n \<longleftrightarrow> (\<forall>c \<in> set ths. dooms (c_pc c) \<noteq> Some n)"

text \<open>Participant \<open>i\<close> has a messenger that stays, or is about to get one.\<close>

definition served :: "coord \<Rightarrow> coordinator list \<Rightarrow> u32 \<Rightarrow> bool" where
  "served w ths i \<longleftrightarrow>
     (\<exists>c \<in> set ths. \<exists>p. adds (c_pc c) = Some p \<and> pid p = i) \<or>
     (\<exists>mr \<in> set (messengers w). pid (participant mr) = i \<and> undoomed ths (mid mr))"

text \<open>What holds where a thread is.\<close>

fun pc_ok :: "coord \<Rightarrow> coord_pc \<Rightarrow> bool" where
  "pc_ok w (Registering (Reg_connect p)) \<longleftrightarrow> connected p"
| "pc_ok w (Registering (Reg_manager p)) \<longleftrightarrow> connected p"
| "pc_ok w (Removing (Rem_copy k i p)) \<longleftrightarrow> pid p = i"
| "pc_ok w (Removing (Rem_copying k i p)) \<longleftrightarrow> pid p = i"
| "pc_ok w (Removing (Rem_manager k p (Some m))) \<longleftrightarrow>
     pid (participant m) = pid p \<and> mid m < next_mid w \<and> (\<forall>x \<in> set (messengers w). mid x = mid m \<longrightarrow> x = m)"
| "pc_ok w (Removing (Rem_close p (Some m))) \<longleftrightarrow> mid m < next_mid w"
| "pc_ok w (Removing (Rem_delete (Some m))) \<longleftrightarrow> mid m < next_mid w"
| "pc_ok w _ \<longleftrightarrow> True"

definition mids_ok :: "coord \<Rightarrow> bool" where
  "mids_ok w \<longleftrightarrow> distinct (map mid (messengers w)) \<and> (\<forall>mr \<in> set (messengers w). mid mr < next_mid w)"

definition popping :: "coordinator list \<Rightarrow> nat" where
  "popping ths = length (filter (\<lambda>c. c_pc c = Multicasting Mul_pop) ths)"

definition threads_inv :: "coord \<Rightarrow> coordinator list \<Rightarrow> bool" where
  "threads_inv w ths \<longleftrightarrow>
     pm_inv (pm w) \<and> mids_ok w \<and> (\<forall>c \<in> set ths. pc_ok w (c_pc c)) \<and>
     (\<forall>i. connected_participants (pm w) i \<noteq> None \<longrightarrow> served w ths i) \<and>
     max_length (msg_queue w) = 0 \<and> length (queue (msg_queue w)) = popping ths"

text \<open>A request to leave finds the participant it names.\<close>

fun lookup_found :: "coord \<Rightarrow> coord_pc \<Rightarrow> bool" where
  "lookup_found w (Removing (Rem_participant k i)) \<longleftrightarrow> id_to_participant (pm w) i \<noteq> None"
| "lookup_found w _ \<longleftrightarrow> True"

text \<open>How the shared structures change in a step, as far as the other threads rely on it.\<close>

lemma same_shared_SendRegistrationResponse [simp]:
  "same_shared w (snd (SendRegistrationResponse e f p w))"
  by (simp add: SendRegistrationResponse_def split: prod.splits)

lemma same_shared_SendMessage [simp]: "same_shared w (snd (SendMessage e mr m w))"
  by (simp add: SendMessage_def)

lemma mids_ok_same: "same_shared w w' \<Longrightarrow> mids_ok w' = mids_ok w"
  by (simp add: mids_ok_def same_shared_def)

lemma pc_ok_same: "same_shared w w' \<Longrightarrow> pc_ok w' pc = pc_ok w pc"
  by (cases "(w, pc)" rule: pc_ok.cases) (simp_all add: same_shared_def)

lemma pc_ok_pm [simp]: "pc_ok (w\<lparr>pm := m\<rparr>) pc = pc_ok w pc"
  by (cases "(w, pc)" rule: pc_ok.cases) simp_all

text \<open>
  The kinds of step, by what they do to the participants, the messengers and the queue: what a
  thread guarantees to the others.
\<close>

abbreviation "at_pop pc \<equiv> pc = Multicasting Mul_pop"

inductive guarantee :: "coord_pc \<Rightarrow> coord \<Rightarrow> coord_pc \<Rightarrow> coord \<Rightarrow> bool" where
  quiet: "\<lbrakk>same_shared w w'; adds pc = None; dooms pc' = None \<or> dooms pc' = dooms pc; \<not> at_pop pc; \<not> at_pop pc';
     pc_ok w' pc'\<rbrakk> \<Longrightarrow> guarantee pc w pc' w'"
| join: "\<lbrakk>pm_inv m; dom (connected_participants m) \<subseteq> insert (pid p) (dom (connected_participants (pm w)));
     adds pc = None; adds pc' = Some p; \<not> at_pop pc\<rbrakk> \<Longrightarrow> guarantee pc w pc' (w\<lparr>pm := m\<rparr>)"
| leave: "\<lbrakk>pm_inv m; dom (connected_participants m) \<subseteq> dom (connected_participants (pm w)) - {pid p};
     same_shared (w\<lparr>pm := m\<rparr>) w'; adds pc = None; dooms pc' = map_option mid mr; \<not> at_pop pc; \<not> at_pop pc';
     pc_ok w (Removing (Rem_manager k p mr)); pc_ok w' pc'\<rbrakk> \<Longrightarrow> guarantee pc w pc' w'"
| add: "\<lbrakk>adds pc = Some p; dooms pc' = None; \<not> at_pop pc; \<not> at_pop pc'; \<And>w. pc_ok w pc'\<rbrakk> \<Longrightarrow>
     guarantee pc w pc' (snd (AddMessenger p w))"
| delete: "guarantee (Removing (Rem_delete mr)) w Closing (DeleteMessenger mr w)"
| push: "guarantee (Multicasting (Mul_push m)) w (Multicasting Mul_pop)
     (w\<lparr>msg_queue := (msg_queue w)\<lparr>queue := queue (msg_queue w) @ [m]\<rparr>\<rparr>)"
| pop: "queue (msg_queue w) = m # ms \<Longrightarrow> guarantee (Multicasting Mul_pop) w (Multicasting (Mul_begin m))
     (w\<lparr>msg_queue := (msg_queue w)\<lparr>queue := ms\<rparr>\<rparr>)"

lemma Register_guarantee:
  assumes "Register_step e scan busy f h r w = Ret (pc', w')" and "pm_inv (pm w)" and "pc_ok w (Registering r)"
  shows "guarantee (Registering r) w pc' w'"
proof (cases r)
  case (Reg_scan port dup "is")
  then show ?thesis using assms(1) by (cases "is") (auto intro!: quiet)
next
  case (Reg_respond port i)
  obtain t w1 where n: "now e w = (t, w1)" by fastforce
  then have "same_shared w w1" by (auto simp: now_def same_shared_def)
  then show ?thesis using assms(1) Reg_respond n
      same_shared_trans [OF same_shared_trans [OF _ same_shared_SendRegistrationResponse] same_shared_fd_close]
    by (auto simp: Let_def intro!: quiet)
next
  case (Reg_connect p)
  obtain ok p' w1 where c: "ConnectToParticipant p w = (ok, p', w1)" by (metis prod_cases3)
  then show ?thesis using assms Reg_connect ConnectToParticipant_shared [OF c] by (auto intro!: quiet)
next
  case (Reg_manager p)
  have "dom (connected_participants (PM_RegisterParticipant p (pm w))) \<subseteq>
      insert (pid p) (dom (connected_participants (pm w)))"
    by (auto simp: PM_RegisterParticipant_def set_insert_def)
  then show ?thesis using assms Reg_manager by (auto intro!: join [where p = p] pm_inv_Register)
next
  case (Reg_add p)
  then show ?thesis using assms(1) by (auto intro!: add [where p = p] split: if_splits)
qed (use assms(1) in \<open>auto simp: same_shared_def intro!: quiet\<close>)

lemma Reconnect_guarantee:
  assumes "Reconnect_step e order busy r w = Ret (pc', w')" and "pm_inv (pm w)"
  shows "guarantee (Reconnecting r) w pc' w'"
proof (cases r)
  case (Rec_connect p)
  obtain ok p' w1 where c: "ConnectToParticipant p w = (ok, p', w1)" by (metis prod_cases3)
  then show ?thesis using assms Rec_connect ConnectToParticipant_shared [OF c] by (auto intro!: quiet)
next
  case (Rec_manager p)
  have "dom (connected_participants (snd (PM_ReconnectParticipant p (pm w)))) \<subseteq>
      insert (pid p) (dom (connected_participants (pm w)))"
    using assms(2)
    by (auto simp: PM_ReconnectParticipant_def set_insert_def Let_def pm_inv_def split: option.splits if_splits)
  then show ?thesis using assms Rec_manager by (auto intro!: join [where p = p] pm_inv_Reconnect)
next
  case (Rec_add p)
  obtain mr w1 where a: "AddMessenger p w = (mr, w1)" by fastforce
  then have "guarantee (Reconnecting (Rec_add p)) w (Reconnecting (Rec_now mr)) (snd (AddMessenger p w))"
    by (intro add) auto
  then show ?thesis using assms(1) Rec_add a by (auto split: if_splits)
next
  case (Rec_send mr ms)
  obtain ok w1 where "SendMessage e mr (hd ms) w = (ok, w1)" by fastforce
  moreover from this have "same_shared w w1" using same_shared_SendMessage [of w e mr "hd ms"] by simp
  ultimately show ?thesis using assms(1) Rec_send by (cases ms) (auto intro!: quiet split: if_splits)
qed (use assms(1) in \<open>auto simp: now_def same_shared_def intro!: quiet\<close>)

lemma Multicast_guarantee:
  assumes "Multicast_step e r w = Ret (pc', w')" and "max_length (msg_queue w) = 0"
  shows "guarantee (Multicasting r) w pc' w'"
proof (cases r)
  case (Mul_push m)
  then show ?thesis using assms by (auto intro: push)
next
  case Mul_pop
  then show ?thesis using assms(1) by (cases "queue (msg_queue w)") (auto simp: Pop_def intro: pop)
next
  case (Mul_loop mrs is_logged m)
  then show ?thesis using assms(1) by (cases mrs) (auto intro!: quiet split: if_splits)
next
  case (Mul_send mr mrs is_logged m)
  then show ?thesis using assms(1) by (auto intro!: quiet split: if_splits)
qed (use assms(1) in \<open>auto simp: now_def same_shared_def intro!: quiet\<close>)

lemma DetermineMessenger_ok:
  assumes "mids_ok w" and "DetermineMessenger i w = Some m"
  shows "pid (participant m) = i \<and> mid m < next_mid w \<and> (\<forall>x \<in> set (messengers w). mid x = mid m \<longrightarrow> x = m)"
proof -
  have "m \<in> set (messengers w)" "pid (participant m) = i"
    using assms(2) by (auto simp: DetermineMessenger_def find_Some_iff)
  then show ?thesis using assms(1) by (auto simp: mids_ok_def distinct_map dest: inj_onD)
qed

lemma Remove_manager_guarantee:
  assumes "pm_inv (pm w)" and "pc_ok w (Removing (Rem_manager k p mr))"
    and "Remove_step e busy (Rem_manager k p mr) w = Ret (pc', w')"
  shows "guarantee (Removing (Rem_manager k p mr)) w pc' w'"
proof (cases k)
  case Deregistering
  let ?m = "PM_DeregisterParticipant p (pm w)"
  have "dom (connected_participants ?m) \<subseteq> dom (connected_participants (pm w)) - {pid p}"
    by (auto simp: PM_DeregisterParticipant_def split: if_splits)
  then show ?thesis using assms Deregistering
    by (cases mr) (auto intro!: leave [where m = ?m and p = p and k = k and mr = mr] pm_inv_Deregister)
next
  case Disconnecting
  let ?m = "snd (PM_DisconnectParticipant (clock e (reads w)) p (pm w))"
  have "dom (connected_participants ?m) \<subseteq> dom (connected_participants (pm w)) - {pid p}"
    by (auto simp: PM_DisconnectParticipant_def Let_def split: if_splits)
  moreover have "same_shared (w\<lparr>pm := ?m\<rparr>) w'"
    using assms(3) Disconnecting
    by (auto simp: Registrar_DisconnectParticipant_def PM_DisconnectParticipant_def same_shared_def now_def Let_def)
  ultimately show ?thesis using assms Disconnecting pc_ok_same
    by (cases mr) (auto intro!: leave [where m = ?m and p = p and k = k and mr = mr] pm_inv_Disconnect simp: same_shared_def)
qed

lemma Remove_guarantee:
  assumes "Remove_step e busy r w = Ret (pc', w')" and "pm_inv (pm w)" and "mids_ok w"
    and "pc_ok w (Removing r)" and "lookup_found w (Removing r)"
  shows "guarantee (Removing r) w pc' w'"
proof (cases r)
  case (Rem_participant k i)
  then have "pid (DetermineParticipant i w) = i" using assms(2,5) DetermineParticipant_pid by fastforce
  then show ?thesis using assms(1) Rem_participant by (auto intro!: quiet)
next
  case (Rem_copying k i p)
  have "pc_ok w (Removing (Rem_manager k p (DetermineMessenger i w)))"
    using DetermineMessenger_ok [OF assms(3)] assms(4) Rem_copying by (cases "DetermineMessenger i w") auto
  then show ?thesis using assms(1) Rem_copying by (auto intro!: quiet)
next
  case (Rem_manager k p mr)
  then show ?thesis using Remove_manager_guarantee assms(1,2,4) by simp
next
  case (Rem_close p mr)
  then show ?thesis using assms(1,4) by (cases mr) (auto simp: fd_close_def same_shared_def intro!: quiet)
next
  case (Rem_delete mr)
  then show ?thesis using assms(1) by (auto split: if_splits intro: delete)
qed (use assms(1,4) in \<open>auto intro!: quiet\<close>)

lemma dispatch_pc_start [simp]:
  "adds (dispatch_pc m) = None" "dooms (dispatch_pc m) = None" "\<not> at_pop (dispatch_pc m)" "pc_ok w (dispatch_pc m)"
  by (cases m; simp)+

lemma step_guarantee:
  assumes "Coordinator_step e order scan busy f h pc w = Ret (pc', w')" and "threads_inv w ths" and "pc_ok w pc"
    and "lookup_found w pc"
  shows "guarantee pc w pc' w'"
proof (cases pc)
  case Reading
  have "guarantee Reading w pc' w'"
    using assms(1) Reading
    by (auto simp: Coordinator_step_def Read_step_def obind_eq_Ret same_shared_def split: option.splits intro!: quiet)
  then show ?thesis using Reading by simp
next
  case (Registering r)
  then show ?thesis using Register_guarantee assms by (auto simp: Coordinator_step_def threads_inv_def)
next
  case (Removing r)
  then show ?thesis using Remove_guarantee assms by (auto simp: Coordinator_step_def threads_inv_def)
next
  case (Reconnecting r)
  then show ?thesis using Reconnect_guarantee assms by (auto simp: Coordinator_step_def threads_inv_def)
next
  case (Multicasting r)
  then show ?thesis using Multicast_guarantee assms by (auto simp: Coordinator_step_def threads_inv_def)
qed (use assms(1) in \<open>auto simp: Coordinator_step_def intro!: quiet\<close>)

text \<open>A thread that takes a step leaves the other threads where they are.\<close>

lemma served_update:
  assumes "served w ths i" and "t < length ths"
    and "\<And>mr. \<lbrakk>mr \<in> set (messengers w); pid (participant mr) = i; dooms (c_pc (ths ! t)) \<noteq> Some (mid mr)\<rbrakk> \<Longrightarrow>
      mr \<in> set (messengers w') \<and> dooms (c_pc c) \<noteq> Some (mid mr)"
    and "\<And>p. adds (c_pc (ths ! t)) = Some p \<Longrightarrow> pid p = i \<Longrightarrow> served w' (ths[t := c]) i"
  shows "served w' (ths[t := c]) i"
  using assms(1) unfolding served_def
proof (elim disjE bexE exE conjE)
  fix d p
  assume d: "d \<in> set ths" "adds (c_pc d) = Some p" "pid p = i"
  then obtain u where u: "u < length ths" "ths ! u = d" by (metis in_set_conv_nth)
  have "served w' (ths[t := c]) i"
  proof (cases "u = t")
    case True
    then show ?thesis using assms(4) d u by auto
  next
    case False
    then have "d \<in> set (ths[t := c])" using u by (metis length_list_update nth_list_update_neq nth_mem)
    then show ?thesis using d by (auto simp: served_def)
  qed
  then show "(\<exists>c \<in> set (ths[t := c]). \<exists>p. adds (c_pc c) = Some p \<and> pid p = i) \<or>
      (\<exists>mr \<in> set (messengers w'). pid (participant mr) = i \<and> undoomed (ths[t := c]) (mid mr))"
    by (simp add: served_def)
next
  fix mr
  assume mr: "mr \<in> set (messengers w)" "pid (participant mr) = i" "undoomed ths (mid mr)"
  then have "dooms (c_pc (ths ! t)) \<noteq> Some (mid mr)" using assms(2) by (auto simp: undoomed_def)
  then have "mr \<in> set (messengers w')" "dooms (c_pc c) \<noteq> Some (mid mr)" using assms(3) mr by blast+
  moreover from this have "undoomed (ths[t := c]) (mid mr)"
    using mr(3) set_update_subset_insert [of ths t c] by (auto simp: undoomed_def)
  ultimately show "(\<exists>c \<in> set (ths[t := c]). \<exists>p. adds (c_pc c) = Some p \<and> pid p = i) \<or>
      (\<exists>mr \<in> set (messengers w'). pid (participant mr) = i \<and> undoomed (ths[t := c]) (mid mr))"
    using mr(2) by blast
qed

lemma served_by_update: "t < length ths \<Longrightarrow> adds (c_pc c) = Some p \<Longrightarrow> served w (ths[t := c]) (pid p)"
  by (auto simp: served_def intro!: disjI1 bexI [of _ c] set_update_memI)

lemma popping_update:
  assumes "t < length ths"
  shows "popping (ths[t := c]) + (if at_pop (c_pc (ths ! t)) then 1 else 0) =
    popping ths + (if at_pop (c_pc c) then 1 else 0)"
proof -
  have "ths = take t ths @ ths ! t # drop (Suc t) ths" using assms by (simp add: id_take_nth_drop)
  then have "popping ths = popping (take t ths @ ths ! t # drop (Suc t) ths)" by simp
  then show ?thesis using assms by (simp add: upd_conv_take_nth_drop popping_def)
qed

lemma pcs_ok_update:
  assumes "\<forall>c \<in> set ths. pc_ok w (c_pc c)" and "pc_ok w' (c_pc c)" and "\<And>pc. pc_ok w pc \<Longrightarrow> pc_ok w' pc"
  shows "\<forall>c \<in> set (ths[t := c]). pc_ok w' (c_pc c)"
  using assms set_update_subset_insert [of ths t c] by blast

lemma adds_facts: "adds pc = Some p \<Longrightarrow> pc_ok w pc \<and> dooms pc = None \<and> \<not> at_pop pc"
  by (cases pc rule: adds.cases) auto

lemma dooms_bound: "pc_ok w pc \<Longrightarrow> dooms pc = Some n \<Longrightarrow> n < next_mid w"
  by (cases pc rule: dooms.cases) auto

lemma pc_ok_mono:
  assumes "pc_ok w pc" and "next_mid w \<le> next_mid w'"
    and "\<And>x. x \<in> set (messengers w') \<Longrightarrow> x \<in> set (messengers w) \<or> next_mid w \<le> mid x"
  shows "pc_ok w' pc"
  using assms by (cases "(w, pc)" rule: pc_ok.cases) (auto, fastforce+)

lemma quiet_inv:
  assumes "threads_inv w ths" and "t < length ths" and "same_shared w w'" and "adds (c_pc (ths ! t)) = None"
    and "dooms (c_pc c) = None \<or> dooms (c_pc c) = dooms (c_pc (ths ! t))"
    and "\<not> at_pop (c_pc (ths ! t))" and "\<not> at_pop (c_pc c)" and "pc_ok w' (c_pc c)"
  shows "threads_inv w' (ths[t := c])"
proof -
  have "served w' (ths[t := c]) i" if "connected_participants (pm w) i \<noteq> None" for i
    using assms(1,3-5) that by - (rule served_update [where w = w, OF _ assms(2)], auto simp: threads_inv_def same_shared_def)
  moreover have "\<forall>c \<in> set (ths[t := c]). pc_ok w' (c_pc c)"
    using assms(1,8) pc_ok_same [OF assms(3)] by (intro pcs_ok_update [of _ w]) (auto simp: threads_inv_def)
  ultimately show ?thesis
    using assms(1,3,6,7) popping_update [OF assms(2), of c]
    by (simp add: threads_inv_def mids_ok_def same_shared_def)
qed

lemma join_inv:
  assumes "threads_inv w ths" and "t < length ths" and "pm_inv m"
    and "dom (connected_participants m) \<subseteq> insert (pid p) (dom (connected_participants (pm w)))"
    and "adds (c_pc (ths ! t)) = None" and "adds (c_pc c) = Some p" and "\<not> at_pop (c_pc (ths ! t))"
  shows "threads_inv (w\<lparr>pm := m\<rparr>) (ths[t := c])"
proof -
  have c: "pc_ok w (c_pc c)" "dooms (c_pc c) = None" "\<not> at_pop (c_pc c)" using adds_facts [OF assms(6)] by auto
  have "served (w\<lparr>pm := m\<rparr>) (ths[t := c]) i" if "connected_participants m i \<noteq> None" for i
  proof (cases "i = pid p")
    case True
    then show ?thesis using served_by_update [OF assms(2,6)] by simp
  next
    case False
    then have "connected_participants (pm w) i \<noteq> None" using assms(4) that by auto
    then show ?thesis using assms(1,5) c(2)
      by - (rule served_update [where w = w, OF _ assms(2)], auto simp: threads_inv_def)
  qed
  moreover have "\<forall>c \<in> set (ths[t := c]). pc_ok (w\<lparr>pm := m\<rparr>) (c_pc c)"
    using assms(1) c(1) by (intro pcs_ok_update [of _ w]) (auto simp: threads_inv_def)
  ultimately show ?thesis
    using assms(1,3,7) c(3) popping_update [OF assms(2), of c] by (simp add: threads_inv_def mids_ok_def)
qed

lemma leave_inv:
  assumes "threads_inv w ths" and "t < length ths" and "pm_inv m"
    and "dom (connected_participants m) \<subseteq> dom (connected_participants (pm w)) - {pid p}"
    and "same_shared (w\<lparr>pm := m\<rparr>) w'" and "adds (c_pc (ths ! t)) = None" and "dooms (c_pc c) = map_option mid mr"
    and "\<not> at_pop (c_pc (ths ! t))" and "\<not> at_pop (c_pc c)"
    and "pc_ok w (Removing (Rem_manager k p mr))" and "pc_ok w' (c_pc c)"
  shows "threads_inv w' (ths[t := c])"
proof -
  have w': "pm w' = m" "messengers w' = messengers w" "next_mid w' = next_mid w" "msg_queue w' = msg_queue w"
    using assms(5) by (simp_all add: same_shared_def)
  have "served w' (ths[t := c]) i" if "connected_participants m i \<noteq> None" for i
  proof (rule served_update [OF _ assms(2)])
    have i: "i \<noteq> pid p" "connected_participants (pm w) i \<noteq> None" using assms(4) that by auto
    then show "served w ths i" using assms(1) by (simp add: threads_inv_def)
    show "mr' \<in> set (messengers w') \<and> dooms (c_pc c) \<noteq> Some (mid mr')"
      if "mr' \<in> set (messengers w)" "pid (participant mr') = i" for mr'
      using that i(1) assms(7,10) w'(2) by (cases mr) auto
  qed (use assms(6) in simp)
  moreover have "\<forall>c \<in> set (ths[t := c]). pc_ok w' (c_pc c)"
    using assms(1,11) pc_ok_same [OF assms(5)] by (intro pcs_ok_update [of _ w]) (auto simp: threads_inv_def)
  ultimately show ?thesis
    using assms(1,3,8,9) w' popping_update [OF assms(2), of c] by (simp add: threads_inv_def mids_ok_def)
qed

lemma add_inv:
  assumes "threads_inv w ths" and "t < length ths" and "adds (c_pc (ths ! t)) = Some p" and "dooms (c_pc c) = None"
    and "\<not> at_pop (c_pc c)" and "\<And>w. pc_ok w (c_pc c)"
  shows "threads_inv (snd (AddMessenger p w)) (ths[t := c])"
proof -
  let ?mr = "\<lparr>mid = next_mid w, participant = p\<rparr>" and ?w = "snd (AddMessenger p w)"
  have w': "pm ?w = pm w" "messengers ?w = messengers w @ [?mr]" "next_mid ?w = Suc (next_mid w)"
    "msg_queue ?w = msg_queue w" by (simp_all add: AddMessenger_def Let_def)
  have ok: "\<forall>d \<in> set ths. pc_ok w (c_pc d)" "mids_ok w" using assms(1) by (simp_all add: threads_inv_def)
  have "undoomed (ths[t := c]) (next_mid w)"
    using ok(1) assms(4) dooms_bound set_update_subset_insert [of ths t c] by (fastforce simp: undoomed_def)
  then have new: "served ?w (ths[t := c]) (pid p)" using w'(2) by (auto simp: served_def)
  have "served ?w (ths[t := c]) i" if "connected_participants (pm w) i \<noteq> None" for i
    using assms(1,3,4) that new w'(2) by - (rule served_update [where w = w, OF _ assms(2)], auto simp: threads_inv_def)
  moreover have "pc_ok ?w pc" if "pc_ok w pc" for pc by (rule pc_ok_mono [OF that]) (use w' in auto)
  then have "\<forall>c \<in> set (ths[t := c]). pc_ok ?w (c_pc c)"
    using ok(1) assms(6) by (intro pcs_ok_update [of _ w]) auto
  moreover have "mids_ok ?w" using ok(2) w' by (auto simp: mids_ok_def less_Suc_eq)
  moreover have "\<not> at_pop (c_pc (ths ! t))" using adds_facts [OF assms(3)] by simp
  ultimately show ?thesis
    using assms(1,5) w' popping_update [OF assms(2), of c] by (simp add: threads_inv_def)
qed

lemma delete_inv:
  assumes "threads_inv w ths" and "t < length ths" and "c_pc (ths ! t) = Removing (Rem_delete mr)" and "c_pc c = Closing"
  shows "threads_inv (DeleteMessenger mr w) (ths[t := c])"
proof -
  let ?w = "DeleteMessenger mr w"
  have w': "pm ?w = pm w" "next_mid ?w = next_mid w" "msg_queue ?w = msg_queue w" "set (messengers ?w) \<subseteq> set (messengers w)"
    by (auto simp: DeleteMessenger_def split: option.splits)
  have "served ?w (ths[t := c]) i" if "connected_participants (pm w) i \<noteq> None" for i
    using assms(1,3,4) that
    by - (rule served_update [where w = w, OF _ assms(2)], auto simp: threads_inv_def DeleteMessenger_def split: option.splits)
  moreover have "pc_ok ?w pc" if "pc_ok w pc" for pc by (rule pc_ok_mono [OF that]) (use w' in auto)
  then have "\<forall>c \<in> set (ths[t := c]). pc_ok ?w (c_pc c)"
    using assms(1,4) by (intro pcs_ok_update [of _ w]) (auto simp: threads_inv_def)
  moreover have "mids_ok ?w"
    using assms(1)
    by (auto simp: threads_inv_def mids_ok_def DeleteMessenger_def distinct_map inj_on_def split: option.splits)
  ultimately show ?thesis
    using assms(1,3,4) w' popping_update [OF assms(2), of c] by (simp add: threads_inv_def)
qed

lemma queue_inv:
  assumes "threads_inv w ths" and "t < length ths" and "adds (c_pc (ths ! t)) = None" and "dooms (c_pc c) = None"
    and "\<And>w. pc_ok w (c_pc c)" and "max_length q = 0" and "length (queue q) = popping (ths[t := c])"
  shows "threads_inv (w\<lparr>msg_queue := q\<rparr>) (ths[t := c])"
proof -
  let ?w = "w\<lparr>msg_queue := q\<rparr>"
  have "served ?w (ths[t := c]) i" if "connected_participants (pm w) i \<noteq> None" for i
    using assms(1,3,4) that by - (rule served_update [where w = w, OF _ assms(2)], auto simp: threads_inv_def)
  moreover have "pc_ok ?w pc" if "pc_ok w pc" for pc by (rule pc_ok_mono [OF that]) auto
  then have "\<forall>c \<in> set (ths[t := c]). pc_ok ?w (c_pc c)"
    using assms(1,5) by (intro pcs_ok_update [of _ w]) (auto simp: threads_inv_def)
  ultimately show ?thesis using assms(1,6,7) by (simp add: threads_inv_def mids_ok_def)
qed

lemma guarantee_inv:
  assumes "guarantee (c_pc (ths ! t)) w (c_pc c) w'" and "threads_inv w ths" and "t < length ths"
  shows "threads_inv w' (ths[t := c])"
proof -
  have queue: "max_length (msg_queue w) = 0" "length (queue (msg_queue w)) = popping ths"
    using assms(2) by (simp_all add: threads_inv_def)
  show ?thesis using assms(1)
  proof cases
    case quiet
    then show ?thesis by (intro quiet_inv [OF assms(2,3)])
  next
    case (join m p)
    then show ?thesis using join_inv [OF assms(2,3)] by blast
  next
    case (leave m p mr k)
    then show ?thesis by (intro leave_inv [OF assms(2,3)])
  next
    case (add p)
    then show ?thesis using add_inv [OF assms(2,3)] by blast
  next
    case (delete mr)
    then show ?thesis using delete_inv [OF assms(2,3)] by blast
  next
    case (push m)
    then show ?thesis using popping_update [OF assms(3), of c] queue
      by (auto intro!: queue_inv [OF assms(2,3)])
  next
    case (pop m ms)
    then show ?thesis using popping_update [OF assms(3), of c] queue
      by (auto intro!: queue_inv [OF assms(2,3)])
  qed
qed

section \<open>Runs\<close>

definition act_found :: "coord_action \<Rightarrow> coord_sys \<Rightarrow> bool" where
  "act_found a s \<longleftrightarrow>
     (case a of
        Accept f host x \<Rightarrow> True
      | Run t \<Rightarrow> t < length (threads s) \<longrightarrow> lookup_found (shared s) (c_pc (threads s ! t)))"

fun lookups_found ::
  "coord_env \<Rightarrow> (Message set \<Rightarrow> Message list) \<Rightarrow> (u32 set \<Rightarrow> u32 list) \<Rightarrow> coord_action list \<Rightarrow> coord_sys \<Rightarrow> bool" where
  "lookups_found e order scan [] s \<longleftrightarrow> True"
| "lookups_found e order scan (a # as) s \<longleftrightarrow>
     act_found a s \<and>
     (case coord_act e order scan a s of Ret s' \<Rightarrow> lookups_found e order scan as s' | Block \<Rightarrow> True | Crash \<Rightarrow> True)"

lemma thread_step_inv:
  assumes "thread_step e order scan t s = Ret s'" and "threads_inv (shared s) (threads s)" and "act_found (Run t) s"
  shows "threads_inv (shared s') (threads s')"
proof -
  let ?c = "threads s ! t"
  have t: "t < length (threads s)" using assms(1) by (auto simp: thread_step_def split: if_splits)
  obtain pc w where st: "Coordinator_step e order scan (busy_for t s) (c_client_fd ?c) (c_hostname ?c) (c_pc ?c) (shared s) =
      Ret (pc, w)" and s': "s' = s\<lparr>shared := w, threads := (threads s)[t := ?c\<lparr>c_pc := pc\<rparr>]\<rparr>"
    using assms(1) t by (auto simp: thread_step_def Let_def obind_eq_Ret)
  have "pc_ok (shared s) (c_pc ?c)" using assms(2) t by (simp add: threads_inv_def)
  then have "guarantee (c_pc ?c) (shared s) pc w"
    using step_guarantee [OF st assms(2)] assms(3) t by (simp add: act_found_def)
  then show ?thesis using guarantee_inv [of "threads s" t "shared s" "?c\<lparr>c_pc := pc\<rparr>" w] assms(2) t s' by simp
qed

lemma accept_inv:
  assumes "threads_inv w ths" and "same_shared w w'"
  shows "threads_inv w' (ths @ [new_Coordinator f h])"
proof -
  have "served w' (ths @ [new_Coordinator f h]) i" if "served w ths i" for i
    using that assms(2) by (auto simp: served_def undoomed_def same_shared_def new_Coordinator_def)
  then show ?thesis using assms pc_ok_same [OF assms(2)]
    by (auto simp: threads_inv_def mids_ok_def popping_def new_Coordinator_def same_shared_def)
qed

lemma coord_run_inv:
  assumes "coord_run e order scan as s = Ret s'" and "threads_inv (shared s) (threads s)"
    and "lookups_found e order scan as s"
  shows "threads_inv (shared s') (threads s')"
  using assms
proof (induction as arbitrary: s)
  case (Cons a as)
  then obtain s1 where s1: "coord_act e order scan a s = Ret s1" "coord_run e order scan as s1 = Ret s'"
    by (auto simp: obind_eq_Ret)
  have "threads_inv (shared s1) (threads s1)"
  proof (cases a)
    case (Run t)
    then show ?thesis using thread_step_inv s1(1) Cons.prems by (auto simp: coord_act_def)
  next
    case (Accept f h x)
    then show ?thesis using s1(1) Cons.prems(2)
      by (auto simp: coord_act_def same_shared_def intro!: accept_inv)
  qed
  then show ?case using Cons.IH s1 Cons.prems(3) by auto
qed simp

lemma threads_inv_start: "coord_inv w \<Longrightarrow> threads_inv w []"
  by (auto simp: coord_inv_def threads_inv_def messengers_inv_def mids_ok_def served_def undoomed_def popping_def
      new_queue_def)

definition all_finished :: "coord_sys \<Rightarrow> bool" where
  "all_finished s \<longleftrightarrow> list_all (\<lambda>c. c_pc c = Finished True \<or> c_pc c = Finished False) (threads s)"

lemma threads_inv_finished:
  assumes "threads_inv (shared s) (threads s)" and "all_finished s"
  shows "coord_inv (shared s)"
proof -
  have fin: "adds (c_pc c) = None" "\<not> at_pop (c_pc c)" if "c \<in> set (threads s)" for c
    using assms(2) that by (auto simp: all_finished_def list_all_iff)
  then have "popping (threads s) = 0" by (simp add: popping_def filter_empty_conv)
  then have "msg_queue (shared s) = new_queue 0"
    using assms(1) by (cases "msg_queue (shared s)") (simp add: threads_inv_def new_queue_def)
  moreover have "i \<in> (pid \<circ> participant) ` set (messengers (shared s))"
    if "connected_participants (pm (shared s)) i \<noteq> None" for i
    using assms(1) that fin(1) unfolding threads_inv_def served_def by fastforce
  ultimately show ?thesis
    using assms(1) by (auto simp: coord_inv_def threads_inv_def messengers_inv_def mids_ok_def)
qed

end
