(* ===== verification/Coordinator_Races.thy ===== *)
theory Coordinator_Races
  imports Coordinator_Threads
begin

text \<open>
  What the interleavings of \<open>Coordinator_Threads\<close> guarantee, and what they do not: a request that
  is not interrupted is the handler of \<open>Coordinator\<close>; the shared structures are consistent again
  when all requests are done; no request waits for another. Two registrations can be given the
  same id, two receivers can see two multicasts in different orders, a request to leave that
  overtakes its registration leaves a participant that is connected and never served, and the
  search for an id may not end.
\<close>

lemmas run_defs = coord_act_def thread_step_def Coordinator_step_def busy_for_def Let_def numeral_nat

lemmas shared_defs = DetermineMessenger_def DetermineParticipant_def PM_GetParticipant_def Push_def is_full_def Pop_def
  PopTimed_def new_queue_def PM_IsConnected_def SendMessage_def fd_send_def sys_send_def now_def fd_close_def
  DeleteMessenger_def Registrar_DisconnectParticipant_def PM_DisconnectParticipant_def

section \<open>One request at a time\<close>

text \<open>
  C24. The steps of a request that nobody interrupts add up to its handler. When no other thread is
  inside a pass over the messengers, a coordinator that starts reading and is the only one to run
  finishes with exactly the result and the shared state of \<open>Coordinate\<close>.
\<close>

theorem request_alone_is_Coordinate:
  assumes "Coordinate e order f h (shared s) = Some (Ret (ok, w'))" and "t < length (threads s)"
    and "threads s ! t = new_Coordinator f h" and "\<not> busy_for t s" and "\<And>S. set (scan S) = S"
  shows "\<exists>n. coord_run e order scan (replicate n (Run t)) s =
    Ret (s\<lparr>shared := w', threads := (threads s)[t := (new_Coordinator f h)\<lparr>c_pc := Finished ok\<rparr>]\<rparr>)"
  using solo_run [OF solo_coordinate [OF assms(1,5)] assms(2,4)] assms(3) by (simp add: new_Coordinator_def)

definition demo_threads_env :: coord_env where
  "demo_threads_env = demo_coord_env\<lparr>message_codec := table_codec [Disconnect 1, SendMulticast ''hi'' 2]\<rparr>"

definition demo_request :: "u8 \<Rightarrow> sock" where
  "demo_request k = demo_sock\<lparr>rx := [RxData [0, 0, 0, 1], RxData [k]]\<rparr>"

lemma demo_read:
  "Coordinator_ReadNextMessage demo_threads_env (demo_request 0) = Ret (ACTIVE, Some (Disconnect 1), demo_sock)"
  "Coordinator_ReadNextMessage demo_threads_env (demo_request 1) = Ret (ACTIVE, Some (SendMulticast ''hi'' 2), demo_sock)"
  by code_simp+

theorem request_alone_is_Coordinate_witness:
  "\<exists>n w'. Coordinate demo_threads_env (\<lambda>_. []) 7 ''h'' ((demo_coord [1, 2])\<lparr>conns := [7 \<mapsto> demo_request 0]\<rparr>) = Some (Ret (True, w')) \<and>
    coord_run demo_threads_env (\<lambda>_. []) sorted_list_of_set (replicate n (Run 0))
      \<lparr>shared = (demo_coord [1, 2])\<lparr>conns := [7 \<mapsto> demo_request 0]\<rparr>, threads = [new_Coordinator 7 ''h'']\<rparr> =
    Ret \<lparr>shared = w', threads = [(new_Coordinator 7 ''h'')\<lparr>c_pc := Finished True\<rparr>]\<rparr>"
proof -
  let ?w = "(demo_coord [1, 2])\<lparr>conns := [7 \<mapsto> demo_request 0]\<rparr>"
  obtain w' where w': "Coordinate demo_threads_env (\<lambda>_. []) 7 ''h'' ?w = Some (Ret (True, w'))"
    by (simp add: Coordinate_def demo_read Coordinator_DispatchMessage_def HandleDisconnect_def Let_def)
  then show ?thesis
    using request_alone_is_Coordinate [of demo_threads_env "\<lambda>_. []" 7 "''h''"
        "\<lparr>shared = ?w, threads = [new_Coordinator 7 ''h'']\<rparr>" True w' 0 sorted_list_of_set]
    by (auto simp: busy_for_def)
qed

section \<open>All interleavings\<close>

text \<open>Each handler by itself: its next step is defined unless another thread is iterating.\<close>

lemma Register_step_enabled: "\<exists>y. Register_step e scan busy f h r w = Ret y \<or> (Register_step e scan busy f h r w = Crash \<and> busy)"
proof (cases r)
  case (Reg_scan port dup "is")
  then show ?thesis by (cases "is") auto
qed (auto simp: Let_def split: prod.split)

lemma Remove_step_enabled: "\<exists>y. Remove_step e busy r w = Ret y \<or> (Remove_step e busy r w = Crash \<and> busy)"
proof (cases r)
  case (Rem_manager k p mr)
  then show ?thesis by (cases k) auto
qed auto

lemma Reconnect_step_enabled:
  "\<exists>y. Reconnect_step e order busy r w = Ret y \<or> (Reconnect_step e order busy r w = Crash \<and> busy)"
proof (cases r)
  case (Rec_send mr ms)
  then show ?thesis by (cases ms) (auto split: prod.split)
qed (auto split: prod.split)

lemma Multicast_step_enabled:
  assumes "max_length (msg_queue w) = 0" and "r = Mul_pop \<Longrightarrow> queue (msg_queue w) \<noteq> []"
  shows "\<exists>y. Multicast_step e r w = Ret y"
proof (cases r)
  case Mul_pop
  then show ?thesis using assms(2) by (cases "queue (msg_queue w)") (auto simp: Pop_def)
next
  case (Mul_loop mrs is_logged m)
  then show ?thesis by (cases mrs) auto
qed (use assms(1) in \<open>auto split: prod.split\<close>)

lemma step_enabled:
  assumes "threads_inv w ths" and "t < length ths" and "c_pc (ths ! t) \<noteq> Reading" and "\<And>ok. c_pc (ths ! t) \<noteq> Finished ok"
  shows "\<exists>y. Coordinator_step e order scan busy f h (c_pc (ths ! t)) w = Ret y \<or>
    (Coordinator_step e order scan busy f h (c_pc (ths ! t)) w = Crash \<and> busy)"
proof (cases "c_pc (ths ! t)")
  case (Multicasting r)
  have "queue (msg_queue w) \<noteq> []" if "r = Mul_pop"
  proof -
    have "filter (\<lambda>c. at_pop (c_pc c)) ths \<noteq> []"
      using that Multicasting nth_mem [OF assms(2)] by (auto simp: filter_empty_conv)
    then show ?thesis using assms(1) by (auto simp: threads_inv_def popping_def)
  qed
  then show ?thesis using Multicasting Multicast_step_enabled [of w r] assms(1)
    by (auto simp: Coordinator_step_def threads_inv_def)
qed (use assms(3,4) Register_step_enabled Remove_step_enabled Reconnect_step_enabled in \<open>auto simp: Coordinator_step_def\<close>)

text \<open>
  C12. The shared structures survive every interleaving. From a consistent coordinator, after any
  interleaving of accepted connections and steps of their requests in which every request to leave
  finds the participant it names, the participant manager is consistent and every connected
  participant has a messenger that no request is about to delete, or a request is about to add
  one; once all requests are finished the invariant of the coordinator holds again, and the queue
  of multicasts is empty.
\<close>

theorem coordinator_threads_consistent:
  assumes "coord_inv w" and "coord_run e order scan as (new_coord_sys w) = Ret s"
    and "lookups_found e order scan as (new_coord_sys w)"
  shows "pm_inv (pm (shared s)) \<and>
    (\<forall>i. connected_participants (pm (shared s)) i \<noteq> None \<longrightarrow> served (shared s) (threads s) i) \<and>
    (all_finished s \<longrightarrow> coord_inv (shared s))"
proof -
  have "threads_inv (shared s) (threads s)"
    using coord_run_inv [OF assms(2) _ assms(3)] threads_inv_start [OF assms(1)] by (simp add: new_coord_sys_def)
  then show ?thesis using threads_inv_finished by (auto simp: threads_inv_def)
qed

definition demo_schedule :: "coord_action list" where
  "demo_schedule = [Accept 7 ''h'' (demo_request 0), Accept 8 ''h'' (demo_request 1), Run 0, Run 1, Run 0, Run 1, Run 1, Run 0,
     Run 1, Run 0, Run 0] @ replicate 8 (Run 1) @ [Run 0, Run 0]"

lemma demo_schedule_runs:
  "\<exists>s. coord_run demo_threads_env (\<lambda>_. []) sorted_list_of_set demo_schedule (new_coord_sys (demo_coord [1, 2])) = Ret s \<and>
    all_finished s \<and> lookups_found demo_threads_env (\<lambda>_. []) sorted_list_of_set demo_schedule (new_coord_sys (demo_coord [1, 2]))"
  by (simp add: demo_schedule_def run_defs new_coord_sys_def new_Coordinator_def Read_step_def demo_read all_finished_def
      act_found_def shared_defs demo_coord_defs)

theorem coordinator_threads_consistent_witness:
  "\<exists>s. coord_run demo_threads_env (\<lambda>_. []) sorted_list_of_set demo_schedule (new_coord_sys (demo_coord [1, 2])) = Ret s \<and>
    coord_inv (shared s)"
  using demo_schedule_runs coordinator_threads_consistent [OF demo_coord_inv(1)] by blast

text \<open>
  C28. No request waits for another one. In every interleaving as above, a request that has read
  its message and is not finished can take a step: the queue of multicasts is never empty when a
  request pops it. The step is undefined only when it changes the set of messengers while another
  request is inside a pass over that set.
\<close>

theorem coordinator_thread_progress:
  assumes "coord_inv w" and "coord_run e order scan as (new_coord_sys w) = Ret s"
    and "lookups_found e order scan as (new_coord_sys w)" and "t < length (threads s)"
    and "c_pc (threads s ! t) \<noteq> Reading" and "\<And>ok. c_pc (threads s ! t) \<noteq> Finished ok"
  shows "(\<exists>s'. thread_step e order scan t s = Ret s') \<or> (thread_step e order scan t s = Crash \<and> busy_for t s)"
proof -
  let ?pc = "c_pc (threads s ! t)" and ?c = "threads s ! t"
  have inv: "threads_inv (shared s) (threads s)"
    using coord_run_inv [OF assms(2) _ assms(3)] threads_inv_start [OF assms(1)] by (simp add: new_coord_sys_def)
  have "\<exists>y. Coordinator_step e order scan (busy_for t s) (c_client_fd ?c) (c_hostname ?c) ?pc (shared s) = Ret y \<or>
      Coordinator_step e order scan (busy_for t s) (c_client_fd ?c) (c_hostname ?c) ?pc (shared s) = Crash \<and> busy_for t s"
    using step_enabled [OF inv assms(4-6)] by blast
  then show ?thesis using assms(4) by (auto simp: thread_step_def Let_def split: prod.splits)
qed

theorem coordinator_thread_progress_witness:
  "\<exists>s s'. coord_run demo_threads_env (\<lambda>_. []) sorted_list_of_set [Accept 8 ''h'' (demo_request 1), Run 0, Run 0, Run 0]
      (new_coord_sys (demo_coord [1, 2])) = Ret s \<and> c_pc (threads s ! 0) = Multicasting Mul_pop \<and>
    thread_step demo_threads_env (\<lambda>_. []) sorted_list_of_set 0 s = Ret s'"
proof -
  let ?as = "[Accept 8 ''h'' (demo_request 1), Run 0, Run 0, Run 0]"
  obtain s where s: "coord_run demo_threads_env (\<lambda>_. []) sorted_list_of_set ?as (new_coord_sys (demo_coord [1, 2])) = Ret s"
    "threads s = [\<lparr>c_client_fd = 8, c_hostname = ''h'', c_pc = Multicasting Mul_pop\<rparr>]"
    "lookups_found demo_threads_env (\<lambda>_. []) sorted_list_of_set ?as (new_coord_sys (demo_coord [1, 2]))"
    by (simp add: run_defs new_coord_sys_def new_Coordinator_def Read_step_def demo_read act_found_def shared_defs demo_coord_defs)
  then have "\<not> busy_for 0 s" by (simp add: busy_for_def)
  then show ?thesis
    using coordinator_thread_progress [OF demo_coord_inv(1) s(1,3), of 0] s(1,2) by auto
qed

section \<open>Races\<close>

lemma coord_run_trans:
  "coord_run e order scan as s = Ret s1 \<Longrightarrow> coord_run e order scan bs s1 = x \<Longrightarrow> coord_run e order scan (as @ bs) s = x"
  by (simp add: coord_run_append)

lemma solo_fresh_id:
  assumes "connected_participants (pm w) (last_pid w) = None" and "\<And>S. set (scan S) = S"
  shows "(solo e order scan f h)\<^sup>*\<^sup>* (Registering (Reg_snapshot port False), w) (Registering (Reg_respond port (last_pid w)), w)"
proof -
  have "last_pid w \<notin> set (scan (dom (connected_participants (pm w))))" using assms by auto
  then have "(solo e order scan f h)\<^sup>*\<^sup>* (Registering (Reg_scan port False (scan (dom (connected_participants (pm w))))), w)
      (Registering (Reg_return port), w)"
    using solo_scan [of e order scan f h port False "scan (dom (connected_participants (pm w)))" w] by simp
  moreover have "(solo e order scan f h)\<^sup>*\<^sup>* (Registering (Reg_return port), w) (Registering (Reg_respond port (last_pid w)), w)"
    by (rule solo_step) (simp add: Coordinator_step_def)
  ultimately show ?thesis by - (rule solo_step, simp add: Coordinator_step_def)
qed

text \<open>
  Two registrations can be given one id. The counter has no lock: two requests that load it
  before either stores it both find the next id free, and both participants are told that id.
\<close>

theorem registrations_share_id:
  assumes "threads s = [\<lparr>c_client_fd = f0, c_hostname = h0, c_pc = dispatch_pc (Register p0)\<rparr>,
      \<lparr>c_client_fd = f1, c_hostname = h1, c_pc = dispatch_pc (Register p1)\<rparr>]"
    and "i = last_pid (shared s) + 1" and "connected_participants (pm (shared s)) i = None" and "\<And>S. set (scan S) = S"
  shows "\<exists>as s'. coord_run e order scan as s = Ret s' \<and> map c_pc (threads s') =
    [Registering (Reg_respond p0 i), Registering (Reg_respond p1 i)]"
proof -
  let ?w = "(shared s)\<lparr>last_pid := i\<rparr>"
  let ?c = "\<lambda>f h pc. \<lparr>c_client_fd = f, c_hostname = h, c_pc = Registering pc\<rparr>"
  let ?s = "\<lambda>r0 r1. \<lparr>shared = ?w, threads = [?c f0 h0 r0, ?c f1 h1 r1]\<rparr>"
  have 1: "coord_run e order scan [Run 0, Run 1, Run 0, Run 1] s = Ret (?s (Reg_snapshot p0 False) (Reg_snapshot p1 False))"
    using assms(1,2) by (cases s) (simp add: run_defs)
  have alone: "(solo e order scan f h)\<^sup>*\<^sup>* (Registering (Reg_snapshot port False), ?w) (Registering (Reg_respond port i), ?w)"
    for f h port using solo_fresh_id [of ?w scan] assms(3,4) by simp
  obtain n where 2: "coord_run e order scan (replicate n (Run 0)) (?s (Reg_snapshot p0 False) (Reg_snapshot p1 False)) =
      Ret (?s (Reg_respond p0 i) (Reg_snapshot p1 False))"
    using solo_run [OF alone [of f0 h0 p0], of 0 "?s (Reg_snapshot p0 False) (Reg_snapshot p1 False)"]
    by (auto simp: busy_for_def)
  obtain m where 3: "coord_run e order scan (replicate m (Run 1)) (?s (Reg_respond p0 i) (Reg_snapshot p1 False)) =
      Ret (?s (Reg_respond p0 i) (Reg_respond p1 i))"
    using solo_run [OF alone [of f1 h1 p1], of 1 "?s (Reg_respond p0 i) (Reg_snapshot p1 False)"]
    by (auto simp: busy_for_def)
  have "coord_run e order scan ([Run 0, Run 1, Run 0, Run 1] @ replicate n (Run 0) @ replicate m (Run 1)) s =
      Ret (?s (Reg_respond p0 i) (Reg_respond p1 i))"
    by (rule coord_run_trans [OF 1 coord_run_trans [OF 2 3]])
  then show ?thesis by fastforce
qed

theorem registrations_share_id_witness:
  "\<exists>as s'. coord_run demo_threads_env (\<lambda>_. []) sorted_list_of_set as
      \<lparr>shared = demo_coord [1, 2], threads = [\<lparr>c_client_fd = 7, c_hostname = ''h'', c_pc = dispatch_pc (Register 9000)\<rparr>,
        \<lparr>c_client_fd = 8, c_hostname = ''k'', c_pc = dispatch_pc (Register 9001)\<rparr>]\<rparr> = Ret s' \<and>
    map c_pc (threads s') = [Registering (Reg_respond 9000 3), Registering (Reg_respond 9001 3)]"
  by (rule registrations_share_id) (simp_all add: demo_coord_defs)

text \<open>
  C38. Multicasts are not ordered. The queue puts the messages in order, but the lock ends with
  \<open>Pop\<close>: of two requests, one can send to the first participant, be overtaken by the other, and
  then send to the second one. Both requests finish, and the two participants have received the
  two messages in opposite orders.
\<close>

theorem multicasts_reordered:
  assumes "threads s = [\<lparr>c_client_fd = f0, c_hostname = h0, c_pc = dispatch_pc (SendMulticast body0 i0)\<rparr>,
      \<lparr>c_client_fd = f1, c_hostname = h1, c_pc = dispatch_pc (SendMulticast body1 i1)\<rparr>]"
    and "messengers (shared s) = [a, b]" and "PM_IsConnected (participant a) (pm (shared s))"
    and "PM_IsConnected (participant b) (pm (shared s))" and "msg_queue (shared s) = new_queue 0"
    and "conns (shared s) (messenger_fd a) = Some x" and "tx x = []"
    and "conns (shared s) (messenger_fd b) = Some y" and "tx y = []"
    and "distinct [messenger_fd a, messenger_fd b, f0, f1]"
    and "m0 = \<lparr>msg = body0, timestamp = 0, participant_id = pid (DetermineParticipant i0 (shared s))\<rparr>"
    and "m1 = \<lparr>msg = body1, timestamp = 0, participant_id = pid (DetermineParticipant i1 (shared s))\<rparr>"
  shows "\<exists>as s' x' y'. coord_run e order scan as s = Ret s' \<and> map c_pc (threads s') = [Finished True, Finished True] \<and>
    conns (shared s') (messenger_fd a) = Some x' \<and> wire x' = wire x @ SerializeMessage e m0 @ SerializeMessage e m1 \<and>
    conns (shared s') (messenger_fd b) = Some y' \<and> wire y' = wire y @ SerializeMessage e m1 @ SerializeMessage e m0"
proof -
  have "\<exists>s' x' y'. coord_run e order scan (replicate 8 (Run 0) @ replicate 12 (Run 1) @ replicate 4 (Run 0)) s = Ret s' \<and>
    map c_pc (threads s') = [Finished True, Finished True] \<and>
    conns (shared s') (messenger_fd a) = Some x' \<and> wire x' = wire x @ SerializeMessage e m0 @ SerializeMessage e m1 \<and>
    conns (shared s') (messenger_fd b) = Some y' \<and> wire y' = wire y @ SerializeMessage e m1 @ SerializeMessage e m0"
    using assms by (cases s) (simp add: run_defs shared_defs messenger_fd_def SerializeMessage_def)
  then show ?thesis by (rule exI)
qed

theorem multicasts_reordered_witness:
  "\<exists>as s' x' y'. coord_run demo_threads_env (\<lambda>_. []) sorted_list_of_set as
      \<lparr>shared = demo_coord [1, 2], threads = [\<lparr>c_client_fd = 7, c_hostname = ''h'', c_pc = dispatch_pc (SendMulticast ''hi'' 2)\<rparr>,
        \<lparr>c_client_fd = 8, c_hostname = ''k'', c_pc = dispatch_pc (SendMulticast ''ho'' 1)\<rparr>]\<rparr> = Ret s' \<and>
    map c_pc (threads s') = [Finished True, Finished True] \<and>
    conns (shared s') 11 = Some x' \<and> wire x' =
      SerializeMessage demo_threads_env \<lparr>msg = ''hi'', timestamp = 0, participant_id = 2\<rparr> @
      SerializeMessage demo_threads_env \<lparr>msg = ''ho'', timestamp = 0, participant_id = 1\<rparr> \<and>
    conns (shared s') 12 = Some y' \<and> wire y' =
      SerializeMessage demo_threads_env \<lparr>msg = ''ho'', timestamp = 0, participant_id = 1\<rparr> @
      SerializeMessage demo_threads_env \<lparr>msg = ''hi'', timestamp = 0, participant_id = 2\<rparr>"
  using multicasts_reordered [OF _ _ _ _ _ _ _ _ _ _ refl refl, where e = demo_threads_env and order = "\<lambda>_. []"
      and scan = sorted_list_of_set and a = "\<lparr>mid = 0, participant = demo_participant 1 11\<rparr>"
      and b = "\<lparr>mid = 1, participant = demo_participant 2 12\<rparr>" and x = demo_sock and y = demo_sock and
      s = "\<lparr>shared = demo_coord [1, 2], threads = [\<lparr>c_client_fd = 7, c_hostname = ''h'', c_pc = dispatch_pc (SendMulticast ''hi'' 2)\<rparr>,
        \<lparr>c_client_fd = 8, c_hostname = ''k'', c_pc = dispatch_pc (SendMulticast ''ho'' 1)\<rparr>]\<rparr>"]
  by (simp add: demo_coord_defs DetermineParticipant_def PM_GetParticipant_def PM_IsConnected_def messenger_fd_def)

lemma find_append_None: "find P xs = None \<Longrightarrow> find P (xs @ ys) = find P ys"
  by (induction xs) (auto split: if_splits)

text \<open>
  A participant that leaves early stays. The answer to a registration is sent before the
  participant is registered, so that it can ask to leave while its registration is still under
  way. If the request looks the participant up before it is there, and its messenger once that is
  there, then both requests succeed, the participant stays connected, and no messenger serves it.
\<close>

theorem leave_overtakes_registration:
  assumes "threads s = [\<lparr>c_client_fd = f0, c_hostname = h0, c_pc = Registering (Reg_manager p)\<rparr>,
      \<lparr>c_client_fd = f1, c_hostname = h1, c_pc = dispatch_pc (Disconnect (pid p))\<rparr>]"
    and "coord_inv (shared s)" and "id_to_participant (pm (shared s)) (pid p) = None" and "pid p \<noteq> 0"
    and "connected_participants (pm (shared s)) 0 = None" and "DetermineMessenger (pid p) (shared s) = None"
  shows "\<exists>as s'. coord_run e order scan as s = Ret s' \<and> map c_pc (threads s') = [Finished True, Finished True] \<and>
    connected_participants (pm (shared s')) (pid p) = Some p \<and> DetermineMessenger (pid p) (shared s') = None"
proof -
  let ?as = "[Run 1, Run 0, Run 0, Run 1, Run 1, Run 1, Run 1, Run 1]"
  have "connected_participants (pm (shared s)) (pid p) = None"
    using assms(2,3) unregistered_not_connected by (simp add: coord_inv_def)
  moreover have "find (\<lambda>mr. pid (participant mr) = pid p) (messengers (shared s) @ [x]) = Some x"
    if "pid (participant x) = pid p" for x
    using that assms(6) by (simp add: DetermineMessenger_def find_append_None)
  moreover have "find (\<lambda>mr. pid (participant mr) = pid p) (filter P (messengers (shared s))) = None" for P
    using assms(6) by (auto simp: DetermineMessenger_def find_None_iff)
  ultimately have "\<exists>s'. coord_run e order scan ?as s = Ret s' \<and> map c_pc (threads s') = [Finished True, Finished True] \<and>
      connected_participants (pm (shared s')) (pid p) = Some p \<and> DetermineMessenger (pid p) (shared s') = None"
    using assms
    by (cases s) (simp add: run_defs shared_defs AddMessenger_def PM_RegisterParticipant_def set_insert_def zero_participant_def)
  then show ?thesis by (rule exI)
qed

theorem leave_overtakes_registration_witness:
  "\<exists>as s'. coord_run demo_threads_env (\<lambda>_. []) sorted_list_of_set as
      \<lparr>shared = demo_coord [1, 2], threads =
        [\<lparr>c_client_fd = 7, c_hostname = ''h'', c_pc = Registering (Reg_manager (demo_participant 3 20))\<rparr>,
         \<lparr>c_client_fd = 8, c_hostname = ''h'', c_pc = dispatch_pc (Disconnect 3)\<rparr>]\<rparr> = Ret s' \<and>
    map c_pc (threads s') = [Finished True, Finished True] \<and>
    connected_participants (pm (shared s')) 3 = Some (demo_participant 3 20) \<and> DetermineMessenger 3 (shared s') = None"
  using leave_overtakes_registration [where p = "demo_participant 3 20" and e = demo_threads_env and order = "\<lambda>_. []"
      and scan = sorted_list_of_set and s = "\<lparr>shared = demo_coord [1, 2], threads =
        [\<lparr>c_client_fd = 7, c_hostname = ''h'', c_pc = Registering (Reg_manager (demo_participant 3 20))\<rparr>,
         \<lparr>c_client_fd = 8, c_hostname = ''h'', c_pc = dispatch_pc (Disconnect 3)\<rparr>]\<rparr>"] demo_coord_inv(1)
  by (simp add: demo_coord_defs DetermineMessenger_def)

text \<open>
  A registration breaks a broadcast: \<open>AddMessenger\<close> takes the lock of the messenger manager, the
  loop of \<open>BroadcastMessage\<close> does not, so that the set can change under the iterator.
\<close>

theorem registration_breaks_broadcast:
  assumes "threads s = [\<lparr>c_client_fd = f0, c_hostname = h0, c_pc = dispatch_pc (SendMulticast body i)\<rparr>,
      \<lparr>c_client_fd = f1, c_hostname = h1, c_pc = Registering (Reg_add p)\<rparr>]" and "msg_queue (shared s) = new_queue 0"
  shows "coord_run e order scan [Run 0, Run 0, Run 0, Run 0, Run 1] s = Crash"
  using assms by (cases s) (simp add: run_defs Push_def is_full_def Pop_def PopTimed_def new_queue_def)

section \<open>The search for an id\<close>

text \<open>Inside the loop of \<open>GenerateID\<close>, with the flag set and nothing left to compare with.\<close>

fun searching :: "coord_pc \<Rightarrow> bool" where
  "searching (Registering (Reg_load port duplicate)) \<longleftrightarrow> duplicate"
| "searching (Registering (Reg_store port duplicate v)) \<longleftrightarrow> duplicate"
| "searching (Registering (Reg_snapshot port duplicate)) \<longleftrightarrow> duplicate"
| "searching (Registering (Reg_scan port duplicate is)) \<longleftrightarrow> duplicate \<and> is = []"
| "searching _ \<longleftrightarrow> False"

lemma searching_step:
  assumes "searching pc" and "connected_participants (pm w) = Map.empty" and "scan {} = []"
  shows "\<exists>pc' w'. Coordinator_step e order scan busy f h pc w = Ret (pc', w') \<and> searching pc' \<and>
    connected_participants (pm w') = Map.empty"
  using assms by (cases pc rule: searching.cases) (auto simp: Coordinator_step_def)

lemma searching_for_ever:
  assumes "t < length (threads s)" and "searching (c_pc (threads s ! t))"
    and "connected_participants (pm (shared s)) = Map.empty" and "scan {} = []"
  shows "\<exists>s'. coord_run e order scan (replicate n (Run t)) s = Ret s' \<and> searching (c_pc (threads s' ! t))"
  using assms(1-3)
proof (induction n arbitrary: s)
  case (Suc n)
  let ?c = "threads s ! t"
  obtain pc w where st: "Coordinator_step e order scan (busy_for t s) (c_client_fd ?c) (c_hostname ?c) (c_pc ?c) (shared s) =
      Ret (pc, w)" "searching pc" "connected_participants (pm w) = Map.empty"
    using searching_step [where scan = scan, OF Suc.prems(2) _ assms(4)] Suc.prems(3) by blast
  then show ?case
    using Suc.IH [of "s\<lparr>shared := w, threads := (threads s)[t := ?c\<lparr>c_pc := pc\<rparr>]\<rparr>"] Suc.prems(1)
    by (simp add: coord_act_def thread_step_def Let_def)
qed simp

definition response_conns :: "coord_env \<Rightarrow> int \<Rightarrow> Participant \<Rightarrow> coord \<Rightarrow> int \<rightharpoonup> sock" where
  "response_conns e f p w = conns (snd (SendRegistrationResponse e f p w))"

lemma response_eq: "snd (SendRegistrationResponse e f p w) = w\<lparr>conns := response_conns e f p w\<rparr>"
  by (simp add: response_conns_def SendRegistrationResponse_def fd_send_def split: prod.split option.split sum.split)

text \<open>
  The search for an id may not end. \<open>duplicate\<close> is assigned only inside the scan of the
  connected participants. If a registration that stores an outdated value finds that id taken, and
  the only participant leaves before the next scan, the flag stays set: with nobody connected the
  loop runs for ever, however often it is scheduled.
\<close>

theorem GenerateID_may_not_end:
  assumes "threads s = [\<lparr>c_client_fd = f0, c_hostname = h0, c_pc = dispatch_pc (Register p0)\<rparr>,
      \<lparr>c_client_fd = f1, c_hostname = h1, c_pc = dispatch_pc (Register p1)\<rparr>,
      \<lparr>c_client_fd = f2, c_hostname = h2, c_pc = dispatch_pc (Deregister i)\<rparr>]"
    and "i = last_pid (shared s) + 1" and "pm (shared s) = \<lparr>connected_participants = Map.empty, id_to_participant = Map.empty\<rparr>"
    and "attempts (shared s) = (f, x) # rest" and "0 < f" and "\<And>S. set (scan S) = S"
  shows "\<exists>as s'. coord_run e order scan as s = Ret s' \<and> c_pc (threads s' ! 0) = Finished True \<and>
    c_pc (threads s' ! 2) = Finished True \<and>
    (\<forall>n. \<exists>s''. coord_run e order scan (replicate n (Run 1)) s' = Ret s'' \<and> searching (c_pc (threads s'' ! 1)))"
proof -
  have scans: "scan {} = []" using assms(6) [of "{}"] by simp
  obtain js where js: "scan {i} = i # js" using assms(6) [of "{i}"] by (cases "scan {i}") auto
  let ?as = "Run 1 # replicate 9 (Run 0) @ replicate 3 (Run 1) @ replicate 7 (Run 2)"
  have "\<exists>s'. coord_run e order scan ?as s = Ret s' \<and> c_pc (threads s' ! 0) = Finished True \<and>
      c_pc (threads s' ! 2) = Finished True \<and> 1 < length (threads s') \<and> searching (c_pc (threads s' ! 1)) \<and>
      connected_participants (pm (shared s')) = Map.empty"
    using assms(1-5) scans js
    by (cases s, simp add: run_defs shared_defs response_eq AddMessenger_def ConnectToParticipant_def
        PM_RegisterParticipant_def PM_DeregisterParticipant_def set_insert_def, simp split: option.split)
  then show ?thesis using searching_for_ever scans by metis
qed

theorem GenerateID_may_not_end_witness:
  "\<exists>as s'. coord_run demo_threads_env (\<lambda>_. []) sorted_list_of_set as
      \<lparr>shared = new_coord 10 Map.empty [(20, demo_sock)], threads =
        [\<lparr>c_client_fd = 7, c_hostname = ''h'', c_pc = dispatch_pc (Register 9000)\<rparr>,
         \<lparr>c_client_fd = 8, c_hostname = ''k'', c_pc = dispatch_pc (Register 9001)\<rparr>,
         \<lparr>c_client_fd = 9, c_hostname = ''h'', c_pc = dispatch_pc (Deregister 1)\<rparr>]\<rparr> = Ret s' \<and>
    c_pc (threads s' ! 0) = Finished True \<and> c_pc (threads s' ! 2) = Finished True \<and>
    (\<forall>n. \<exists>s''. coord_run demo_threads_env (\<lambda>_. []) sorted_list_of_set (replicate n (Run 1)) s' = Ret s'' \<and>
      searching (c_pc (threads s'' ! 1)))"
  by (rule GenerateID_may_not_end [where f = 20]) (simp_all add: new_coord_def)

end
