(* ===== verification/Name_Server.thy ===== *)
theory Name_Server
  imports Console_Task Message_Passing
begin

text \<open>
  Model of the name servers with consistent hashing, \<open>project4/name_server\<close>: the messages of
  \<open>consistent_hash_msgs.proto\<close>, the class \<open>Nameserver\<close> (\<open>nameserver.cpp\<close>) and its subclass
  \<open>Bootstrap\<close> (\<open>bootstrap.cpp\<close>). Every handler is one function on the state of a server; what a
  handler hands to a message-passing client is appended to \<open>outbox\<close> with the endpoint of that
  client. What the other end answers is an argument of \<open>Enter\<close>. Members that no constructor
  initializes (the ids, the ports of the endpoints) are arguments of the constructors here; \<open>id_\<close>
  is never assigned by any code.

  The pairs are kept in the order of iteration of the hash map; the position of a new pair, which
  the standard leaves open, is the end. An access past the end of a repeated field of a message
  is \<open>Crash\<close>, and so is a loop that goes on with an iterator to an erased element.
\<close>

section \<open>Messages\<close>

record ServerInfo =
  si_id :: u32
  si_ip :: string
  si_port :: u32

record LookUpResult =
  lk_key :: u32
  lk_value :: string
  lk_server_ids :: "u32 list"
  lk_id :: u32

record InsertResult =
  in_key :: u32
  in_value :: string
  in_id :: u32
  in_server_ids :: "u32 list"

record DeleteResult =
  de_key :: u32
  delete_success :: bool
  de_server_ids :: "u32 list"

record EntranceInformation =
  ei_id :: u32
  successor_info :: "ServerInfo option"
  predecessor_info :: "ServerInfo option"

record ExitInformation =
  ex_lower :: u32
  ex_upper :: u32
  ex_keys :: "u32 list"
  ex_values :: "string list"
  ex_predecessor :: "ServerInfo option"

record UpdatePredecessorResponse =
  up_lower :: u32
  up_upper :: u32
  up_keys :: "u32 list"
  up_values :: "string list"

text \<open>
  The members of the two \<open>oneof\<close>s, and the messages as they are sent: without the wrapper that
  the receiver parses. The requests to update a neighbour are their one field.
\<close>

datatype NameServerMessage =
    NsEmpty
  | NsEntranceInfo EntranceInformation
  | NsExitInfo ExitInformation
  | NsUpdatePredReq "ServerInfo option"
  | NsUpdateSuccReq "ServerInfo option"
  | NsUpdatePredRes UpdatePredecessorResponse
  | NsLookUp LookUpResult
  | NsInsert InsertResult
  | NsDelete DeleteResult

datatype BootstrapMessage = BsEmpty | BsNameServer NameServerMessage | BsEntranceRequest u32

datatype ns_payload =
    PEntranceRequest u32
  | PEntranceInfo EntranceInformation
  | PExitInfo ExitInformation
  | PUpdatePredReq "ServerInfo option"
  | PUpdateSuccReq "ServerInfo option"
  | PUpdatePredRes UpdatePredecessorResponse
  | PLookUp LookUpResult
  | PInsert InsertResult
  | PDelete DeleteResult

text \<open>Reading a message field that is not set gives the default instance.\<close>

definition default_info :: ServerInfo where
  "default_info = \<lparr>si_id = 0, si_ip = [], si_port = 0\<rparr>"

definition info :: "ServerInfo option \<Rightarrow> ServerInfo" where
  "info x = (case x of None \<Rightarrow> default_info | Some i \<Rightarrow> i)"

definition default_lookup :: LookUpResult where
  "default_lookup = \<lparr>lk_key = 0, lk_value = [], lk_server_ids = [], lk_id = 0\<rparr>"

definition default_insert :: InsertResult where
  "default_insert = \<lparr>in_key = 0, in_value = [], in_id = 0, in_server_ids = []\<rparr>"

definition default_delete :: DeleteResult where
  "default_delete = \<lparr>de_key = 0, delete_success = False, de_server_ids = []\<rparr>"

definition default_entrance_info :: EntranceInformation where
  "default_entrance_info = \<lparr>ei_id = 0, successor_info = None, predecessor_info = None\<rparr>"

text \<open>
  Protobuf: the two encodings that servers parse, and \<open>IsInitialized()\<close> of the two messages on
  which the code asks it. \<open>proto3_initialized\<close> is what the documentation says of it: with no
  required fields, as in this version of the language, every message is initialized.
\<close>

record ns_env =
  ns_codec :: "NameServerMessage codec"
  bs_codec :: "BootstrapMessage codec"
  info_initialized :: "ServerInfo \<Rightarrow> bool"
  entrance_initialized :: "EntranceInformation \<Rightarrow> bool"

definition proto3_initialized :: "ns_env \<Rightarrow> bool" where
  "proto3_initialized e \<longleftrightarrow> (\<forall>i. info_initialized e i) \<and> (\<forall>m. entrance_initialized e m)"

section \<open>Repeated fields and the hash map\<close>

text \<open>\<open>set_keys(i, x)\<close> and \<open>keys(i)\<close> of a repeated field.\<close>

definition set_at :: "nat \<Rightarrow> 'a \<Rightarrow> 'a list \<Rightarrow> 'a list outcome" where
  "set_at i x xs = (if i < length xs then Ret (xs[i := x]) else Crash)"

definition get_at :: "nat \<Rightarrow> 'a list \<Rightarrow> 'a outcome" where
  "get_at i xs = (if i < length xs then Ret (xs ! i) else Crash)"

type_synonym kv_map = "(u32 \<times> string) list"

text \<open>\<open>insert\<close> does not replace the value of a key that is there.\<close>

definition kv_insert :: "u32 \<Rightarrow> string \<Rightarrow> kv_map \<Rightarrow> kv_map" where
  "kv_insert k v m = (if map_of m k \<noteq> None then m else m @ [(k, v)])"

definition kv_erase :: "u32 \<Rightarrow> kv_map \<Rightarrow> kv_map" where
  "kv_erase k m = filter (\<lambda>p. fst p \<noteq> k) m"

lemma map_of_kv_insert [simp]:
  "map_of (kv_insert k v m) = (if map_of m k \<noteq> None then map_of m else (map_of m)(k \<mapsto> v))"
  by (auto simp: kv_insert_def map_add_def fun_eq_iff split: option.split)

lemma map_of_kv_erase [simp]: "map_of (kv_erase k m) = (map_of m)(k := None)"
  by (induction m) (auto simp: kv_erase_def fun_eq_iff)

lemma keys_kv_insert: "distinct (map fst m) \<Longrightarrow> distinct (map fst (kv_insert k v m))"
  by (auto simp: kv_insert_def map_of_eq_None_iff)

lemma keys_kv_erase: "distinct (map fst m) \<Longrightarrow> distinct (map fst (kv_erase k m))"
  by (simp add: kv_erase_def distinct_map_filter)

section \<open>State of a name server\<close>

record nameserver =
  pairs :: kv_map
  bounds :: "u32 \<times> u32"
  successor :: Endpoint
  successor_id :: u32
  predecessor :: Endpoint
  predecessor_id :: u32
  bootstrap :: Endpoint
  ns_port :: int
  ns_id :: u32
  ns_console :: console
  outbox :: "(Endpoint \<times> ns_payload) list"
  entering_nameserver :: Endpoint

text \<open>The values of the members that are not initialized.\<close>

record ns_junk =
  junk_port :: u16
  junk_id :: u32
  junk_successor_id :: u32
  junk_predecessor_id :: u32

definition new_Nameserver :: "ns_junk \<Rightarrow> console \<Rightarrow> int \<Rightarrow> Endpoint \<Rightarrow> nameserver" where
  "new_Nameserver j cn p boot =
     \<lparr>pairs = [], bounds = (0, 0), successor = \<lparr>hostname = [], port = junk_port j\<rparr>,
      successor_id = junk_successor_id j, predecessor = \<lparr>hostname = [], port = junk_port j\<rparr>,
      predecessor_id = junk_predecessor_id j, bootstrap = boot, ns_port = p, ns_id = junk_id j,
      ns_console = cn, outbox = [], entering_nameserver = \<lparr>hostname = [], port = junk_port j\<rparr>\<rparr>"

definition new_Bootstrap :: "ns_junk \<Rightarrow> console \<Rightarrow> int \<Rightarrow> kv_map \<Rightarrow> nameserver" where
  "new_Bootstrap j cn p kvs =
     (let boot = \<lparr>hostname = ''127.0.0.1'', port = of_int p\<rparr>
      in (new_Nameserver j cn p boot)\<lparr>pairs := kvs, bounds := (0, 1023), successor := boot\<rparr>)"

text \<open>
  A client for \<open>ep\<close> is asked to send \<open>m\<close>; the code goes on whether that succeeds or not.
\<close>

definition send_to :: "Endpoint \<Rightarrow> ns_payload \<Rightarrow> nameserver \<Rightarrow> nameserver" where
  "send_to ep m s = s\<lparr>outbox := outbox s @ [(ep, m)]\<rparr>"

definition ns_send_console :: "string \<Rightarrow> nameserver \<Rightarrow> nameserver outcome" where
  "ns_send_console t s = obind (SendConsole t (ns_console s)) (\<lambda>c. Ret (s\<lparr>ns_console := c\<rparr>))"

definition in_bounds :: "u32 \<Rightarrow> nameserver \<Rightarrow> bool" where
  "in_bounds k s \<longleftrightarrow> k \<le> snd (bounds s) \<and> fst (bounds s) \<le> k"

definition successor_server :: "nameserver \<Rightarrow> ServerInfo" where
  "successor_server s =
     \<lparr>si_id = successor_id s, si_ip = hostname (successor s), si_port = ucast (port (successor s))\<rparr>"

definition predecessor_server :: "nameserver \<Rightarrow> ServerInfo" where
  "predecessor_server s =
     \<lparr>si_id = predecessor_id s, si_ip = hostname (predecessor s), si_port = ucast (port (predecessor s))\<rparr>"

section \<open>Handlers of a name server\<close>

text \<open>
  \<open>mutable_successor_info()\<close> sets the field to the default instance when it is not set, also
  where only \<open>IsInitialized()\<close> of it is asked.
\<close>

definition touch :: "ServerInfo option \<Rightarrow> ServerInfo option" where
  "touch x = Some (info x)"

definition HandleEntranceInformation :: "ns_env \<Rightarrow> EntranceInformation \<Rightarrow> nameserver \<Rightarrow> nameserver" where
  "HandleEntranceInformation e request s =
     (let req = (if ns_id s < ei_id request \<and> ei_id request < successor_id s
                 then request\<lparr>successor_info := Some (successor_server s)\<rparr>
                 else if ei_id request < ns_id s \<and> predecessor_id s < ei_id request
                 then request\<lparr>predecessor_info := Some (predecessor_server s)\<rparr>
                 else request);
          at_end = (successor s = bootstrap s);
          req1 = (if at_end then req\<lparr>successor_info := touch (successor_info req)\<rparr> else req);
          no_succ = (at_end \<and> \<not> info_initialized e (info (successor_info req1)));
          req2 = (if no_succ then req1\<lparr>predecessor_info := touch (predecessor_info req1)\<rparr> else req1);
          no_pred = (no_succ \<and> \<not> info_initialized e (info (predecessor_info req2)));
          req3 = (if no_pred then req2\<lparr>successor_info := Some (successor_server s)\<rparr> else req2)
      in send_to (successor s) (PEntranceInfo req3) s)"

fun take_over :: "nat \<Rightarrow> u32 list \<Rightarrow> string list \<Rightarrow> kv_map \<Rightarrow> kv_map outcome" where
  "take_over i [] vs m = Ret m"
| "take_over i (k # ks) vs m =
     obind (get_at i vs) (\<lambda>v. take_over (Suc i) ks vs (kv_insert k v m))"

definition HandleExitInformation :: "ExitInformation \<Rightarrow> nameserver \<Rightarrow> nameserver outcome" where
  "HandleExitInformation request s =
     obind (take_over 0 (ex_keys request) (ex_values request) (pairs s)) (\<lambda>m.
       let i = info (ex_predecessor request)
       in Ret (s\<lparr>bounds := (fst (bounds s), ex_upper request), pairs := m,
                 predecessor := \<lparr>hostname = si_ip i, port = ucast (si_port i)\<rparr>,
                 predecessor_id := si_id i\<rparr>))"

text \<open>
  The loop that hands over the lower half: \<open>pair_index\<close> stays 0 and the repeated fields are
  empty, and after the erase the loop would go on from an iterator that is no longer valid.
\<close>

fun hand_over :: "u32 \<Rightarrow> kv_map \<Rightarrow> UpdatePredecessorResponse \<Rightarrow> kv_map \<Rightarrow>
  (UpdatePredecessorResponse \<times> kv_map) outcome" where
  "hand_over limit [] res m = Ret (res, m)"
| "hand_over limit ((k, v) # ps) res m =
     (if k < limit
      then obind (set_at 0 k (up_keys res)) (\<lambda>ks.
           obind (set_at 0 v (up_values res)) (\<lambda>vs. Crash))
      else hand_over limit ps res m)"

definition HandleUpdatePredecessor :: "ServerInfo option \<Rightarrow> Endpoint \<Rightarrow> nameserver \<Rightarrow> nameserver outcome" where
  "HandleUpdatePredecessor request source s =
     (let i = info request;
          s1 = s\<lparr>predecessor := \<lparr>hostname = hostname source, port = ucast (si_port i)\<rparr>,
                 predecessor_id := si_id i\<rparr>;
          (lower, upper) = bounds s1;
          kMiddleKey = (lower - upper) div 2;
          res = \<lparr>up_lower = lower, up_upper = lower - kMiddleKey, up_keys = [], up_values = []\<rparr>
      in obind (hand_over (upper div 2 + 1) (pairs s1) res (pairs s1)) (\<lambda>(res', m).
           Ret (send_to (predecessor s1) (PUpdatePredRes res')
                  (s1\<lparr>pairs := m, bounds := (lower + ((upper - lower) div 2 + 1), upper)\<rparr>))))"

definition HandleUpdateSuccessor :: "ServerInfo option \<Rightarrow> nameserver \<Rightarrow> nameserver" where
  "HandleUpdateSuccessor request s =
     (let i = info request
      in s\<lparr>successor := \<lparr>hostname = si_ip i, port = ucast (si_port i)\<rparr>, successor_id := si_id i\<rparr>)"

definition HandleLookUpResult :: "LookUpResult \<Rightarrow> nameserver \<Rightarrow> nameserver" where
  "HandleLookUpResult request s =
     (let req = (if in_bounds (lk_key request) s
                 then case map_of (pairs s) (lk_key request) of
                        None \<Rightarrow> request
                      | Some v \<Rightarrow> request\<lparr>lk_value := v, lk_id := ns_id s\<rparr>
                 else request)
      in send_to (successor s) (PLookUp (req\<lparr>lk_server_ids := lk_server_ids req @ [ns_id s]\<rparr>)) s)"

definition HandleInsertResult :: "InsertResult \<Rightarrow> nameserver \<Rightarrow> nameserver" where
  "HandleInsertResult request s =
     (let (req, s1) =
            (if in_bounds (in_key request) s
             then (request\<lparr>in_id := ns_id s\<rparr>, s\<lparr>pairs := kv_insert (in_key request) (in_value request) (pairs s)\<rparr>)
             else (request, s))
      in send_to (successor s1) (PInsert (req\<lparr>in_server_ids := in_server_ids req @ [ns_id s1]\<rparr>)) s1)"

definition HandleDeleteResult :: "DeleteResult \<Rightarrow> nameserver \<Rightarrow> nameserver" where
  "HandleDeleteResult request s =
     (let (req, s1) =
            (if in_bounds (de_key request) s \<and> map_of (pairs s) (de_key request) \<noteq> None
             then (request\<lparr>delete_success := True\<rparr>, s\<lparr>pairs := kv_erase (de_key request) (pairs s)\<rparr>)
             else (request, s))
      in send_to (successor s1) (PDelete (req\<lparr>de_server_ids := de_server_ids req @ [ns_id s1]\<rparr>)) s1)"

text \<open>
  \<open>HandleRequest(NameServerMessage)\<close>. A message with no member set, and the response to an
  update, which only \<open>Enter\<close> expects, are reported as empty.
\<close>

definition Nameserver_HandleRequest ::
  "ns_env \<Rightarrow> NameServerMessage \<Rightarrow> Endpoint \<Rightarrow> nameserver \<Rightarrow> nameserver outcome" where
  "Nameserver_HandleRequest e msg source s =
     (case msg of
        NsUpdateSuccReq r \<Rightarrow> Ret (HandleUpdateSuccessor r s)
      | NsDelete r \<Rightarrow> Ret (HandleDeleteResult r s)
      | NsLookUp r \<Rightarrow> Ret (HandleLookUpResult r s)
      | NsInsert r \<Rightarrow> Ret (HandleInsertResult r s)
      | NsEntranceInfo r \<Rightarrow> Ret (HandleEntranceInformation e r s)
      | NsExitInfo r \<Rightarrow> HandleExitInformation r s
      | NsUpdatePredReq r \<Rightarrow> HandleUpdatePredecessor r source s
      | _ \<Rightarrow> Ret s)"

text \<open>\<open>connected\<close> is the result of \<open>EnsureConnected()\<close> of the server node.\<close>

definition Nameserver_ReceiveAndHandle ::
  "ns_env \<Rightarrow> bool \<Rightarrow> node \<Rightarrow> nameserver \<Rightarrow> (node \<times> nameserver) outcome" where
  "Nameserver_ReceiveAndHandle e connected n s =
     obind (DoReceive (ns_codec e) True connected n) (\<lambda>(m, ep, n').
       case m of
         None \<Rightarrow> Ret (n', s)
       | Some msg \<Rightarrow> obind (Nameserver_HandleRequest e msg (the ep) s) (\<lambda>s'. Ret (n', s')))"

definition NameserverTask_RunAtomic ::
  "ns_env \<Rightarrow> bool \<Rightarrow> node \<Rightarrow> nameserver option \<Rightarrow> (status \<times> node \<times> nameserver option) outcome" where
  "NameserverTask_RunAtomic e connected n s =
     (case s of
        None \<Rightarrow> Crash
      | Some s' \<Rightarrow> obind (Nameserver_ReceiveAndHandle e connected n s') (\<lambda>(n', s''). Ret (RUNNING, n', Some s'')))"

section \<open>Entering and leaving the ring\<close>

text \<open>What a request gets: an answer, a failure, or nothing for ever.\<close>

datatype 'a reply = Reply 'a | NoReply | NeverReply

definition Enter ::
  "ns_env \<Rightarrow> EntranceInformation reply \<Rightarrow> UpdatePredecessorResponse reply \<Rightarrow> int \<Rightarrow> nameserver \<Rightarrow>
   (bool \<times> nameserver) outcome" where
  "Enter e entrance update sent s =
     (let s1 = send_to (bootstrap s) (PEntranceRequest 0) s
      in case entrance of
           NeverReply \<Rightarrow> Block
         | NoReply \<Rightarrow> Ret (False, s1)
         | Reply entrance_info \<Rightarrow>
             let su = info (successor_info entrance_info);
                 pr = info (predecessor_info entrance_info);
                 s2 = (if entrance_initialized e entrance_info
                       then s1\<lparr>successor := \<lparr>hostname = si_ip su, port = ucast (si_port su)\<rparr>,
                               successor_id := si_id su,
                               predecessor := \<lparr>hostname = si_ip pr, port = ucast (si_port pr)\<rparr>,
                               predecessor_id := si_id pr\<rparr>
                       else s1\<lparr>successor := bootstrap s1, predecessor := bootstrap s1\<rparr>);
                 self = Some \<lparr>si_id = ns_id s2, si_ip = [], si_port = of_int (ns_port s2)\<rparr>;
                 s3 = send_to (successor s2) (PUpdatePredReq self) s2
             in case update of
                  NeverReply \<Rightarrow> Block
                | NoReply \<Rightarrow> Ret (False, s3)
                | Reply res \<Rightarrow>
                    obind (take_over 0 (up_keys res) (up_values res) (pairs s3)) (\<lambda>m.
                      let s4 = s3\<lparr>bounds := (up_lower res, up_upper res), pairs := m\<rparr>
                      in Ret (0 \<le> sent, send_to (predecessor s4) (PUpdateSuccReq self) s4)))"

text \<open>The loop of \<open>Exit\<close> over the pairs writes at \<open>pair_index\<close> of fields that are empty.\<close>

fun exit_keys :: "nat \<Rightarrow> kv_map \<Rightarrow> ExitInformation \<Rightarrow> ExitInformation outcome" where
  "exit_keys i [] x = Ret x"
| "exit_keys i ((k, v) # ps) x =
     obind (set_at i k (ex_keys x)) (\<lambda>ks.
     obind (set_at i v (ex_values x)) (\<lambda>vs.
       exit_keys (Suc i) ps (x\<lparr>ex_keys := ks, ex_values := vs\<rparr>)))"

definition Exit :: "nameserver \<Rightarrow> nameserver outcome" where
  "Exit s =
     (let x = \<lparr>ex_lower = fst (bounds s), ex_upper = snd (bounds s), ex_keys = [], ex_values = [],
               ex_predecessor = None\<rparr>
      in obind (exit_keys 0 (pairs s) x) (\<lambda>x'.
           Ret (send_to (predecessor s) (PUpdateSuccReq (Some (successor_server s)))
                  (send_to (successor s) (PExitInfo (x'\<lparr>ex_predecessor := Some (predecessor_server s)\<rparr>)) s))))"

section \<open>Bootstrap server\<close>

definition HandleEntranceRequest :: "u32 \<Rightarrow> Endpoint \<Rightarrow> nameserver \<Rightarrow> nameserver" where
  "HandleEntranceRequest i source s =
     (let s1 = s\<lparr>entering_nameserver := source\<rparr>
      in if successor s1 = bootstrap s1
         then send_to source (PEntranceInfo default_entrance_info) s1
         else send_to (successor s1) (PEntranceInfo (default_entrance_info\<lparr>ei_id := i\<rparr>)) s1)"

text \<open>
  The local \<open>req\<close> is completed, but \<open>request\<close> is sent. With neither neighbour initialized the
  fatal log message ends the program.
\<close>

definition Bootstrap_HandleEntranceInformation ::
  "ns_env \<Rightarrow> EntranceInformation \<Rightarrow> nameserver \<Rightarrow> nameserver outcome" where
  "Bootstrap_HandleEntranceInformation e request s =
     (let has_succ = info_initialized e (info (successor_info request));
          has_pred = info_initialized e (info (predecessor_info request))
      in if \<not> (has_pred \<or> has_succ) then Crash
         else Ret (send_to (entering_nameserver s) (PEntranceInfo request) s))"

definition PrintContacted :: "u32 list \<Rightarrow> nameserver \<Rightarrow> nameserver outcome" where
  "PrintContacted ids s =
     ns_send_console (''Contacted: '' @ concat (map (\<lambda>i. nat_string (unat i) @ '', '') ids)) s"

definition Bootstrap_HandleLookUpResult :: "LookUpResult \<Rightarrow> nameserver \<Rightarrow> nameserver outcome" where
  "Bootstrap_HandleLookUpResult request s =
     obind (set_at (length (lk_server_ids request)) 0 (lk_server_ids request)) (\<lambda>ids.
       if lk_id request = 0 then ns_send_console ''Key not found.'' s
       else obind (ns_send_console (''Value: '' @ lk_value request) s) (PrintContacted (lk_server_ids request)))"

definition Bootstrap_HandleInsertResult :: "InsertResult \<Rightarrow> nameserver \<Rightarrow> nameserver outcome" where
  "Bootstrap_HandleInsertResult request s =
     obind (set_at (length (in_server_ids request)) 0 (in_server_ids request)) (\<lambda>ids.
       if in_id request = 0 then ns_send_console ''Key out of range.'' s
       else obind (ns_send_console (''Inserted into: '' @ nat_string (unat (in_id request))) s)
              (PrintContacted ids))"

definition Bootstrap_HandleDeleteResult :: "DeleteResult \<Rightarrow> nameserver \<Rightarrow> nameserver outcome" where
  "Bootstrap_HandleDeleteResult request s =
     obind (set_at (length (de_server_ids request)) 0 (de_server_ids request)) (\<lambda>ids.
       if \<not> delete_success request then ns_send_console ''Key not found.'' s
       else obind (ns_send_console ''Successful deletion.'' s) (PrintContacted ids))"

definition Bootstrap_HandleRequest ::
  "ns_env \<Rightarrow> BootstrapMessage \<Rightarrow> Endpoint \<Rightarrow> nameserver \<Rightarrow> nameserver outcome" where
  "Bootstrap_HandleRequest e request source s =
     (case request of
        BsEntranceRequest i \<Rightarrow> Ret (HandleEntranceRequest i source s)
      | BsNameServer (NsDelete r) \<Rightarrow> Bootstrap_HandleDeleteResult r s
      | BsNameServer (NsInsert r) \<Rightarrow> Bootstrap_HandleInsertResult r s
      | BsNameServer (NsLookUp r) \<Rightarrow> Bootstrap_HandleLookUpResult r s
      | BsNameServer (NsEntranceInfo r) \<Rightarrow> Bootstrap_HandleEntranceInformation e r s
      | BsNameServer msg \<Rightarrow> Nameserver_HandleRequest e msg source s
      | BsEmpty \<Rightarrow> Ret s)"

definition Bootstrap_ReceiveAndHandle ::
  "ns_env \<Rightarrow> bool \<Rightarrow> node \<Rightarrow> nameserver \<Rightarrow> (node \<times> nameserver) outcome" where
  "Bootstrap_ReceiveAndHandle e connected n s =
     obind (DoReceive (bs_codec e) True connected n) (\<lambda>(m, ep, n').
       case m of
         None \<Rightarrow> Ret (n', s)
       | Some msg \<Rightarrow> obind (Bootstrap_HandleRequest e msg (the ep) s) (\<lambda>s'. Ret (n', s')))"

text \<open>\<open>LookUp\<close> sends through \<open>client_\<close>, whose endpoint is the bootstrap server itself.\<close>

definition LookUp :: "u32 \<Rightarrow> nameserver \<Rightarrow> nameserver outcome" where
  "LookUp key s =
     (case map_of (pairs s) key of
        Some v \<Rightarrow> obind (ns_send_console (''Value: '' @ v) s) (ns_send_console ''Contacted: 0'')
      | None \<Rightarrow>
          if successor s = bootstrap s then ns_send_console ''Key not found.'' s
          else Ret (send_to (bootstrap s) (PLookUp (default_lookup\<lparr>lk_id := 0, lk_key := key\<rparr>)) s))"

definition Bootstrap_Insert :: "u32 \<Rightarrow> string \<Rightarrow> nameserver \<Rightarrow> nameserver outcome" where
  "Bootstrap_Insert key val s =
     (if fst (bounds s) \<le> key \<and> key \<le> snd (bounds s)
      then obind (ns_send_console ''Inserted into: 0'' (s\<lparr>pairs := kv_insert key val (pairs s)\<rparr>))
             (ns_send_console ''Contacted: 0'')
      else if successor s = bootstrap s then ns_send_console ''Key out of range.'' s
      else Ret (send_to (successor s)
                  (PInsert (default_insert\<lparr>in_id := 0, in_key := key, in_value := val\<rparr>)) s))"

definition Bootstrap_Delete :: "u32 \<Rightarrow> nameserver \<Rightarrow> nameserver outcome" where
  "Bootstrap_Delete key s =
     (case map_of (pairs s) key of
        Some v \<Rightarrow> ns_send_console ''Contacted: 0'' (s\<lparr>pairs := kv_erase key (pairs s)\<rparr>)
      | None \<Rightarrow>
          if successor s = bootstrap s then ns_send_console ''Key not found.'' s
          else Ret (send_to (successor s) (PDelete (default_delete\<lparr>delete_success := False, de_key := key\<rparr>)) s))"

section \<open>Type invariant\<close>

text \<open>The pairs are a map: no key occurs twice. The constructors establish it, every operation keeps it.\<close>

definition ns_wf :: "nameserver \<Rightarrow> bool" where
  "ns_wf s \<longleftrightarrow> distinct (map fst (pairs s)) \<and> max_length (console_message_queue (ns_console s)) = 0"

named_theorems ns_wf_intros \<open>what keeps a name server well formed\<close>

lemma ns_wf_frame [simp]:
  "ns_wf (send_to ep m s) = ns_wf s" "ns_wf (s\<lparr>outbox := x\<rparr>) = ns_wf s"
  "ns_wf (s\<lparr>successor := ep\<rparr>) = ns_wf s" "ns_wf (s\<lparr>successor_id := i\<rparr>) = ns_wf s"
  "ns_wf (s\<lparr>predecessor := ep\<rparr>) = ns_wf s" "ns_wf (s\<lparr>predecessor_id := i\<rparr>) = ns_wf s"
  "ns_wf (s\<lparr>bounds := b\<rparr>) = ns_wf s" "ns_wf (s\<lparr>entering_nameserver := ep\<rparr>) = ns_wf s"
  by (simp_all add: ns_wf_def send_to_def)

lemma take_over_distinct:
  "take_over i ks vs m = Ret m' \<Longrightarrow> distinct (map fst m) \<Longrightarrow> distinct (map fst m')"
  by (induction i ks vs m rule: take_over.induct) (auto simp: outcome_simps intro: keys_kv_insert)

lemma hand_over_same: "hand_over limit ps res m = Ret (res', m') \<Longrightarrow> m' = m \<and> res' = res"
  by (induction limit ps res m rule: hand_over.induct) (auto simp: outcome_simps split: if_splits)

lemma ns_send_console_wf [ns_wf_intros]: "ns_send_console t s = Ret s' \<Longrightarrow> ns_wf s \<Longrightarrow> ns_wf s'"
  by (auto simp: ns_send_console_def ns_wf_def outcome_simps)

lemma PrintContacted_wf [ns_wf_intros]: "PrintContacted ids s = Ret s' \<Longrightarrow> ns_wf s \<Longrightarrow> ns_wf s'"
  by (auto simp: PrintContacted_def intro: ns_wf_intros)

lemma Nameserver_HandleRequest_wf [ns_wf_intros]:
  assumes "Nameserver_HandleRequest e msg source s = Ret s'" and "ns_wf s"
  shows "ns_wf s'"
  using assms
  by (cases msg)
    (auto simp: Nameserver_HandleRequest_def HandleUpdateSuccessor_def HandleDeleteResult_def HandleLookUpResult_def
      HandleInsertResult_def HandleEntranceInformation_def HandleExitInformation_def HandleUpdatePredecessor_def
      Let_def outcome_simps ns_wf_def send_to_def keys_kv_insert keys_kv_erase
      dest: take_over_distinct hand_over_same split: prod.splits if_splits)

lemma Bootstrap_HandleRequest_wf:
  assumes "Bootstrap_HandleRequest e msg source s = Ret s'" and "ns_wf s"
  shows "ns_wf s'"
proof (cases msg)
  case (BsNameServer m)
  then show ?thesis
    using assms by (cases m)
      (auto simp: Bootstrap_HandleRequest_def Bootstrap_HandleDeleteResult_def Bootstrap_HandleInsertResult_def
        Bootstrap_HandleLookUpResult_def Bootstrap_HandleEntranceInformation_def Let_def outcome_simps
        split: if_splits intro: ns_wf_intros)
qed (use assms in \<open>auto simp: Bootstrap_HandleRequest_def HandleEntranceRequest_def Let_def\<close>)

lemma Enter_wf:
  assumes "Enter e entrance update sent s = Ret (ok, s')" and "ns_wf s"
  shows "ns_wf s'"
proof (cases entrance)
  case (Reply i)
  show ?thesis
  proof (cases update)
    case u: (Reply res)
    obtain m s4 where "take_over 0 (up_keys res) (up_values res) (pairs s) = Ret m"
        "s' = s4" "pairs s4 = m" "ns_console s4 = ns_console s"
      using assms(1) Reply u
      by (cases "entrance_initialized e i") (auto simp: Enter_def Let_def outcome_simps send_to_def)
    then show ?thesis using assms(2) take_over_distinct by (auto simp: ns_wf_def)
  qed (use assms Reply in \<open>auto simp: Enter_def Let_def\<close>)
qed (use assms in \<open>auto simp: Enter_def Let_def\<close>)

lemma Exit_wf: "Exit s = Ret s' \<Longrightarrow> ns_wf s \<Longrightarrow> ns_wf s'"
  by (auto simp: Exit_def Let_def outcome_simps)

lemma console_ops_wf:
  "LookUp key s = Ret s' \<Longrightarrow> ns_wf s \<Longrightarrow> ns_wf s'"
  "Bootstrap_Insert key v s = Ret s' \<Longrightarrow> ns_wf s \<Longrightarrow> ns_wf s'"
  "Bootstrap_Delete key s = Ret s' \<Longrightarrow> ns_wf s \<Longrightarrow> ns_wf s'"
proof -
  have upd: "ns_wf (s\<lparr>pairs := kv_insert key v (pairs s)\<rparr>)" "ns_wf (s\<lparr>pairs := kv_erase key (pairs s)\<rparr>)"
    if "ns_wf s"
    using that by (simp_all add: ns_wf_def keys_kv_insert keys_kv_erase)
  show "LookUp key s = Ret s' \<Longrightarrow> ns_wf s \<Longrightarrow> ns_wf s'"
    by (auto simp: LookUp_def outcome_simps split: option.splits if_splits intro: ns_wf_intros)
  show "Bootstrap_Insert key v s = Ret s' \<Longrightarrow> ns_wf s \<Longrightarrow> ns_wf s'"
    using upd by (auto simp: Bootstrap_Insert_def outcome_simps split: if_splits intro: ns_wf_intros)
  show "Bootstrap_Delete key s = Ret s' \<Longrightarrow> ns_wf s \<Longrightarrow> ns_wf s'"
    using upd by (auto simp: Bootstrap_Delete_def outcome_simps split: option.splits if_splits intro: ns_wf_intros)
qed

text \<open>
  A server as a transition system: any request from anybody, and the commands of its driver,
  with any answers from the network.
\<close>

inductive ns_step :: "ns_env \<Rightarrow> nameserver \<Rightarrow> nameserver \<Rightarrow> bool" for e where
  ns_request: "Nameserver_HandleRequest e msg source s = Ret s' \<Longrightarrow> ns_step e s s'"
| ns_enter: "Enter e entrance update sent s = Ret (ok, s') \<Longrightarrow> ns_step e s s'"
| ns_exit: "Exit s = Ret s' \<Longrightarrow> ns_step e s s'"

inductive bs_step :: "ns_env \<Rightarrow> nameserver \<Rightarrow> nameserver \<Rightarrow> bool" for e where
  bs_request: "Bootstrap_HandleRequest e msg source s = Ret s' \<Longrightarrow> bs_step e s s'"
| bs_lookup: "LookUp key s = Ret s' \<Longrightarrow> bs_step e s s'"
| bs_insert: "Bootstrap_Insert key v s = Ret s' \<Longrightarrow> bs_step e s s'"
| bs_delete: "Bootstrap_Delete key s = Ret s' \<Longrightarrow> bs_step e s s'"

lemma ns_step_wf: "ns_step e s s' \<Longrightarrow> ns_wf s \<Longrightarrow> ns_wf s'"
  by (induction rule: ns_step.induct) (auto intro: Nameserver_HandleRequest_wf Enter_wf Exit_wf)

lemma bs_step_wf: "bs_step e s s' \<Longrightarrow> ns_wf s \<Longrightarrow> ns_wf s'"
  by (induction rule: bs_step.induct) (auto intro: Bootstrap_HandleRequest_wf console_ops_wf)

lemma new_Nameserver_wf: "ns_wf (new_Nameserver j (new_ConsoleTask t) p boot)"
  by (simp add: ns_wf_def new_Nameserver_def new_ConsoleTask_def new_queue_def)

lemma new_Bootstrap_wf:
  "distinct (map fst kvs) \<Longrightarrow> ns_wf (new_Bootstrap j (new_ConsoleTask t) p kvs)"
  by (simp add: ns_wf_def new_Bootstrap_def new_Nameserver_def new_ConsoleTask_def new_queue_def Let_def)

section \<open>Properties\<close>


definition demo_junk :: ns_junk where
  "demo_junk = \<lparr>junk_port = 0, junk_id = 5, junk_successor_id = 9, junk_predecessor_id = 0\<rparr>"

definition demo_ns_env :: ns_env where
  "demo_ns_env =
     \<lparr>ns_codec = table_codec [NsEmpty], bs_codec = table_codec [BsEmpty], info_initialized = (\<lambda>_. True),
      entrance_initialized = (\<lambda>_. True)\<rparr>"


lemma hand_over_iff:
  "hand_over limit ps \<lparr>up_lower = a, up_upper = b, up_keys = [], up_values = []\<rparr> m =
     (if \<exists>p\<in>set ps. fst p < limit then Crash
      else Ret (\<lparr>up_lower = a, up_upper = b, up_keys = [], up_values = []\<rparr>, m))"
  by (induction ps) (fastforce simp: set_at_def)+

text \<open>
  A server that holds keys can neither leave nor share them. \<open>Exit\<close> succeeds exactly when the
  server has no pairs, and the handler of a new predecessor exactly when no key is in the lower
  half that should be handed over; otherwise they write past the end of an empty repeated field.
\<close>

theorem moving_keys_crashes:
  "(Exit s = Crash \<longleftrightarrow> pairs s \<noteq> []) \<and>
   (HandleUpdatePredecessor r source s = Crash \<longleftrightarrow>
      (\<exists>k v. (k, v) \<in> set (pairs s) \<and> k < snd (bounds s) div 2 + 1))"
proof -
  have "Exit s = Crash \<longleftrightarrow> pairs s \<noteq> []"
    by (cases "pairs s") (auto simp: Exit_def set_at_def Let_def)
  moreover have "(\<exists>p\<in>set (pairs s). fst p < l) \<longleftrightarrow> (\<exists>k v. (k, v) \<in> set (pairs s) \<and> k < l)" for l
    by force
  ultimately show ?thesis
    by (cases "bounds s") (simp add: HandleUpdatePredecessor_def hand_over_iff Let_def)
qed

lemma middle_of_wrapped:
  fixes a b :: u32
  assumes "a < b" and "unat b < 2 ^ 31"
  shows "unat (a - (a - b) div 2) = unat a + (unat b - unat a + 1) div 2 + 2 ^ 31"
proof -
  let ?d = "unat b - unat a"
  have ab: "unat a < unat b" using assms(1) by (simp add: word_less_nat_alt)
  have "unat (a - b) = 2 ^ 32 - ?d"
    using ab unat_lt_u32 [of b] by (simp add: unat_sub_if')
  then have h: "unat ((a - b) div 2) = 2 ^ 31 - (?d + 1) div 2"
    using ab assms(2) by (simp add: unat_div)
  moreover have "(?d + 1) div 2 \<le> unat b" using ab by simp
  ultimately show ?thesis
    using ab assms(2) by (simp add: unat_sub_if')
qed

text \<open>
  The range handed to a new predecessor is wrong by \<open>2 ^ 31\<close>. For a server with the range
  \<open>[a, b]\<close> the upper bound of the new one should lie in the middle; the unsigned subtraction
  wraps, the bound is \<open>2 ^ 31\<close> higher, and so the new server's range contains the whole range that
  the old one keeps.
\<close>

theorem handed_range_overlaps:
  assumes "bounds s = (a, b)" and "a < b" and "unat b < 2 ^ 31"
    and "\<forall>p\<in>set (pairs s). \<not> fst p < b div 2 + 1"
  shows "\<exists>s' ep res. HandleUpdatePredecessor r source s = Ret s' \<and>
    outbox s' = outbox s @ [(ep, PUpdatePredRes res)] \<and> up_lower res = a \<and>
    unat (up_upper res) = unat a + (unat b - unat a + 1) div 2 + 2 ^ 31 \<and>
    bounds s' = (a + ((b - a) div 2 + 1), b) \<and>
    {k. in_bounds k s'} \<subseteq> {k. up_lower res \<le> k \<and> k \<le> up_upper res}"
proof -
  have no: "\<not> (\<exists>p\<in>set (pairs s). fst p < b div 2 + 1)" using assms(4) by blast
  have u: "unat (a - (a - b) div 2) = unat a + (unat b - unat a + 1) div 2 + 2 ^ 31"
    by (rule middle_of_wrapped [OF assms(2,3)])
  have ab: "unat a < unat b" using assms(2) by (simp add: word_less_nat_alt)
  have "unat ((b - a) div 2 + 1) = (unat b - unat a) div 2 + 1"
    using ab assms(3) by (simp add: unat_word_ariths unat_div unat_sub_if')
  then have "unat (a + ((b - a) div 2 + 1)) = unat a + ((unat b - unat a) div 2 + 1)"
    using ab assms(3) by (subst unat_add_lt) simp_all
  then have "a \<le> a + ((b - a) div 2 + 1)" "b \<le> a - (a - b) div 2"
    using u ab assms(3) by (simp_all add: word_le_nat_alt)
  then have "{k. a + ((b - a) div 2 + 1) \<le> k \<and> k \<le> b} \<subseteq> {k. a \<le> k \<and> k \<le> a - (a - b) div 2}"
    using order_trans by blast
  then show ?thesis
    using no u assms(1) by (auto simp: HandleUpdatePredecessor_def hand_over_iff Let_def send_to_def in_bounds_def)
qed

definition demo_ns :: "u32 \<Rightarrow> u32 \<Rightarrow> kv_map \<Rightarrow> nameserver" where
  "demo_ns a b kvs = (new_Nameserver demo_junk (new_ConsoleTask ''> '') 80 \<lparr>hostname = ''b'', port = 1\<rparr>)
     \<lparr>bounds := (a, b), pairs := kvs\<rparr>"

theorem handed_range_overlaps_witness:
  "\<exists>s' ep res. HandleUpdatePredecessor None \<lparr>hostname = ''n'', port = 2\<rparr> (demo_ns 0 1023 []) = Ret s' \<and>
    outbox s' = outbox (demo_ns 0 1023 []) @ [(ep, PUpdatePredRes res)] \<and> up_lower res = 0 \<and>
    unat (up_upper res) = 2147484160 \<and> bounds s' = (512, 1023) \<and>
    {k. in_bounds k s'} \<subseteq> {k. up_lower res \<le> k \<and> k \<le> up_upper res}"
  using handed_range_overlaps [of "demo_ns 0 1023 []" 0 1023 None "\<lparr>hostname = ''n'', port = 2\<rparr>"]
  by (simp add: demo_ns_def)

text \<open>
  The successor of a server that leaves gives up its own keys. It takes the upper bound of the
  leaving server, which lies below its own lower bound, instead of its lower bound: no key is
  in its range any more.
\<close>

theorem exit_empties_successor:
  assumes "ex_upper x < fst (bounds s)" and "length (ex_keys x) \<le> length (ex_values x)"
  shows "\<exists>s'. HandleExitInformation x s = Ret s' \<and> {k. in_bounds k s'} = {}"
proof -
  have ok: "\<exists>m'. take_over i ks vs m = Ret m'" if "i + length ks \<le> length vs" for i ks vs m
    using that by (induction i ks vs m rule: take_over.induct) (auto simp: get_at_def)
  obtain m where "take_over 0 (ex_keys x) (ex_values x) (pairs s) = Ret m"
    using ok [of 0 "ex_keys x" "ex_values x" "pairs s"] assms(2) by auto
  then show ?thesis
    using assms(1) by (auto simp: HandleExitInformation_def Let_def in_bounds_def)
qed

theorem exit_empties_successor_witness:
  "\<exists>s'. HandleExitInformation \<lparr>ex_lower = 0, ex_upper = 511, ex_keys = [3], ex_values = [''c''], ex_predecessor = None\<rparr>
      (demo_ns 512 1023 [(600, ''x'')]) = Ret s' \<and> {k. in_bounds k s'} = {}"
  by (rule exit_empties_successor) (simp_all add: demo_ns_def)

text \<open>
  The result of a command never reaches the user. Whatever came back around the ring, the
  bootstrap server's handlers of the three results write at an index one past the end of the
  list of contacted servers.
\<close>

theorem bootstrap_results_crash:
  "Bootstrap_HandleRequest e (BsNameServer (NsLookUp r)) source s = Crash \<and>
   Bootstrap_HandleRequest e (BsNameServer (NsInsert r')) source s = Crash \<and>
   Bootstrap_HandleRequest e (BsNameServer (NsDelete r'')) source s = Crash"
  by (simp add: Bootstrap_HandleRequest_def Bootstrap_HandleLookUpResult_def Bootstrap_HandleInsertResult_def
      Bootstrap_HandleDeleteResult_def set_at_def)

lemma ucast_of_int_u16 [simp]: "(ucast (word_of_int n :: u32) :: u16) = word_of_int n"
  by (rule bit_word_eqI) (simp add: bit_simps)

text \<open>
  A server that enters makes itself unreachable for its predecessor. The request that tells
  the predecessor of its new successor carries the port and the id but no address, so the
  predecessor's handler stores an empty host name.
\<close>

theorem enter_leaves_empty_hostname:
  assumes "Enter e (Reply i) (Reply res) sent s = Ret (True, s')"
  shows "\<exists>inf ep. last (outbox s') = (ep, PUpdateSuccReq inf) \<and> ep = predecessor s' \<and>
    successor (HandleUpdateSuccessor inf q) = \<lparr>hostname = [], port = of_int (ns_port s)\<rparr>"
  using assms
  by (cases "entrance_initialized e i")
    (auto simp: Enter_def Let_def outcome_simps send_to_def HandleUpdateSuccessor_def info_def)

theorem enter_leaves_empty_hostname_witness:
  "\<exists>s' inf ep. Enter demo_ns_env (Reply default_entrance_info)
      (Reply \<lparr>up_lower = 0, up_upper = 511, up_keys = [], up_values = []\<rparr>) 4 (demo_ns 0 0 []) = Ret (True, s') \<and>
    last (outbox s') = (ep, PUpdateSuccReq inf) \<and>
    successor (HandleUpdateSuccessor inf (demo_ns 0 0 [])) = \<lparr>hostname = [], port = 80\<rparr>"
proof -
  let ?s = "demo_ns 0 0 []"
  obtain s' where s': "Enter demo_ns_env (Reply default_entrance_info)
      (Reply \<lparr>up_lower = 0, up_upper = 511, up_keys = [], up_values = []\<rparr>) 4 ?s = Ret (True, s')"
    by (simp add: Enter_def Let_def)
  from enter_leaves_empty_hostname [OF this, of ?s] show ?thesis
    using s' by (auto simp: demo_ns_def new_Nameserver_def)
qed

end
