(* ===== verification/Name_Server_Ring.thy ===== *)
theory Name_Server_Ring
  imports Name_Server
begin

text \<open>
  The ring of name servers as one distributed map. A result message of \<open>project4\<close> ripples from
  the successor of the bootstrap server through all servers and back; \<open>ripple\<close> delivers what a
  server's handler forwards to the server at that endpoint. The messages are delivered as the
  handlers mean them, inside the wrapper that the receiver parses, which the code leaves out; the
  last section shows what that does to the first message of a server that enters.

  The abstract specification is a partial map from keys to values over the keys that some server
  owns. The theorems show that a lookup, an insert and a delete that ripple through a ring with
  disjoint ranges do exactly what they should on the abstract map, with one exception that is
  part of the statement: an insert does not change the value of a key that is there, and reports
  success all the same. The locale \<open>ring_message\<close> is the contract of a message that every server
  serves and passes on; the three results are its instances.
\<close>

section \<open>Delivering a message around the ring\<close>

fun wrap :: "ns_payload \<Rightarrow> NameServerMessage" where
  "wrap (PEntranceInfo x) = NsEntranceInfo x"
| "wrap (PExitInfo x) = NsExitInfo x"
| "wrap (PUpdatePredReq x) = NsUpdatePredReq x"
| "wrap (PUpdateSuccReq x) = NsUpdateSuccReq x"
| "wrap (PUpdatePredRes x) = NsUpdatePredRes x"
| "wrap (PLookUp x) = NsLookUp x"
| "wrap (PInsert x) = NsInsert x"
| "wrap (PDelete x) = NsDelete x"
| "wrap (PEntranceRequest x) = NsEmpty"

type_synonym network = "Endpoint \<rightharpoonup> nameserver"

text \<open>
  The message \<open>m\<close> travels to \<open>target\<close>, and on to wherever the handler there sends it, until it is
  back at the endpoint \<open>boot\<close>; the fuel bounds the number of servers. \<open>Block\<close> is a message that
  nobody receives or passes on.
\<close>

fun ripple :: "nat \<Rightarrow> ns_env \<Rightarrow> Endpoint \<Rightarrow> Endpoint \<Rightarrow> NameServerMessage \<Rightarrow> network \<Rightarrow>
  (NameServerMessage \<times> network) outcome option" where
  "ripple 0 e boot target m net = None"
| "ripple (Suc f) e boot target m net =
     (if target = boot then Some (Ret (m, net))
      else case net target of
             None \<Rightarrow> Some Block
           | Some s \<Rightarrow>
               (case Nameserver_HandleRequest e m target (s\<lparr>outbox := []\<rparr>) of
                  Ret s' \<Rightarrow>
                    (case outbox s' of
                       [(target', p)] \<Rightarrow> ripple f e boot target' (wrap p) (net(target \<mapsto> s'))
                     | _ \<Rightarrow> Some Block)
                | Block \<Rightarrow> Some Block
                | Crash \<Rightarrow> Some Crash))"

text \<open>The servers at the endpoints \<open>as\<close>, in this order, form a chain from \<open>target\<close> to \<open>boot\<close>.\<close>

fun chain :: "network \<Rightarrow> Endpoint \<Rightarrow> Endpoint \<Rightarrow> Endpoint list \<Rightarrow> bool" where
  "chain net boot target [] \<longleftrightarrow> target = boot"
| "chain net boot target (a # as) \<longleftrightarrow>
     target = a \<and> a \<noteq> boot \<and> a \<notin> set as \<and>
     (case net a of None \<Rightarrow> False | Some s \<Rightarrow> chain net boot (successor s) as)"

lemma chain_update [simp]: "a \<notin> set as \<Longrightarrow> chain (net(a \<mapsto> s)) boot target as = chain net boot target as"
proof (induction as arbitrary: target)
  case (Cons b bs)
  then show ?case by (auto split: option.split)
qed simp

lemma chain_Some: "chain net boot target as \<Longrightarrow> a \<in> set as \<Longrightarrow> \<exists>s. net a = Some s"
  by (induction as arbitrary: target) (auto split: option.splits)

definition servers :: "network \<Rightarrow> Endpoint list \<Rightarrow> nameserver list" where
  "servers net as = map (\<lambda>a. the (net a)) as"

section \<open>Messages that every server serves and passes on\<close>

text \<open>\<open>visit r s\<close>: what server \<open>s\<close> makes of the message, and its pairs afterwards.\<close>

fun visit_all :: "('r \<Rightarrow> nameserver \<Rightarrow> 'r \<times> kv_map) \<Rightarrow> 'r \<Rightarrow> nameserver list \<Rightarrow> 'r \<times> kv_map list" where
  "visit_all visit r [] = (r, [])"
| "visit_all visit r (s # ss) =
     (case visit r s of (r', m) \<Rightarrow> case visit_all visit r' ss of (r'', ms) \<Rightarrow> (r'', m # ms))"

text \<open>The network in which the servers at \<open>as\<close> have the pairs \<open>ms\<close> and nothing else of their data has changed.\<close>

definition same_but_pairs :: "kv_map \<Rightarrow> nameserver \<Rightarrow> nameserver \<Rightarrow> bool" where
  "same_but_pairs m s s' \<longleftrightarrow> s'\<lparr>outbox := outbox s\<rparr> = s\<lparr>pairs := m\<rparr>"

locale ring_message =
  fixes msg :: "'r \<Rightarrow> NameServerMessage"
    and payload :: "'r \<Rightarrow> ns_payload"
    and visit :: "'r \<Rightarrow> nameserver \<Rightarrow> 'r \<times> kv_map"
  assumes handler: "Nameserver_HandleRequest e (msg r) source s =
      Ret (s\<lparr>pairs := snd (visit r s), outbox := outbox s @ [(successor s, payload (fst (visit r s)))]\<rparr>)"
    and wrap_payload: "wrap (payload r) = msg r"
    and visit_outbox: "visit r (s\<lparr>outbox := x\<rparr>) = visit r s"
begin

lemma ripple_step:
  assumes "target \<noteq> boot" and "net target = Some s"
  shows "ripple (Suc f) e boot target (msg r) net = ripple f e boot (successor s) (msg (fst (visit r s)))
    (net(target \<mapsto> s\<lparr>pairs := snd (visit r s), outbox := [(successor s, payload (fst (visit r s)))]\<rparr>))"
  using assms by (simp add: handler wrap_payload visit_outbox)

text \<open>A message comes back after one visit to every server; as much fuel is enough.\<close>

lemma ripple_chain:
  assumes "chain net boot target as"
  shows "\<exists>net'. ripple (Suc (length as)) e boot target (msg r) net =
      Some (Ret (msg (fst (visit_all visit r (servers net as))), net')) \<and>
    list_all2 (\<lambda>(m, s) s'. same_but_pairs m s s')
      (zip (snd (visit_all visit r (servers net as))) (servers net as)) (servers net' as) \<and>
    (\<forall>a. a \<notin> set as \<longrightarrow> net' a = net a)"
  using assms
proof (induction as arbitrary: net target r)
  case Nil
  then show ?case by (simp add: servers_def)
next
  case (Cons a as)
  then obtain s where s: "net a = Some s" "target = a" "a \<noteq> boot" "a \<notin> set as" "chain net boot (successor s) as"
    by (auto split: option.splits)
  let ?s = "s\<lparr>pairs := snd (visit r s), outbox := [(successor s, payload (fst (visit r s)))]\<rparr>"
  let ?net = "net(a \<mapsto> ?s)" and ?r = "fst (visit r s)"
  have same: "servers ?net as = servers net as" using s(4) by (auto simp: servers_def)
  have "chain ?net boot (successor s) as" using s(4,5) by simp
  from Cons.IH [OF this, of ?r] obtain net' where n:
    "ripple (Suc (length as)) e boot (successor s) (msg ?r) ?net =
      Some (Ret (msg (fst (visit_all visit ?r (servers net as))), net'))"
    "list_all2 (\<lambda>(m, s) s'. same_but_pairs m s s')
      (zip (snd (visit_all visit ?r (servers net as))) (servers net as)) (servers net' as)"
    "\<forall>b. b \<notin> set as \<longrightarrow> net' b = ?net b"
    unfolding same by blast
  have a': "net' a = Some ?s" using n(3) s(4) by simp
  have "ripple (Suc (length (a # as))) e boot target (msg r) net =
      Some (Ret (msg (fst (visit_all visit ?r (servers net as))), net'))"
    using ripple_step [of target boot net s "Suc (length as)" e r] s n(1) by simp
  moreover have "same_but_pairs (snd (visit r s)) s ?s" by (simp add: same_but_pairs_def)
  ultimately show ?case
    using n(2,3) s(1) a' by (intro exI [of _ net']) (auto simp: servers_def split: prod.split)
qed

end

declare ripple.simps [simp del]

section \<open>The three results\<close>

definition lookup_visit :: "LookUpResult \<Rightarrow> nameserver \<Rightarrow> LookUpResult \<times> kv_map" where
  "lookup_visit r s =
     (let found = (if in_bounds (lk_key r) s then map_of (pairs s) (lk_key r) else None)
      in (r\<lparr>lk_value := (case found of None \<Rightarrow> lk_value r | Some v \<Rightarrow> v),
            lk_id := (case found of None \<Rightarrow> lk_id r | Some v \<Rightarrow> ns_id s),
            lk_server_ids := lk_server_ids r @ [ns_id s]\<rparr>, pairs s))"

definition insert_visit :: "InsertResult \<Rightarrow> nameserver \<Rightarrow> InsertResult \<times> kv_map" where
  "insert_visit r s =
     (r\<lparr>in_id := (if in_bounds (in_key r) s then ns_id s else in_id r),
        in_server_ids := in_server_ids r @ [ns_id s]\<rparr>,
      if in_bounds (in_key r) s then kv_insert (in_key r) (in_value r) (pairs s) else pairs s)"

definition holds :: "u32 \<Rightarrow> nameserver \<Rightarrow> bool" where
  "holds k s \<longleftrightarrow> in_bounds k s \<and> map_of (pairs s) k \<noteq> None"

definition delete_visit :: "DeleteResult \<Rightarrow> nameserver \<Rightarrow> DeleteResult \<times> kv_map" where
  "delete_visit r s =
     (r\<lparr>delete_success := delete_success r \<or> holds (de_key r) s,
        de_server_ids := de_server_ids r @ [ns_id s]\<rparr>,
      if holds (de_key r) s then kv_erase (de_key r) (pairs s) else pairs s)"

interpretation lookup_ring: ring_message NsLookUp PLookUp lookup_visit
  by unfold_locales
    (auto simp: Nameserver_HandleRequest_def HandleLookUpResult_def lookup_visit_def send_to_def in_bounds_def Let_def
      split: option.split)

interpretation insert_ring: ring_message NsInsert PInsert insert_visit
  by unfold_locales
    (auto simp: Nameserver_HandleRequest_def HandleInsertResult_def insert_visit_def send_to_def in_bounds_def Let_def)

interpretation delete_ring: ring_message NsDelete PDelete delete_visit
  by unfold_locales
    (auto simp: Nameserver_HandleRequest_def HandleDeleteResult_def delete_visit_def send_to_def in_bounds_def
      holds_def Let_def)

section \<open>The abstract map\<close>

definition owner :: "nameserver list \<Rightarrow> u32 \<Rightarrow> nameserver option" where
  "owner ss k = find (in_bounds k) ss"

definition ring_map :: "nameserver list \<Rightarrow> u32 \<rightharpoonup> string" where
  "ring_map ss k = (case owner ss k of None \<Rightarrow> None | Some s \<Rightarrow> map_of (pairs s) k)"

text \<open>At most one server owns the key.\<close>

definition owned_once :: "u32 \<Rightarrow> nameserver list \<Rightarrow> bool" where
  "owned_once k ss \<longleftrightarrow> length (filter (in_bounds k) ss) \<le> 1"

lemma owner_simps [simp]:
  "owner [] k = None" "owner (s # ss) k = (if in_bounds k s then Some s else owner ss k)"
  by (simp_all add: owner_def)

lemma ring_map_simps [simp]:
  "ring_map [] k = None" "ring_map (s # ss) k = (if in_bounds k s then map_of (pairs s) k else ring_map ss k)"
  by (simp_all add: ring_map_def)

lemma not_owned: "filter (in_bounds k) ss = [] \<Longrightarrow> owner ss k = None"
  by (induction ss) (auto split: if_splits)

lemma ring_map_owner: "ring_map ss k \<noteq> None \<Longrightarrow> \<exists>s. owner ss k = Some s"
  by (auto simp: ring_map_def split: option.splits)

lemma lookup_visit_all:
  "owned_once (lk_key r) ss \<Longrightarrow> visit_all lookup_visit r ss =
     (r\<lparr>lk_value := (case ring_map ss (lk_key r) of None \<Rightarrow> lk_value r | Some v \<Rightarrow> v),
        lk_id := (case ring_map ss (lk_key r) of None \<Rightarrow> lk_id r | Some v \<Rightarrow> ns_id (the (owner ss (lk_key r)))),
        lk_server_ids := lk_server_ids r @ map ns_id ss\<rparr>, map pairs ss)"
proof (induction ss arbitrary: r)
  case (Cons s ss)
  show ?case
  proof (cases "in_bounds (lk_key r) s")
    case True
    then have "filter (in_bounds (lk_key r)) ss = []" using Cons.prems by (simp add: owned_once_def)
    then have no: "ring_map ss (lk_key r) = None" by (simp add: ring_map_def not_owned)
    have "owned_once (lk_key r) ss" using Cons.prems True by (simp add: owned_once_def)
    then show ?thesis
      using Cons.IH [of "fst (lookup_visit r s)"] True no
      by (simp add: lookup_visit_def Let_def split: option.split)
  next
    case False
    then show ?thesis
      using Cons.IH [of "fst (lookup_visit r s)"] Cons.prems
      by (simp add: lookup_visit_def Let_def owned_once_def split: option.split)
  qed
qed simp

lemma insert_visit_all:
  "owned_once (in_key r) ss \<Longrightarrow> visit_all insert_visit r ss =
     (r\<lparr>in_id := (case owner ss (in_key r) of None \<Rightarrow> in_id r | Some s \<Rightarrow> ns_id s),
        in_server_ids := in_server_ids r @ map ns_id ss\<rparr>,
      map (\<lambda>s. if in_bounds (in_key r) s then kv_insert (in_key r) (in_value r) (pairs s) else pairs s) ss)"
proof (induction ss arbitrary: r)
  case (Cons s ss)
  show ?case
  proof (cases "in_bounds (in_key r) s")
    case True
    then have "filter (in_bounds (in_key r)) ss = []" using Cons.prems by (simp add: owned_once_def)
    then have "owner ss (in_key r) = None" "owned_once (in_key r) ss"
      by (simp_all add: not_owned owned_once_def)
    then show ?thesis using Cons.IH [of "fst (insert_visit r s)"] True by (simp add: insert_visit_def)
  next
    case False
    then show ?thesis
      using Cons.IH [of "fst (insert_visit r s)"] Cons.prems
      by (simp add: insert_visit_def owned_once_def split: option.split)
  qed
qed simp

lemma delete_visit_all:
  "visit_all delete_visit r ss =
     (r\<lparr>delete_success := delete_success r \<or> (\<exists>s\<in>set ss. holds (de_key r) s),
        de_server_ids := de_server_ids r @ map ns_id ss\<rparr>,
      map (\<lambda>s. if holds (de_key r) s then kv_erase (de_key r) (pairs s) else pairs s) ss)"
  by (induction ss arbitrary: r) (simp_all add: delete_visit_def disj_assoc)

lemma holds_once:
  "owned_once k ss \<Longrightarrow> (\<exists>s\<in>set ss. holds k s) \<longleftrightarrow> ring_map ss k \<noteq> None"
proof (induction ss)
  case (Cons s ss)
  show ?case
  proof (cases "in_bounds k s")
    case True
    then have "\<forall>s'\<in>set ss. \<not> in_bounds k s'"
      using Cons.prems by (simp add: owned_once_def filter_empty_conv)
    then show ?thesis using True by (auto simp: holds_def)
  next
    case False
    then show ?thesis using Cons by (simp add: owned_once_def holds_def)
  qed
qed simp

text \<open>What a change of the pairs of every server, by \<open>f\<close>, makes of the abstract map.\<close>

lemma ring_map_changed:
  assumes "list_all2 (\<lambda>(m, s) s'. same_but_pairs m s s') (zip (map f ss) ss) ss'"
  shows "ring_map ss' j = (case owner ss j of None \<Rightarrow> None | Some s \<Rightarrow> map_of (f s) j)"
  using assms
proof (induction ss arbitrary: ss')
  case (Cons s ss)
  then obtain t ts where t: "ss' = t # ts" "same_but_pairs (f s) s t"
      "list_all2 (\<lambda>(m, s) s'. same_but_pairs m s s') (zip (map f ss) ss) ts"
    by (auto simp: list_all2_Cons1)
  have "bounds t = bounds s" "pairs t = f s"
    using arg_cong [OF t(2) [unfolded same_but_pairs_def], of bounds]
      arg_cong [OF t(2) [unfolded same_but_pairs_def], of pairs] by simp_all
  then show ?case using Cons.IH [OF t(3)] t(1) by (simp add: in_bounds_def)
qed simp

section \<open>Operations of the ring as operations of the map\<close>

lemma ring_lookup:
  assumes "chain net boot a as" and "owned_once (lk_key r) (servers net as)"
  shows "\<exists>r' net'. ripple (Suc (length as)) e boot a (NsLookUp r) net = Some (Ret (NsLookUp r', net')) \<and>
    lk_value r' = (case ring_map (servers net as) (lk_key r) of None \<Rightarrow> lk_value r | Some v \<Rightarrow> v) \<and>
    lk_id r' = (case ring_map (servers net as) (lk_key r) of
      None \<Rightarrow> lk_id r | Some v \<Rightarrow> ns_id (the (owner (servers net as) (lk_key r)))) \<and>
    lk_server_ids r' = lk_server_ids r @ map ns_id (servers net as) \<and>
    ring_map (servers net' as) = ring_map (servers net as)"
proof -
  note v = lookup_visit_all [OF assms(2)]
  obtain net' where n: "ripple (Suc (length as)) e boot a (NsLookUp r) net =
      Some (Ret (NsLookUp (fst (visit_all lookup_visit r (servers net as))), net'))"
    "list_all2 (\<lambda>(m, s) s'. same_but_pairs m s s')
      (zip (snd (visit_all lookup_visit r (servers net as))) (servers net as)) (servers net' as)"
    using lookup_ring.ripple_chain [OF assms(1)] by blast
  have "ring_map (servers net' as) = ring_map (servers net as)"
    using ring_map_changed [of pairs "servers net as" "servers net' as"] n(2) v
    by (auto simp: ring_map_def fun_eq_iff)
  then show ?thesis using n(1) v by auto
qed

lemma ring_insert:
  assumes "chain net boot a as" and "owned_once (in_key r) (servers net as)"
  shows "\<exists>r' net'. ripple (Suc (length as)) e boot a (NsInsert r) net = Some (Ret (NsInsert r', net')) \<and>
    in_id r' = (case owner (servers net as) (in_key r) of None \<Rightarrow> in_id r | Some s \<Rightarrow> ns_id s) \<and>
    in_server_ids r' = in_server_ids r @ map ns_id (servers net as) \<and>
    ring_map (servers net' as) =
      (if owner (servers net as) (in_key r) = None \<or> ring_map (servers net as) (in_key r) \<noteq> None
       then ring_map (servers net as) else (ring_map (servers net as))(in_key r \<mapsto> in_value r))"
proof -
  let ?ss = "servers net as"
  let ?f = "\<lambda>s. if in_bounds (in_key r) s then kv_insert (in_key r) (in_value r) (pairs s) else pairs s"
  note v = insert_visit_all [OF assms(2)]
  obtain net' where n: "ripple (Suc (length as)) e boot a (NsInsert r) net =
      Some (Ret (NsInsert (fst (visit_all insert_visit r ?ss)), net'))"
    "list_all2 (\<lambda>(m, s) s'. same_but_pairs m s s')
      (zip (snd (visit_all insert_visit r ?ss)) ?ss) (servers net' as)"
    using insert_ring.ripple_chain [OF assms(1)] by blast
  have own: "owner ?ss j = Some s \<Longrightarrow> in_bounds j s" for j s
    by (auto simp: owner_def find_Some_iff)
  have "ring_map (servers net' as) j =
      (if owner ?ss (in_key r) = None \<or> ring_map ?ss (in_key r) \<noteq> None
       then ring_map ?ss else (ring_map ?ss)(in_key r \<mapsto> in_value r)) j" for j
    using ring_map_changed [of ?f ?ss "servers net' as" j] n(2) v own [of j] own [of "in_key r"]
    by (auto simp: ring_map_def split: option.splits if_splits)
  then show ?thesis using n(1) v by auto
qed

lemma ring_delete:
  assumes "chain net boot a as" and "owned_once (de_key r) (servers net as)"
  shows "\<exists>r' net'. ripple (Suc (length as)) e boot a (NsDelete r) net = Some (Ret (NsDelete r', net')) \<and>
    delete_success r' = (delete_success r \<or> ring_map (servers net as) (de_key r) \<noteq> None) \<and>
    de_server_ids r' = de_server_ids r @ map ns_id (servers net as) \<and>
    ring_map (servers net' as) = (ring_map (servers net as))(de_key r := None)"
proof -
  let ?ss = "servers net as"
  let ?f = "\<lambda>s. if holds (de_key r) s then kv_erase (de_key r) (pairs s) else pairs s"
  obtain net' where n: "ripple (Suc (length as)) e boot a (NsDelete r) net =
      Some (Ret (NsDelete (fst (visit_all delete_visit r ?ss)), net'))"
    "list_all2 (\<lambda>(m, s) s'. same_but_pairs m s s')
      (zip (snd (visit_all delete_visit r ?ss)) ?ss) (servers net' as)"
    using delete_ring.ripple_chain [OF assms(1)] by blast
  have own: "owner ?ss j = Some s \<Longrightarrow> in_bounds j s" for j s
    by (auto simp: owner_def find_Some_iff)
  have "ring_map (servers net' as) j = ((ring_map ?ss)(de_key r := None)) j" for j
    using ring_map_changed [of ?f ?ss "servers net' as" j] n(2) own [of j]
    by (auto simp: ring_map_def delete_visit_all holds_def split: option.splits)
  then show ?thesis using n(1) holds_once [OF assms(2)] by (auto simp: delete_visit_all)
qed

section \<open>Properties\<close>


text \<open>A ring of two servers for the witnesses.\<close>

abbreviation (input) ep1 :: Endpoint where "ep1 \<equiv> \<lparr>hostname = ''n1'', port = 1\<rparr>"
abbreviation (input) ep2 :: Endpoint where "ep2 \<equiv> \<lparr>hostname = ''n2'', port = 2\<rparr>"
abbreviation (input) epb :: Endpoint where "epb \<equiv> \<lparr>hostname = ''b'', port = 1\<rparr>"

definition demo_ring :: network where
  "demo_ring = [ep1 \<mapsto> (demo_ns 0 511 [(3, ''c'')])\<lparr>successor := ep2, ns_id := 1\<rparr>,
                ep2 \<mapsto> (demo_ns 512 1023 [])\<lparr>successor := epb, ns_id := 2\<rparr>]"

lemma demo_ring_ok: "chain demo_ring epb ep1 [ep1, ep2]" "owned_once 600 (servers demo_ring [ep1, ep2])"
  by (simp_all add: demo_ring_def servers_def owned_once_def in_bounds_def demo_ns_def)


section \<open>What the code sends\<close>

text \<open>A node whose receiver has queued one whole frame receives the message in it.\<close>

lemma DoReceive_single:
  assumes "un_processed_messages n = []" and "max_length (receive_queue n) = 0"
    and "queue (receive_queue n) = [\<lparr>rmessage = frame bs, endpoint = ep, rstatus = int (length (frame bs))\<rparr>]"
    and "length bs < 2 ^ 30" and "ParseFromArray c bs (int (length bs)) = Some m"
  shows "DoReceive c True True n =
    Ret (Some m, Some ep, n\<lparr>receive_queue := (receive_queue n)\<lparr>queue := []\<rparr>, un_processed_messages := []\<rparr>)"
proof -
  have "length (frame bs) < 2 ^ 31" using assms(4) by (simp add: frame_def)
  then obtain p1 where p1: "AddNewData new_parser (frame bs) = Ret p1" "wf_parser p1" "unread p1 = frame bs"
    using AddNewData_refines [OF wf_new_parser, of "frame bs"] by auto
  have sp: "split_frame (unread p1) = Some (bs, [])"
    using p1(3) assms(4) split_frame_frame [of bs "[]"] by simp
  then have c: "HasCompleteMessage p1" using wf_complete_iff [OF p1(2)] by simp
  then have parts: "partial_message p1 = bs" "overflow_message_data p1 = []"
    using wf_complete_split [OF p1(2)] sp by simp_all
  obtain p2 where g: "GetMessage c p1 = Ret (Some m, p2)"
    using GetMessage_parses [OF p1(2) sp, of c] assms(4,5) by auto
  have "DoReceive_loop True new_parser [] [] None (receive_queue n) =
      DoReceive_loop True p1 [] [] (Some ep) ((receive_queue n)\<lparr>queue := []\<rparr>)"
    using assms(3) p1(1) by (subst DoReceive_loop.simps) (simp add: next_response_def pop_queue_def frame_def)
  then show ?thesis
    using assms(1) c parts g by (simp add: DoReceive_def HasOverflow_def DoReceive_loop.simps [of True p1])
qed

text \<open>
  Nobody enters the ring. \<open>Enter\<close> sends an \<open>EntranceRequest\<close> whose id it never sets (\<open>raw\<close> is
  the encoding), while the bootstrap server parses a \<open>BootstrapMessage\<close>, of which the request would
  be one member. Protobuf does not encode a field that has its default value, so the request is
  encoded in no bytes at all, and no bytes are a \<open>BootstrapMessage\<close> with no member set: the
  bootstrap server takes the message from its queue, does nothing and answers nothing, and \<open>Enter\<close>,
  which waits for the answer without a timeout, never returns.
\<close>

theorem entrance_request_dropped:
  assumes "raw (PEntranceRequest 0) = []" and "ParseFromArray (bs_codec e) [] 0 = Some BsEmpty"
    and "Enter e NoReply u sent s = Ret (ok, t)" and "outbox t = outbox s @ [(d, m)]"
    and "un_processed_messages n = []" and "max_length (receive_queue n) = 0"
    and "queue (receive_queue n) =
      [\<lparr>rmessage = frame (raw m), endpoint = ep, rstatus = int (length (frame (raw m)))\<rparr>]"
  shows "d = bootstrap s \<and>
    (\<exists>n'. Bootstrap_ReceiveAndHandle e True n b = Ret (n', b) \<and>
      un_processed_messages n' = [] \<and> queue (receive_queue n') = []) \<and>
    Enter e NeverReply u sent s = Block"
proof -
  have dm: "d = bootstrap s" "m = PEntranceRequest 0"
    using assms(3,4) by (auto simp: Enter_def send_to_def Let_def)
  have "DoReceive (bs_codec e) True True n =
      Ret (Some BsEmpty, Some ep, n\<lparr>receive_queue := (receive_queue n)\<lparr>queue := []\<rparr>, un_processed_messages := []\<rparr>)"
    using DoReceive_single [OF assms(5-7), of "bs_codec e" BsEmpty] assms(1,2) dm(2) by simp
  then show ?thesis
    using dm(1) by (simp add: Bootstrap_ReceiveAndHandle_def Bootstrap_HandleRequest_def Enter_def Let_def)
qed

theorem entrance_request_dropped_witness:
  "\<exists>n'. Bootstrap_ReceiveAndHandle
      (demo_ns_env\<lparr>bs_codec := (table_codec [])\<lparr>ParseFromArray := (\<lambda>bs k. if bs = [] then Some BsEmpty else None)\<rparr>\<rparr>) True
      (new_node\<lparr>receive_queue := \<lparr>max_length = 0, queue =
        [\<lparr>rmessage = [0, 0, 0, 0], endpoint = ep1, rstatus = 4\<rparr>]\<rparr>\<rparr>) (demo_ns 0 1023 []) =
      Ret (n', demo_ns 0 1023 []) \<and> un_processed_messages n' = [] \<and> queue (receive_queue n') = []"
  using entrance_request_dropped [where raw = "\<lambda>_. []" and u = NoReply and sent = 0 and s = "demo_ns 0 511 []"
      and t = "send_to (bootstrap (demo_ns 0 511 [])) (PEntranceRequest 0) (demo_ns 0 511 [])" and ok = False
      and d = "bootstrap (demo_ns 0 511 [])" and m = "PEntranceRequest 0" and ep = ep1 and b = "demo_ns 0 1023 []"
      and e = "demo_ns_env\<lparr>bs_codec := (table_codec [])\<lparr>ParseFromArray := (\<lambda>bs k. if bs = [] then Some BsEmpty else None)\<rparr>\<rparr>"
      and n = "new_node\<lparr>receive_queue := \<lparr>max_length = 0, queue =
        [\<lparr>rmessage = [0, 0, 0, 0], endpoint = ep1, rstatus = 4\<rparr>]\<rparr>\<rparr>"]
  by (simp add: Enter_def Let_def send_to_def new_node_def frame_def htonl_bytes_def)

end
