(* ===== verification/Name_Server_Threads.thy ===== *)
theory Name_Server_Threads
  imports Name_Server
begin

text \<open>
  A name server that enters the ring while its task goes on handling requests. \<open>Enter\<close> runs on the
  main thread and waits twice for an answer; \<open>ReceiveAndHandle\<close> runs on a thread of the pool, and
  both work on the same members without a lock. Here \<open>Enter\<close> is cut where it waits, and the requests
  that the task handles come in between. (Within a part of \<open>Enter\<close>, and within a handler, the members
  are taken to be written at once.)

  The lemmas: an entrance that is not interrupted is \<open>Enter\<close>; in every interleaving the pairs stay a
  map and \<open>Enter\<close> changes no pair that the server holds; and a request that comes in between can divert
  the last message of \<open>Enter\<close>.
\<close>

section \<open>Steps\<close>

datatype enter_pc =
    En_Request
  | En_Entrance
  | En_Update
  | En_Done bool

text \<open>The three parts of \<open>Enter\<close>. The reply of the second part is that of the bootstrap server, the
  reply of the third that of the successor.\<close>

definition Enter_request :: "nameserver \<Rightarrow> nameserver" where
  "Enter_request s = send_to (bootstrap s) (PEntranceRequest 0) s"

definition Enter_neighbours :: "ns_env \<Rightarrow> EntranceInformation \<Rightarrow> nameserver \<Rightarrow> nameserver" where
  "Enter_neighbours e entrance_info s =
     (let su = info (successor_info entrance_info);
          pr = info (predecessor_info entrance_info);
          s2 = (if entrance_initialized e entrance_info
                then s\<lparr>successor := \<lparr>hostname = si_ip su, port = ucast (si_port su)\<rparr>,
                       successor_id := si_id su,
                       predecessor := \<lparr>hostname = si_ip pr, port = ucast (si_port pr)\<rparr>,
                       predecessor_id := si_id pr\<rparr>
                else s\<lparr>successor := bootstrap s, predecessor := bootstrap s\<rparr>)
      in send_to (successor s2)
           (PUpdatePredReq (Some \<lparr>si_id = ns_id s2, si_ip = [], si_port = of_int (ns_port s2)\<rparr>)) s2)"

definition Enter_pairs :: "UpdatePredecessorResponse \<Rightarrow> nameserver \<Rightarrow> nameserver outcome" where
  "Enter_pairs res s =
     obind (take_over 0 (up_keys res) (up_values res) (pairs s)) (\<lambda>m.
       let s' = s\<lparr>bounds := (up_lower res, up_upper res), pairs := m\<rparr>
       in Ret (send_to (predecessor s')
            (PUpdateSuccReq (Some \<lparr>si_id = ns_id s', si_ip = [], si_port = of_int (ns_port s')\<rparr>)) s'))"

fun Enter_step ::
  "ns_env \<Rightarrow> EntranceInformation reply \<Rightarrow> UpdatePredecessorResponse reply \<Rightarrow> int \<Rightarrow>
   enter_pc \<times> nameserver \<Rightarrow> (enter_pc \<times> nameserver) outcome" where
  "Enter_step e entrance update sent (En_Request, s) = Ret (En_Entrance, Enter_request s)"
| "Enter_step e entrance update sent (En_Entrance, s) =
     (case entrance of
        NeverReply \<Rightarrow> Block
      | NoReply \<Rightarrow> Ret (En_Done False, s)
      | Reply entrance_info \<Rightarrow> Ret (En_Update, Enter_neighbours e entrance_info s))"
| "Enter_step e entrance update sent (En_Update, s) =
     (case update of
        NeverReply \<Rightarrow> Block
      | NoReply \<Rightarrow> Ret (En_Done False, s)
      | Reply res \<Rightarrow> obind (Enter_pairs res s) (\<lambda>s'. Ret (En_Done (0 \<le> sent), s')))"
| "Enter_step e entrance update sent (En_Done ok, s) = Block"

inductive entering :: "ns_env \<Rightarrow> enter_pc \<times> nameserver \<Rightarrow> enter_pc \<times> nameserver \<Rightarrow> bool" for e where
  driver: "Enter_step e entrance update sent x = Ret y \<Longrightarrow> entering e x y"
| task: "Nameserver_HandleRequest e msg source s = Ret s' \<Longrightarrow> entering e (pc, s) (pc, s')"

section \<open>An entrance that is not interrupted\<close>

lemma Enter_parts:
  "Enter e entrance update sent s =
     obind (Enter_step e entrance update sent (En_Request, s)) (\<lambda>x.
     obind (Enter_step e entrance update sent x) (\<lambda>y.
       case y of
         (En_Done ok, s') \<Rightarrow> Ret (ok, s')
       | _ \<Rightarrow> obind (Enter_step e entrance update sent y) (\<lambda>(pc, s'). Ret (case pc of En_Done ok \<Rightarrow> ok | _ \<Rightarrow> False, s'))))"
  by (cases entrance; cases update)
    (auto simp: Enter_def Enter_request_def Enter_neighbours_def Enter_pairs_def Let_def send_to_def)

section \<open>The pairs\<close>

lemma take_over_keeps: "take_over i ks vs m = Ret m' \<Longrightarrow> map_of m k = Some v \<Longrightarrow> map_of m' k = Some v"
proof (induction i ks vs m rule: take_over.induct)
  case (2 i ka ks vs m)
  then obtain x where x: "get_at i vs = Ret x" "take_over (Suc i) ks vs (kv_insert ka x m) = Ret m'"
    by (auto simp: outcome_simps)
  have "map_of (kv_insert ka x m) k = Some v" using "2.prems"(2) by auto
  then show ?case using "2.IH" [OF x] by blast
qed simp

lemma Enter_neighbours_frame [simp]:
  "pairs (Enter_neighbours e i s) = pairs s" "ns_console (Enter_neighbours e i s) = ns_console s"
  by (simp_all add: Enter_neighbours_def Let_def send_to_def)

lemma Enter_request_frame [simp]:
  "pairs (Enter_request s) = pairs s" "ns_console (Enter_request s) = ns_console s"
  by (simp_all add: Enter_request_def send_to_def)

lemma Enter_pairs_effect:
  assumes "Enter_pairs res s = Ret s'"
  shows "take_over 0 (up_keys res) (up_values res) (pairs s) = Ret (pairs s') \<and> ns_console s' = ns_console s"
  using assms by (auto simp: Enter_pairs_def Let_def outcome_simps send_to_def)

lemma Enter_step_wf:
  assumes "Enter_step e entrance update sent (pc, s) = Ret (pc', s')" and "ns_wf s"
  shows "ns_wf s'"
  using assms
  by (cases pc; cases entrance; cases update)
    (auto simp: ns_wf_def obind_eq_Ret dest!: Enter_pairs_effect intro: take_over_distinct)

lemma Enter_step_keeps:
  assumes "Enter_step e entrance update sent (pc, s) = Ret (pc', s')" and "map_of (pairs s) k = Some v"
  shows "map_of (pairs s') k = Some v"
  using assms
  by (cases pc; cases entrance; cases update)
    (auto simp: obind_eq_Ret dest!: Enter_pairs_effect intro: take_over_keeps)

lemma entering_wf: "entering e x y \<Longrightarrow> ns_wf (snd x) \<Longrightarrow> ns_wf (snd y)"
proof (induction rule: entering.induct)
  case (driver entrance update sent x y)
  then show ?case using Enter_step_wf [of e entrance update sent "fst x" "snd x" "fst y" "snd y"] by simp
next
  case (task msg source s s' pc)
  then show ?case using Nameserver_HandleRequest_wf by auto
qed

section \<open>Properties\<close>


definition demo_handed :: UpdatePredecessorResponse where
  "demo_handed = \<lparr>up_lower = 0, up_upper = 7, up_keys = [0], up_values = [''old'']\<rparr>"


text \<open>
  An entrance can notify the wrong server. \<open>Enter\<close> reads its predecessor again after it has waited for
  its successor; when another server has announced itself as the new predecessor in the meantime, the
  request to update the successor goes there, and the predecessor that the bootstrap server named
  never learns of the entrance.
\<close>

theorem enter_notifies_wrong_predecessor:
  fixes q :: ServerInfo and source source' :: Endpoint and s :: nameserver
  assumes "pairs s = []" and "entrance_initialized e i"
    and "successor' = \<lparr>hostname = si_ip (info (successor_info i)), port = ucast (si_port (info (successor_info i)))\<rparr>"
    and "source' = \<lparr>hostname = hostname source, port = ucast (si_port q)\<rparr>"
  shows "\<exists>s'. (entering e)\<^sup>*\<^sup>* (En_Request, s) (En_Done True, s') \<and>
    (\<exists>m1 m2 m3 m4. outbox s' = outbox s @ [(bootstrap s, PEntranceRequest m1), (successor', PUpdatePredReq m2),
      (source', PUpdatePredRes m3), (source', PUpdateSuccReq m4)])"
proof -
  let ?res = "\<lparr>up_lower = 0, up_upper = 0, up_keys = [], up_values = []\<rparr>"
  let ?s1 = "Enter_request s" let ?s2 = "Enter_neighbours e i ?s1"
  have 1: "entering e (En_Request, s) (En_Entrance, ?s1)" by (rule driver [of _ NoReply NoReply 0]) simp
  have 2: "entering e (En_Entrance, ?s1) (En_Update, ?s2)" by (rule driver [of _ "Reply i" NoReply 0]) simp
  obtain s3 where h: "Nameserver_HandleRequest e (NsUpdatePredReq (Some q)) source ?s2 = Ret s3"
      "pairs s3 = []" "predecessor s3 = source'"
      "\<exists>m3. outbox s3 = outbox ?s2 @ [(source', PUpdatePredRes m3)]"
    using assms(1,4) by (cases "bounds ?s2")
    (auto simp: Nameserver_HandleRequest_def HandleUpdatePredecessor_def Let_def info_def send_to_def)
  have 3: "entering e (En_Update, ?s2) (En_Update, s3)" by (rule task [OF h(1)])
  obtain s4 where p: "Enter_pairs ?res s3 = Ret s4"
      "\<exists>m4. outbox s4 = outbox s3 @ [(source', PUpdateSuccReq m4)]"
    using h(3) by (auto simp: Enter_pairs_def Let_def send_to_def)
  have 4: "entering e (En_Update, s3) (En_Done True, s4)"
    by (rule driver [of _ NoReply "Reply ?res" 0]) (simp add: p(1))
  have "(entering e)\<^sup>*\<^sup>* (En_Request, s) (En_Done True, s4)"
    using 1 2 3 4 by (meson converse_rtranclp_into_rtranclp r_into_rtranclp)
  moreover have "\<exists>m2. outbox ?s2 = outbox s @ [(bootstrap s, PEntranceRequest 0), (successor', PUpdatePredReq m2)]"
    using assms(2,3) by (simp add: Enter_neighbours_def Enter_request_def Let_def send_to_def)
  ultimately show ?thesis using h(4) p(2) by fastforce
qed

end
