(* ===== verification/Name_Server_Driver.thy ===== *)
theory Name_Server_Driver
  imports Name_Server
begin

text \<open>
  Model of the two drivers of \<open>project4/name_server\<close>, which read a configuration file and then
  commands from the user, and of the choice between them in \<open>nameserver_main.cpp\<close>. One line of
  input is one step; what the network answers to \<open>Enter\<close> is an argument. The flag \<open>running_\<close> is
  initialized nowhere; what it holds is an argument too. The console is one object that driver and
  server share: the server's copy is the current one as soon as there is a server.
\<close>

section \<open>Commands\<close>

datatype NameserverCommand = ENTER | EXIT

definition nameserver_cmds :: "string \<Rightarrow> NameserverCommand option" where
  "nameserver_cmds = [''enter'' \<mapsto> ENTER, ''exit'' \<mapsto> EXIT]"

datatype BootstrapCommand = LOOKUP | INSERT | DELETE

definition bootstrap_cmds :: "string \<Rightarrow> BootstrapCommand option" where
  "bootstrap_cmds = [''lookup'' \<mapsto> LOOKUP, ''insert'' \<mapsto> INSERT, ''delete'' \<mapsto> DELETE]"

section \<open>Drivers\<close>

record driver =
  drunning :: bool
  dserver :: "nameserver option"
  dconsole :: console

definition driver_console :: "string \<Rightarrow> driver \<Rightarrow> driver outcome" where
  "driver_console t d =
     (case dserver d of
        Some s \<Rightarrow> obind (ns_send_console t s) (\<lambda>s'. Ret (d\<lparr>dserver := Some s'\<rparr>))
      | None \<Rightarrow> obind (SendConsole t (dconsole d)) (\<lambda>c. Ret (d\<lparr>dconsole := c\<rparr>)))"

text \<open>A call on the server; without a server the pointer is null.\<close>

definition on_server :: "(nameserver \<Rightarrow> nameserver outcome) \<Rightarrow> driver \<Rightarrow> driver outcome" where
  "on_server f d =
     (case dserver d of
        None \<Rightarrow> Crash
      | Some s \<Rightarrow> obind (f s) (\<lambda>s'. Ret (d\<lparr>dserver := Some s'\<rparr>)))"

definition no_config :: "driver \<Rightarrow> driver outcome" where
  "no_config d =
     obind (driver_console ''No config or invalid config found!'' d) (\<lambda>d'. Ret (d'\<lparr>drunning := False\<rparr>))"

text \<open>
  \<open>conf\<close> is the text of the file, or \<open>None\<close> when it cannot be opened. The first line, the id,
  is read and not used.
\<close>

definition NameserverDriver_LoadConfig :: "ns_junk \<Rightarrow> string option \<Rightarrow> driver \<Rightarrow> driver outcome" where
  "NameserverDriver_LoadConfig j conf d =
     (case conf of
        None \<Rightarrow> no_config d
      | Some f \<Rightarrow>
          let (_, id_line, f1) = getline (Some f) [];
              (_, port_line, f2) = getline f1 [];
              (_, bootstrap_info, f3) = getline f2 [];
              (host, ss) = read_word bootstrap_info [];
              boot = \<lparr>hostname = host, port = fst (read_u16 ss (junk_port j))\<rparr>
          in case stoi port_line of
               None \<Rightarrow> Crash
             | Some p \<Rightarrow> Ret (d\<lparr>dserver := Some (new_Nameserver j (dconsole d) p boot)\<rparr>))"

text \<open>
  The loop over the lines with the initial pairs. The variables of key and value live outside
  the loop, so a word that is missing leaves the one of the line before.
\<close>

function load_pairs :: "istream \<Rightarrow> string \<Rightarrow> string \<Rightarrow> kv_map \<Rightarrow> kv_map outcome" where
  "load_pairs f key val kvs =
     (case getline f [] of
        (ok, kv_pair, f') \<Rightarrow>
          if \<not> ok then Ret kvs
          else
            let (key', ss) = read_word kv_pair key; (val', ss') = read_word ss val
            in case stoi key' of
                 None \<Rightarrow> Crash
               | Some k \<Rightarrow> load_pairs f' key' val' (kv_insert (of_int k) val' kvs))"
  by pat_completeness auto

lemma getline_shorter:
  assumes "getline f old = (True, l, f')"
  shows "(case f' of None \<Rightarrow> 0 | Some s \<Rightarrow> Suc (length s)) < (case f of None \<Rightarrow> 0 | Some s \<Rightarrow> Suc (length s))"
proof (cases f)
  case (Some s)
  have "length (tl (dropWhile (\<lambda>c. c \<noteq> newline) s)) < length s" if "newline \<in> set s"
  proof -
    have "dropWhile (\<lambda>c. c \<noteq> newline) s \<noteq> []" using that by (simp add: dropWhile_eq_Nil_conv)
    moreover have "length (dropWhile (\<lambda>c. c \<noteq> newline) s) \<le> length s" by (rule length_dropWhile_le)
    ultimately show ?thesis by (cases "dropWhile (\<lambda>c. c \<noteq> newline) s") auto
  qed
  then show ?thesis using assms Some by (auto split: if_splits)
qed (use assms in simp)

termination load_pairs
  by (relation "measure (\<lambda>(f, key, val, kvs). case f of None \<Rightarrow> 0 | Some s \<Rightarrow> Suc (length s))")
    (auto dest: getline_shorter [OF sym])

declare load_pairs.simps [simp del]

definition BootstrapDriver_LoadConfig :: "ns_junk \<Rightarrow> string option \<Rightarrow> driver \<Rightarrow> driver outcome" where
  "BootstrapDriver_LoadConfig j conf d =
     (case conf of
        None \<Rightarrow> no_config d
      | Some f \<Rightarrow>
          let (_, id_line, f1) = getline (Some f) [];
              (_, port_line, f2) = getline f1 []
          in obind (load_pairs f2 [] [] []) (\<lambda>kvs.
               case stoi port_line of
                 None \<Rightarrow> Crash
               | Some p \<Rightarrow> Ret (d\<lparr>dserver := Some (new_Bootstrap j (dconsole d) p kvs)\<rparr>)))"

definition new_NameserverDriver :: "ns_junk \<Rightarrow> bool \<Rightarrow> string option \<Rightarrow> driver outcome" where
  "new_NameserverDriver j uninit_running conf =
     NameserverDriver_LoadConfig j conf
       \<lparr>drunning = uninit_running, dserver = None, dconsole = new_ConsoleTask ''nameserver=> ''\<rparr>"

definition new_BootstrapDriver :: "ns_junk \<Rightarrow> bool \<Rightarrow> string option \<Rightarrow> driver outcome" where
  "new_BootstrapDriver j uninit_running conf =
     BootstrapDriver_LoadConfig j conf
       \<lparr>drunning = uninit_running, dserver = None, dconsole = new_ConsoleTask ''bootstrap=> ''\<rparr>"

text \<open>The body of the loops of \<open>Start\<close>, on a line of input.\<close>

definition NameserverDriver_line ::
  "ns_env \<Rightarrow> EntranceInformation reply \<Rightarrow> UpdatePredecessorResponse reply \<Rightarrow> int \<Rightarrow> string \<Rightarrow> driver \<Rightarrow> driver outcome"
where
  "NameserverDriver_line e entrance update sent input d =
     (case nameserver_cmds input of
        None \<Rightarrow> driver_console ''Invalid command!'' d
      | Some ENTER \<Rightarrow>
          obind (driver_console ''Entering...'' d)
            (on_server (\<lambda>s. obind (Enter e entrance update sent s) (\<lambda>(ok, s'). Ret s')))
      | Some EXIT \<Rightarrow> obind (driver_console ''Exiting...'' d) (on_server Exit))"

definition BootstrapDriver_line :: "string \<Rightarrow> driver \<Rightarrow> driver outcome" where
  "BootstrapDriver_line input d =
     (let (command, ss) = read_word input []; (key, ss') = read_word ss []
      in case bootstrap_cmds command of
           None \<Rightarrow> driver_console ''Invalid command!'' d
         | Some LOOKUP \<Rightarrow>
             obind (driver_console ''Performing lookup...'' d) (\<lambda>d1.
               case stoi key of None \<Rightarrow> Crash | Some k \<Rightarrow> on_server (LookUp (of_int k)) d1)
         | Some INSERT \<Rightarrow>
             obind (driver_console ''Performing insert...'' d) (\<lambda>d1.
               case stoi key of
                 None \<Rightarrow> Crash
               | Some k \<Rightarrow> on_server (Bootstrap_Insert (of_int k) (fst (read_word ss' []))) d1)
         | Some DELETE \<Rightarrow>
             obind (driver_console ''Performing delete...'' d) (\<lambda>d1.
               case stoi key of None \<Rightarrow> Crash | Some k \<Rightarrow> on_server (Bootstrap_Delete (of_int k)) d1))"

text \<open>
  The loops of \<open>Start\<close>: one round per element of the first list, which holds what the network
  answers if the command is \<open>enter\<close>, or for as many rounds as given. Nobody looks whether
  \<open>getline\<close> has failed.
\<close>

fun NameserverDriver_Start ::
  "ns_env \<Rightarrow> (EntranceInformation reply \<times> UpdatePredecessorResponse reply \<times> int) list \<Rightarrow> istream \<Rightarrow> driver \<Rightarrow>
   istream \<times> driver outcome" where
  "NameserverDriver_Start e [] cin d = (cin, Ret d)"
| "NameserverDriver_Start e ((entrance, update, sent) # xs) cin d =
     (if \<not> drunning d then (cin, Ret d)
      else case getline cin [] of
             (ok, input, cin') \<Rightarrow>
               (case NameserverDriver_line e entrance update sent input d of
                  Ret d' \<Rightarrow> NameserverDriver_Start e xs cin' d'
                | r \<Rightarrow> (cin', r)))"

fun BootstrapDriver_Start :: "nat \<Rightarrow> istream \<Rightarrow> driver \<Rightarrow> istream \<times> driver outcome" where
  "BootstrapDriver_Start 0 cin d = (cin, Ret d)"
| "BootstrapDriver_Start (Suc n) cin d =
     (if \<not> drunning d then (cin, Ret d)
      else case getline cin [] of
             (ok, input, cin') \<Rightarrow>
               (case BootstrapDriver_line input d of
                  Ret d' \<Rightarrow> BootstrapDriver_Start n cin' d'
                | r \<Rightarrow> (cin', r)))"

text \<open>The program: what kind of server the arguments ask for, or the exit code 1.\<close>

datatype server_kind = Simple string | BootstrapKind string | Usage

definition nameserver_main :: "string list \<Rightarrow> server_kind" where
  "nameserver_main argv =
     (if length argv \<noteq> 3 then Usage
      else if argv ! 1 = ''simple'' then Simple (argv ! 2)
      else if argv ! 1 = ''bootstrap'' then BootstrapKind (argv ! 2)
      else Usage)"

section \<open>Properties\<close>

text \<open>A configuration file with one pair per line, and what one such line becomes.\<close>

definition config_line :: "u32 \<times> string \<Rightarrow> string" where
  "config_line p = nat_string (unat (fst p)) @ '' '' @ snd p @ [newline]"

lemma no_newline:
  "newline \<notin> set (nat_string n)" "is_word w \<Longrightarrow> newline \<notin> set w"
proof -
  have "is_word w \<Longrightarrow> newline \<notin> set w" for w by (auto simp: is_word_def is_space_def)
  then show "newline \<notin> set (nat_string n)" "is_word w \<Longrightarrow> newline \<notin> set w"
    using nat_string_word by blast+
qed

lemma words_of_line:
  assumes "is_word v"
  shows "read_word (nat_string n @ '' '' @ v) key = (nat_string n, '' '' @ v)"
    and "read_word ('' '' @ v) val = (v, [])"
  using read_word_word(1) [OF nat_string_word, of "'' '' @ v" n key] read_word_word(2) [OF assms, of "[]" val]
  by (simp_all add: starts_with_space_def)

lemma load_pairs_lines:
  "\<forall>(k, v)\<in>set kvs. k < 2 ^ 31 \<and> is_word v \<Longrightarrow> distinct (map fst (acc @ kvs)) \<Longrightarrow>
   load_pairs (Some (concat (map config_line kvs))) key val acc = Ret (acc @ kvs)"
proof (induction kvs arbitrary: acc key val)
  case Nil
  then show ?case by (subst load_pairs.simps) simp
next
  case (Cons p kvs)
  obtain k v where p: "p = (k, v)" "k < 2 ^ 31" "is_word v" using Cons.prems(1) by (cases p) auto
  have k: "unat k < 2 ^ 31" using p(2) by (simp add: word_less_nat_alt)
  let ?l = "nat_string (unat k) @ '' '' @ v"
  have l: "newline \<notin> set ?l" using no_newline p(3) by auto
  have "getline (Some (concat (map config_line (p # kvs)))) [] = (True, ?l, Some (concat (map config_line kvs)))"
    using getline_line [OF l, of "concat (map config_line kvs)" "[]"] p(1) by (simp add: config_line_def)
  moreover have "kv_insert k v acc = acc @ [(k, v)]"
    using Cons.prems(2) p(1) by (auto simp: kv_insert_def map_of_eq_None_iff)
  moreover have "load_pairs (Some (concat (map config_line kvs))) (nat_string (unat k)) v (acc @ [(k, v)]) =
      Ret ((acc @ [(k, v)]) @ kvs)"
    using Cons.prems p(1) by (intro Cons.IH) auto
  ultimately show ?case
    using words_of_line(1) [OF p(3), of "unat k"] words_of_line(2) [OF p(3)] stoi_nat_string [OF k] p(1)
    by (subst load_pairs.simps) (simp del: getline.simps append.simps)
qed

text \<open>
  The configuration of a bootstrap server is read as it is written: from a file with an id, a
  port and one line per pair, in decimal, the driver creates a server that listens on that port
  and holds exactly these pairs.
\<close>

theorem bootstrap_config_roundtrip:
  assumes "newline \<notin> set id_line" and "n < 2 ^ 31" and "distinct (map fst kvs)"
    and "\<forall>(k, v)\<in>set kvs. k < 2 ^ 31 \<and> is_word v"
  shows "\<exists>d s. new_BootstrapDriver j u (Some (id_line @ newline # nat_string n @ newline # concat (map config_line kvs))) =
      Ret d \<and> dserver d = Some s \<and> pairs s = kvs \<and> ns_port s = int n \<and> bounds s = (0, 1023)"
proof -
  let ?rest = "nat_string n @ newline # concat (map config_line kvs)"
  have "getline (Some (id_line @ newline # ?rest)) [] = (True, id_line, Some ?rest)"
    by (rule getline_line [OF assms(1)])
  moreover have "getline (Some ?rest) [] = (True, nat_string n, Some (concat (map config_line kvs)))"
    by (rule getline_line) (rule no_newline)
  moreover have "load_pairs (Some (concat (map config_line kvs))) [] [] [] = Ret kvs"
    using load_pairs_lines [of kvs "[]"] assms(3,4) by simp
  ultimately show ?thesis
    using stoi_nat_string [OF assms(2)]
    by (simp add: new_BootstrapDriver_def BootstrapDriver_LoadConfig_def new_Bootstrap_def new_Nameserver_def Let_def
        del: getline.simps)
qed

theorem bootstrap_config_roundtrip_witness:
  "\<exists>d s. new_BootstrapDriver demo_junk True
      (Some (''1'' @ newline # nat_string 8000 @ newline # concat (map config_line [(5, ''x''), (6, ''y'')]))) =
      Ret d \<and> dserver d = Some s \<and> pairs s = [(5, ''x''), (6, ''y'')] \<and> ns_port s = int 8000 \<and> bounds s = (0, 1023)"
  by (rule bootstrap_config_roundtrip) (simp_all add: is_word_def is_space_def)

text \<open>
  What is inserted is found. When the user of a bootstrap server without any other server
  types \<open>insert k v\<close> for a free key of its range and then \<open>lookup k\<close>, the console is sent the
  value, and the pair is in the map.
\<close>

theorem bootstrap_insert_lookup:
  assumes "dserver d = Some s" and "ns_wf s" and "in_bounds k s" and "k < 2 ^ 31"
    and "map_of (pairs s) k = None" and "is_word v"
  shows "\<exists>d1 d2 s2. BootstrapDriver_line (''insert '' @ nat_string (unat k) @ '' '' @ v) d = Ret d1 \<and>
    BootstrapDriver_line (''lookup '' @ nat_string (unat k)) d1 = Ret d2 \<and> dserver d2 = Some s2 \<and>
    map_of (pairs s2) = (map_of (pairs s))(k \<mapsto> v) \<and>
    queue (console_message_queue (ns_console s2)) = queue (console_message_queue (ns_console s)) @
      [''Performing insert...'', ''Inserted into: 0'', ''Contacted: 0'',
       ''Performing lookup...'', ''Value: '' @ v, ''Contacted: 0'']"
proof -
  have k: "unat k < 2 ^ 31" using assms(4) by (simp add: word_less_nat_alt)
  have w: "is_word ''insert''" "is_word ''lookup''" by (simp_all add: is_word_def is_space_def)
  let ?n = "nat_string (unat k)"
  have i: "read_word (''insert '' @ ?n @ '' '' @ v) [] = (''insert'', '' '' @ ?n @ '' '' @ v)"
    using read_word_word(1) [OF w(1), of "'' '' @ ?n @ '' '' @ v" "[]"] by (simp add: starts_with_space_def)
  have i2: "read_word ('' '' @ ?n @ '' '' @ v) [] = (?n, '' '' @ v)"
    using read_word_word(2) [OF nat_string_word, of "'' '' @ v" "unat k" "[]"] by (simp add: starts_with_space_def)
  have i3: "read_word ('' '' @ v) [] = (v, [])"
    using read_word_word(2) [OF assms(6), of "[]" "[]"] by (simp add: starts_with_space_def)
  have l: "read_word (''lookup '' @ ?n) [] = (''lookup'', '' '' @ ?n)"
    using read_word_word(1) [OF w(2), of "'' '' @ ?n" "[]"] by (simp add: starts_with_space_def)
  have l2: "read_word ('' '' @ ?n) [] = (?n, [])"
    using read_word_word(2) [OF nat_string_word, of "[]" "unat k" "[]"] by (simp add: starts_with_space_def)
  note st = stoi_nat_string [OF k]
  have q: "max_length (console_message_queue (ns_console s)) = 0" using assms(2) by (simp add: ns_wf_def)
  have b: "fst (bounds s) \<le> k" "k \<le> snd (bounds s)" using assms(3) by (simp_all add: in_bounds_def)
  show ?thesis
    using assms(1,5) q b
    by (simp add: BootstrapDriver_line_def i i2 i3 l l2 st bootstrap_cmds_def driver_console_def on_server_def
        ns_send_console_def Bootstrap_Insert_def LookUp_def Let_def del: append.simps)
qed

theorem bootstrap_insert_lookup_witness:
  "\<exists>d1 d2 s2. BootstrapDriver_line (''insert '' @ nat_string (unat (5 :: u32)) @ '' '' @ ''x'')
      \<lparr>drunning = True, dserver = Some (demo_ns 0 1023 []), dconsole = new_ConsoleTask []\<rparr> = Ret d1 \<and>
    BootstrapDriver_line (''lookup '' @ nat_string (unat (5 :: u32))) d1 = Ret d2 \<and> dserver d2 = Some s2 \<and>
    map_of (pairs s2) = [5 \<mapsto> ''x'']"
  using bootstrap_insert_lookup [of "\<lparr>drunning = True, dserver = Some (demo_ns 0 1023 []), dconsole = new_ConsoleTask []\<rparr>"
      "demo_ns 0 1023 []" 5 "''x''"] new_Nameserver_wf [of demo_junk "''> ''" 80 "\<lparr>hostname = ''b'', port = 1\<rparr>"]
  by (auto simp: demo_ns_def in_bounds_def is_word_def is_space_def ns_wf_def new_Nameserver_def)

lemma driver_ops_running:
  "driver_console t d = Ret d' \<Longrightarrow> drunning d' = drunning d"
  "on_server f d = Ret d' \<Longrightarrow> drunning d' = drunning d"
  by (auto simp: driver_console_def on_server_def outcome_simps split: option.splits)

lemma driver_lines_running:
  "NameserverDriver_line e entrance update sent input d = Ret d' \<Longrightarrow> drunning d' = drunning d"
  "BootstrapDriver_line input d = Ret d' \<Longrightarrow> drunning d' = drunning d"
  by (auto simp: NameserverDriver_line_def BootstrapDriver_line_def outcome_simps split_beta Let_def
      dest!: driver_ops_running split: option.splits NameserverCommand.splits BootstrapCommand.splits)

text \<open>
  The drivers cannot be told to stop. However many rounds their loops have taken, on whatever
  input and also past its end, they are still running, unless the program has died: no command
  clears \<open>running_\<close>.
\<close>

theorem driver_loops_never_end:
  assumes "drunning d"
  shows "(NameserverDriver_Start e xs cin d = (cin', Ret d') \<longrightarrow> drunning d') \<and>
    (BootstrapDriver_Start n cin d = (cin', Ret d') \<longrightarrow> drunning d')"
proof -
  have "NameserverDriver_Start e xs cin d = (cin', Ret d') \<Longrightarrow> drunning d'"
    using assms
    by (induction e xs cin d rule: NameserverDriver_Start.induct)
      (auto dest: driver_lines_running split: prod.splits outcome.splits simp del: getline.simps)
  moreover have "BootstrapDriver_Start n cin d = (cin', Ret d') \<Longrightarrow> drunning d'"
    using assms
    by (induction n cin d rule: BootstrapDriver_Start.induct)
      (auto dest: driver_lines_running split: prod.splits outcome.splits simp del: getline.simps)
  ultimately show ?thesis by blast
qed

end
