(* ===== verification/Spec2Isabelle.thy ===== *)
theory Spec2Isabelle
  imports Pool_Shutdown Pool_Contract File_Interface Command_Id_Races Ftp_Sessions Ftp_System Node_Lifetime
    Client_Sends Client_Connects Node_Link Participant_Threads Pub_Sub_System Coordinator_Driver Coordinator_Races
    Name_Server_Ring Name_Server_Threads Name_Server_Driver
begin

text \<open>
  A verification library for the course projects of \<open>csci6780\<close>: an FTP server and client
  (\<open>project1_2\<close>), a publish/subscribe system with a coordinator and participants (\<open>project3\<close>),
  name servers with consistent hashing (\<open>project4\<close>) and the libraries they share (\<open>common\<close>), all in
  C++.

  \<^bold>\<open>The program.\<close> Every component talks through stream sockets. \<open>common/wire_protocol\<close> turns
  messages into length-prefixed frames and parses frames from a stream that arrives in arbitrary
  segments; \<open>common/chunked_files\<close> sends a file as a sequence of such messages. Concurrency goes
  through \<open>common/queue\<close>, a blocking queue, and \<open>common/thread_pool\<close>, which runs tasks on threads.
  \<open>common/message_passing\<close> combines these into nodes that exchange messages. The FTP server runs
  a listening task per port and one agent per client (\<open>server_tasks\<close>), which uses a file handler
  whose operations are guarded by per-file locks and a shared set of active command ids. The FTP
  client is a shell with transfer tasks in its own thread pool. The coordinator keeps the
  participants, a log of messages and a messenger per participant, and answers one request per
  connection; a participant is a shell with a task that receives the multicasts and one that
  prints. The name servers form a ring in which requests for a key travel from server to server,
  with a bootstrap server at its start; they use \<open>common/message_passing\<close>.

  \<^bold>\<open>Conventions\<close> (\<open>Base\<close>, \<open>Sockets\<close>, \<open>Text_Input\<close>). A computation returns an \<open>outcome\<close>: a value
  (\<open>Ret\<close>), waiting for something that does not happen (\<open>Block\<close>), or undefined behaviour and uncaught
  exceptions (\<open>Crash\<close>). Where a loop may run for ever it is a \<open>partial_function\<close> whose \<open>None\<close> is
  divergence. Machine integers are words of their width and wrap. A socket is a script of what
  the peer and the network do (\<open>rx\<close>, \<open>tx\<close>) with the bytes written so far (\<open>wire\<close>). Protobuf
  encodings are records of functions, \<open>codec\<close>, and \<open>codec_ok\<close> is their documented behaviour: a
  message is encoded in the announced number of bytes, which decode to the message. The file
  system, the clock, the results of system calls and the values of members that no constructor
  initializes are parameters as well. \<open>Text_Input\<close> models what the shells and the readers of
  configuration files use of the standard library: words, lines and numbers.

  \<^bold>\<open>Theories.\<close>
  \<^item> \<open>Wire_Protocol\<close> (\<open>wire_protocol.h\<close>, \<open>.cpp\<close>): \<open>Serialize\<close>, the parser with its three states
    and its 32-bit offsets, and the receive loop that agents and coordinators share. The parser
    refines the splitting of a byte stream into frames: no access outside its buffers, the same
    messages for every segmentation. The locale \<open>frame_decoder\<close> is the contract that the rest
    uses.
  \<^item> \<open>Blocking_Queue\<close> (\<open>queue.h\<close>): the operations for one thread and the monitor with waiting,
    notified and timed-out threads; order, bound and wake-ups over all interleavings. The locale
    \<open>fifo\<close> is its contract.
  \<^item> \<open>Pool_Task\<close> (\<open>task.h\<close>, \<open>task.cpp\<close>), \<open>Thread_Pool\<close> and \<open>Pool_Shutdown\<close> (\<open>thread_pool.h\<close>, \<open>.cpp\<close>):
    each critical section of the callers, the dispatcher, the joiner and the task threads is one
    step; invariants hold over all sequences of steps, and the destructor returns.
    \<open>Pool_Contract\<close>: for every task the pool simulates the automaton of the calls a task may get.
  \<^item> \<open>Socket_Setup\<close>: addresses, connecting and listening, with every copy of these functions that
    the programs carry (\<open>client_util\<close>, \<open>message_passing/utils\<close>, \<open>participant_util\<close>, \<open>registrar\<close>,
    \<open>coordinator_driver\<close>, \<open>server_task\<close>) as a definition of its own over a table of descriptors.
    The locale \<open>connector\<close> is what the copies that connect have in common.
  \<^item> \<open>Chunked_Files\<close> (\<open>chunked_file_sender\<close>, \<open>chunked_file_receiver\<close>): round trip of a file, and
    what happens to empty files, interrupted sends and the clean-up.
  \<^item> \<open>Command_Ids\<close> (\<open>command_ids\<close>): ids are fresh as long as one is free; locale \<open>id_source\<close>.
    \<open>Command_Id_Races\<close>: the loads and stores of agents that allocate concurrently; the ids of
    running commands differ if allocations do not overlap, and need not if they do.
  \<^item> \<open>File_Handler\<close> (\<open>file_handler\<close>), \<open>File_Access\<close> (\<open>file_access_manager\<close>, \<open>file_lock_guard\<close>,
    \<open>thread_safe_file_handler\<close>): the operations on paths and files, and the locking of files by
    concurrent sessions, with the locale \<open>lock_manager\<close>. \<open>File_Interface\<close>
    (\<open>file_handler_interface.h\<close>): the interface as a record of methods, with the locale
    \<open>same_handler\<close> for one implementation in the place of another; concurrent operations take
    effect one at a time, and an undisturbed thread cannot tell the two handlers apart.
  \<^item> \<open>Ftp_Agent\<close> (\<open>agent\<close>): all request handlers and the session loop, against a specification
    of the replies; the other agents act on the shared command ids between any two accesses.
    \<open>Ftp_Sessions\<close>: sessions that mix downloads with requests that need one answer.
    \<open>Ftp_Server\<close> (\<open>server_task\<close>, \<open>nport_task\<close>, \<open>tport_task\<close>, \<open>agent_task\<close>, \<open>server.cpp\<close>): from accepted
    connections to agents.
  \<^item> \<open>Ftp_Client\<close> (\<open>input_parser\<close>, \<open>client_util\<close>, \<open>client_tasks\<close>, \<open>client.cpp\<close>): command lines,
    requests, the shell and the transfer tasks. \<open>Ftp_System\<close> (\<open>client_main\<close>, \<open>server_main\<close>,
    \<open>Client::Connect\<close>, \<open>TerminateTask::SetUp\<close>): both programs with their arguments and connections,
    and the termination of a command across the two.
  \<^item> \<open>Message_Passing\<close> and \<open>Node_Lifetime\<close> (\<open>common/message_passing\<close>): receiver and sender tasks,
    \<open>Receive\<close> over several endpoints, clients and servers with the descriptors of their
    connections; requests with responses, and the creation and destruction of nodes.
    \<open>Client_Sends\<close>: threads that call \<open>Send\<close> of one client concurrently; every call returns, with
    the result of its own message. \<open>Client_Connects\<close>: threads that make the first connection at once.
    \<open>Node_Link\<close>: both ends of a connection and the network between them
    at work concurrently; messages arrive whole, once, in order, and all of them arrive.
  \<^item> \<open>Pub_Sub_Messages\<close>, \<open>Coordinator\<close> (\<open>project3/coordinator\<close>): message log, participant manager,
    registrar, messengers and request handlers. The handlers keep participants and messengers
    consistent, and multicasts reach those who are connected or come back in time. Its allocation
    of ids is a second instance of \<open>id_source\<close>. \<open>Coordinator_Driver\<close>: configuration, listening
    socket and accept loop. \<open>Coordinator_Threads\<close> and \<open>Coordinator_Races\<close>: the handlers as sequences
    of accesses to the shared structures, one thread per connection, in any interleaving; a
    handler that is not interrupted is the one of \<open>Coordinator\<close>, the structures stay consistent, no
    request waits for another, and what the interleavings break (ids, the order of multicasts).
  \<^item> \<open>Console_Task\<close> (both \<open>console_task.cpp\<close>) and \<open>Multicast_Participant\<close> (\<open>project3/participant\<close>):
    commands, requests, the receiver of multicasts and the shell. \<open>Participant_Threads\<close>: the shell,
    the console task and the receiver as concurrent threads; everything sent to the console is
    printed once and in order, and when the program ends. \<open>Pub_Sub_System\<close> joins participants and
    coordinator.
  \<^item> \<open>Name_Server\<close> (\<open>nameserver.cpp\<close>, \<open>bootstrap.cpp\<close>): every handler of both kinds of server,
    entering and leaving the ring. \<open>Name_Server_Ring\<close>: a request that travels around the ring does
    what it should on an abstract map, with the locale \<open>ring_message\<close> as the contract of such
    requests; and what becomes of the first message of a server that enters.
    \<open>Name_Server_Threads\<close>: a server that handles requests while it enters.
    \<open>Name_Server_Driver\<close> (\<open>nameserver_driver\<close>, \<open>bootstrap_driver\<close>, \<open>commands.h\<close>,
    \<open>nameserver_main.cpp\<close>): configuration files and command loops.
  \<^item> This theory joins the server and the client of the file transfer.

  \<^bold>\<open>Bounds and fuel.\<close> Transfers are bounded by the 32-bit counter of the sender, messages by the
  \<open>int\<close> of the protobuf interface (\<open>2 ^ 31\<close>), segments by the 32-bit offsets of the parser; each
  bound is a hypothesis where it is needed. \<open>SendChunks\<close>, \<open>ReceiveChunks\<close>, \<open>run_upload\<close>,
  \<open>run_download\<close>, \<open>run_sender\<close>, \<open>run_receiver\<close> and \<open>run_multicast\<close> iterate an operation a given number
  of times, and the theorems give a number that is enough (one more than the number of chunks for
  the transfers) or say that there is one. \<open>ripple\<close> has one unit of fuel per server and one for the
  way back. \<open>Participant_rounds\<close> and the \<open>Start\<close> loops of the name server drivers take a number of
  rounds because the loops they stand for do not end. \<open>client_send_returns\<close> is about runs of fewer
  than \<open>2 ^ 64\<close> steps, so that the counter of message ids does not wrap. The orders in which hash sets
  are traversed are the parameters \<open>order\<close> and \<open>scan\<close>.

  \<^bold>\<open>Not modelled.\<close> Steps of the threads of a name server inside a handler and between the
  commands at its console and its requests, other than those of \<open>Name_Server_Threads\<close>; finer steps of
  an operation on the file system than the operation itself; the constructors and accessors that only
  store and return their arguments.
  Data races are loads and stores of the shared counters in some order, and \<open>Crash\<close> where a hash set
  is changed during a pass over it; what else a compiler may do with them is not considered. In
  \<open>Ftp_Agent\<close> the other agents act before and after a call of \<open>GenerateID\<close>, not inside it; the steps
  inside are those of \<open>Command_Id_Races\<close>. The encoding of protobuf messages beyond the hypotheses
  that name it; memory allocation, logging and the text of diagnostics written to the standard
  error stream.
\<close>

section \<open>A file from the server to the client\<close>



section \<open>A file from the client to the server\<close>


text \<open>The shell after \<open>put a\<close> was typed, for a file with the one byte 5.\<close>

definition demo_put :: input_parser where
  "demo_put =
     \<lparr>is_valid = True, is_forking = False, req = Some PUTF, fn = ''a'', dn = [], cid = [], put_contents = [5]\<rparr>"

definition demo_client :: "unit client" where
  "demo_client =
     \<lparr>client.connected = True, outgoing_msg_buf = [], client_parser = new_parser,
      csock = demo_sock, terminate_sock = demo_sock, cout = [], tasks = [],
      cancelled = {}, get_task = None, put_task = None, r_old = NoRequest, local_files = (), pc = Prompt\<rparr>"


end
